(* ===== verification/Laredo_Prelude.thy ===== *)
theory Laredo_Prelude
  imports Main
begin

text \<open>
  Shared vocabulary of the development.  A Go \<^verbatim>\<open>map[K]V\<close> is a partial function
  \<open>'k \<rightharpoonup> 'v\<close>; the runtime chooses the order in which a \<^verbatim>\<open>range\<close> loop visits its
  keys, so every loop over a map takes that order as a list argument, and
  \<open>iter_order ks m\<close> says that \<open>ks\<close> is such an order.  The theory also holds the
  lemmas on lists, maps and folds that the components share.
\<close>

named_theorems laredo_defs \<open>definitions of the operations of a component\<close>
named_theorems frame_simps \<open>which fields an operation leaves unchanged\<close>

definition iter_order :: "'k list \<Rightarrow> ('k \<rightharpoonup> 'v) \<Rightarrow> bool" where
  "iter_order ks m \<longleftrightarrow> distinct ks \<and> set ks = dom m"

lemma iter_order_distinct [dest]: "iter_order ks m \<Longrightarrow> distinct ks"
  by (simp add: iter_order_def)

lemma iter_order_set: "iter_order ks m \<Longrightarrow> set ks = dom m"
  by (simp add: iter_order_def)

lemma iter_order_mem [simp]: "iter_order ks m \<Longrightarrow> k \<in> set ks \<longleftrightarrow> (\<exists>v. m k = Some v)"
  by (auto simp: iter_order_def)

lemma iter_order_length: "iter_order ks m \<Longrightarrow> length ks = card (dom m)"
  by (metis distinct_card iter_order_def)

lemma iter_order_exists: "finite (dom m) \<Longrightarrow> \<exists>ks. iter_order ks m"
  by (metis finite_distinct_list iter_order_def)

lemma iter_order_empty [simp]: "iter_order ks Map.empty \<longleftrightarrow> ks = []"
  by (auto simp: iter_order_def)

lemma iter_order_finite: "iter_order ks m \<Longrightarrow> finite (dom m)"
  by (metis List.finite_set iter_order_def)

text \<open>Lookups of a list's elements in a map, in list order.\<close>

definition values_of :: "'k list \<Rightarrow> ('k \<rightharpoonup> 'v) \<Rightarrow> 'v list" where
  "values_of ks m = List.map_filter m ks"

lemma values_of_Nil [simp]: "values_of [] m = []"
  by (simp add: values_of_def map_filter_def)

lemma values_of_Cons [simp]:
  "values_of (k # ks) m = (case m k of None \<Rightarrow> values_of ks m | Some v \<Rightarrow> v # values_of ks m)"
  by (simp add: values_of_def map_filter_def split: option.split)

lemma set_values_of: "set (values_of ks m) = {v. \<exists>k \<in> set ks. m k = Some v}"
  by (induction ks) (auto split: option.split)

lemma values_of_ran: "iter_order ks m \<Longrightarrow> set (values_of ks m) = ran m"
  by (auto simp: set_values_of ran_def iter_order_def)

lemma length_values_of: "iter_order ks m \<Longrightarrow> length (values_of ks m) = card (dom m)"
proof -
  assume a: "iter_order ks m"
  have "set ks \<subseteq> dom m \<Longrightarrow> length (values_of ks m) = length ks" for ks
    by (induction ks) (auto split: option.split)
  with a show ?thesis by (simp add: iter_order_length iter_order_set)
qed

lemma takeWhile_neq_append [simp]: "c \<notin> set xs \<Longrightarrow> takeWhile (\<lambda>x. x \<noteq> c) (xs @ c # ys) = xs"
  by (induction xs) auto

lemma dropWhile_neq_append [simp]: "c \<notin> set xs \<Longrightarrow> dropWhile (\<lambda>x. x \<noteq> c) (xs @ c # ys) = c # ys"
  by (induction xs) auto

lemma card_dom_upd:
  "finite (dom m) \<Longrightarrow> card (dom (m(k \<mapsto> v))) = (if m k = None then Suc (card (dom m)) else card (dom m))"
  by (auto simp: card_insert_if domIff insert_absorb)

lemma card_dom_del:
  "finite (dom m) \<Longrightarrow> card (dom (m(k := None))) = (if m k = None then card (dom m) else card (dom m) - 1)"
  by (auto simp: dom_fun_upd card_Diff_singleton domIff)

end
