(* ===== verification/Go_Values.thy ===== *)
theory Go_Values
  imports Laredo_Prelude "HOL-Library.Word"
begin

text \<open>
  The parts of Go's runtime and standard library that the program's own code rests on:
  dynamically typed values (\<^verbatim>\<open>any\<close>), the comparison \<^verbatim>\<open>==\<close> on them, decimal and
  hexadecimal formatting (\<^verbatim>\<open>strconv\<close>, \<^verbatim>\<open>fmt\<close>), \<^verbatim>\<open>strconv.ParseUint\<close> and
  \<^verbatim>\<open>strings.Cut\<close>.
\<close>

section \<open>Positional notation\<close>

fun digits_of :: "nat \<Rightarrow> nat \<Rightarrow> nat list" where
  "digits_of b n = (if b < 2 \<or> n < b then [n] else digits_of b (n div b) @ [n mod b])"

declare digits_of.simps [simp del]

definition of_digits :: "nat \<Rightarrow> nat list \<Rightarrow> nat" where
  "of_digits b = foldl (\<lambda>a d. a * b + d) 0"

lemma of_digits_snoc [simp]: "of_digits b (ds @ [d]) = of_digits b ds * b + d"
  by (simp add: of_digits_def)

lemma of_digits_Nil [simp]: "of_digits b [] = 0"
  by (simp add: of_digits_def)

lemma of_digits_digits_of [simp]: "of_digits b (digits_of b n) = n"
proof (induction b n rule: digits_of.induct)
  case (1 b n)
  show ?case
  proof (cases "b < 2 \<or> n < b")
    case True
    then show ?thesis by (subst digits_of.simps) (simp add: of_digits_def)
  next
    case False
    with "1.IH" show ?thesis by (subst digits_of.simps) simp
  qed
qed

lemma digits_of_inj: "digits_of b n = digits_of b m \<Longrightarrow> n = m"
  by (metis of_digits_digits_of)

lemma digits_of_nonempty [simp]: "digits_of b n \<noteq> []"
  by (subst digits_of.simps) simp

lemma digits_of_bound: "2 \<le> b \<Longrightarrow> d \<in> set (digits_of b n) \<Longrightarrow> d < b"
proof (induction b n arbitrary: d rule: digits_of.induct)
  case (1 b n)
  show ?case
  proof (cases "n < b")
    case True
    with "1.prems" show ?thesis by (simp add: digits_of.simps [of b n])
  next
    case False
    then have "digits_of b n = digits_of b (n div b) @ [n mod b]"
      using "1.prems"(1) by (simp add: digits_of.simps [of b n])
    then consider "d \<in> set (digits_of b (n div b))" | "d = n mod b"
      using "1.prems"(2) by auto
    then show ?thesis
    proof cases
      case 1
      with False "1.IH" "1.prems"(1) show ?thesis by (meson not_less)
    next
      case 2
      with "1.prems"(1) show ?thesis by simp
    qed
  qed
qed

lemma of_digits_zeros [simp]: "of_digits b (replicate k 0 @ ds) = of_digits b ds"
proof -
  have "foldl (\<lambda>a d. a * b + d) 0 (replicate k 0) = (0::nat)"
    by (induction k) simp_all
  then show ?thesis by (simp add: of_digits_def)
qed

lemma foldl_digits_mono: "(a::nat) \<le> foldl (\<lambda>a d. a * b + d) a ds" if "1 \<le> b"
proof (induction ds arbitrary: a)
  case Nil
  show ?case by simp
next
  case (Cons d ds)
  have "a \<le> a * b + d" using that by (simp add: trans_le_add1)
  then show ?case using Cons [of "a * b + d"] by simp
qed

section \<open>Digit characters\<close>

definition hex_upper :: "nat \<Rightarrow> char" where
  "hex_upper d = (if d < 10 then char_of (48 + d) else char_of (55 + d))"

definition digit_value :: "char \<Rightarrow> nat option" where
  "digit_value c =
     (let n = of_char c :: nat in
      if 48 \<le> n \<and> n \<le> 57 then Some (n - 48)
      else if 97 \<le> n \<and> n \<le> 122 then Some (n - 97 + 10)
      else if 65 \<le> n \<and> n \<le> 90 then Some (n - 65 + 10)
      else None)"

lemma of_char_hex_upper: "d < 16 \<Longrightarrow> of_char (hex_upper d) = (if d < 10 then 48 + d else 55 + d)"
  by (simp only: hex_upper_def if_distrib [of of_char] of_char_of) simp

lemma digit_value_hex_upper [simp]: "d < 16 \<Longrightarrow> digit_value (hex_upper d) = Some d"
  by (simp only: digit_value_def Let_def of_char_hex_upper) simp

lemma hex_upper_inj: "d < 16 \<Longrightarrow> e < 16 \<Longrightarrow> hex_upper d = hex_upper e \<Longrightarrow> d = e"
  by (metis digit_value_hex_upper option.inject)

lemma hex_upper_not_slash [simp]: "d < 16 \<Longrightarrow> hex_upper d \<noteq> CHR ''/''"
proof
  assume d: "d < 16" and eq: "hex_upper d = CHR ''/''"
  have "digit_value (CHR ''/'') = None" by (simp add: digit_value_def)
  with eq digit_value_hex_upper [OF d] show False by simp
qed

section \<open>strconv.ParseUint and strings.Cut\<close>

datatype num_error = ErrSyntax | ErrRange

fun ParseUint_loop :: "nat \<Rightarrow> nat \<Rightarrow> nat \<Rightarrow> string \<Rightarrow> num_error + nat" where
  "ParseUint_loop base maxVal n [] = Inr n"
| "ParseUint_loop base maxVal n (c # cs) =
     (case digit_value c of
        None \<Rightarrow> Inl ErrSyntax
      | Some d \<Rightarrow>
          if base \<le> d then Inl ErrSyntax
          else if maxVal < n * base + d then Inl ErrRange
          else ParseUint_loop base maxVal (n * base + d) cs)"

definition ParseUint :: "string \<Rightarrow> nat \<Rightarrow> nat \<Rightarrow> num_error + nat" where
  "ParseUint s base bitSize =
     (if s = [] then Inl ErrSyntax else ParseUint_loop base (2 ^ bitSize - 1) 0 s)"

lemma ParseUint_loop_digits:
  assumes "\<forall>d \<in> set ds. d < base" and "base \<le> 16" and "1 \<le> base"
    and "foldl (\<lambda>a d. a * base + d) n ds \<le> maxVal"
  shows "ParseUint_loop base maxVal n (map hex_upper ds) = Inr (foldl (\<lambda>a d. a * base + d) n ds)"
  using assms
proof (induction ds arbitrary: n)
  case Nil
  then show ?case by simp
next
  case (Cons d ds)
  have "n * base + d \<le> foldl (\<lambda>a d. a * base + d) (n * base + d) ds"
    using Cons.prems(3) by (rule foldl_digits_mono)
  with Cons.prems(4) have "n * base + d \<le> maxVal" by simp
  with Cons show ?case by simp
qed

lemma ParseUint_bound: "ParseUint s base bits = Inr n \<Longrightarrow> n < 2 ^ bits"
proof -
  have "ParseUint_loop base m k s = Inr n \<Longrightarrow> k \<le> m \<Longrightarrow> n \<le> m" for m k
    by (induction s arbitrary: k) (auto split: option.splits if_splits)
  moreover assume "ParseUint s base bits = Inr n"
  ultimately have "n \<le> 2 ^ bits - 1"
    by (simp add: ParseUint_def split: if_splits)
  moreover have "(0::nat) < 2 ^ bits" by simp
  ultimately show ?thesis by linarith
qed

definition Cut :: "string \<Rightarrow> char \<Rightarrow> string \<times> string \<times> bool" where
  "Cut s sep =
     (if sep \<in> set s
      then (takeWhile (\<lambda>c. c \<noteq> sep) s, tl (dropWhile (\<lambda>c. c \<noteq> sep) s), True)
      else (s, [], False))"

lemma Cut_append [simp]: "sep \<notin> set a \<Longrightarrow> Cut (a @ sep # b) sep = (a, b, True)"
  by (simp add: Cut_def)

lemma Cut_TrueD: "Cut s sep = (a, b, True) \<Longrightarrow> s = a @ sep # b \<and> sep \<notin> set a"
proof -
  assume cut: "Cut s sep = (a, b, True)"
  then have mem: "sep \<in> set s" by (simp add: Cut_def split: if_splits)
  then obtain xs ys where s: "s = xs @ sep # ys" and "sep \<notin> set xs"
    by (meson split_list_first)
  with cut show ?thesis by simp
qed

section \<open>Dynamically typed values\<close>

text \<open>
  A finite \<^verbatim>\<open>float64\<close> is given by the shortest decimal that reads back as it, which is how
  \<^verbatim>\<open>strconv\<close> prints it: a sign, the significant digits and the position of the decimal
  point (\<open>d\<^sub>1 d\<^sub>2 \<dots> \<times> 10\<close> to the power \<open>dp\<close>, read as \<open>0.d\<^sub>1d\<^sub>2\<dots>\<close>; no digits for zero).
  A \<^verbatim>\<open>time.Time\<close> is an instant, with zero for the zero time, together with its printed form.
  \<open>VOther\<close> is a comparable value of any other dynamic type, given by the name of the type and
  its printed form; \<open>VRef\<close> is a slice or map, on which \<^verbatim>\<open>==\<close> panics.
\<close>

datatype gofloat = FNaN | FInf bool | FFin bool "nat list" int

datatype "value" =
    VNil
  | VString string
  | VInt int
  | VInt64 int
  | VFloat64 gofloat
  | VBool bool
  | VTime int string
  | VOther string string
  | VRef string string

subsection \<open>Formatting\<close>

definition dec_digits :: "nat \<Rightarrow> string" where
  "dec_digits n = map hex_upper (digits_of 10 n)"

definition Itoa :: "int \<Rightarrow> string" where
  "Itoa i = (if i < 0 then CHR ''-'' # dec_digits (nat (- i)) else dec_digits (nat i))"

definition digit_at :: "nat list \<Rightarrow> int \<Rightarrow> char" where
  "digit_at ds i = (if 0 \<le> i \<and> i < int (length ds) then hex_upper (ds ! nat i) else CHR ''0'')"

text \<open>The \<^verbatim>\<open>%e\<close> form (\<^verbatim>\<open>d.ddde+XX\<close>) and the \<^verbatim>\<open>%f\<close> form of the shortest digits.\<close>

definition fmtE :: "nat list \<Rightarrow> int \<Rightarrow> string" where
  "fmtE ds dp =
     (let e = (if ds = [] then 0 else dp - 1); es = dec_digits (nat \<bar>e\<bar>) in
      digit_at ds 0 # (if length ds \<le> 1 then [] else CHR ''.'' # map hex_upper (tl ds)) @
      CHR ''e'' # (if e < 0 then CHR ''-'' else CHR ''+'') #
      (if length es < 2 then CHR ''0'' # es else es))"

definition fmtF :: "nat list \<Rightarrow> int \<Rightarrow> string" where
  "fmtF ds dp =
     (let prec = nat (int (length ds) - dp) in
      (if 0 < dp then map (\<lambda>i. digit_at ds (int i)) [0..<nat dp] else ''0'') @
      (if 0 < prec then CHR ''.'' # map (\<lambda>i. digit_at ds (dp + int i)) [0..<prec] else []))"

text \<open>\<^verbatim>\<open>strconv.FormatFloat(f, 'g', -1, 64)\<close>\<close>

definition FormatFloat :: "gofloat \<Rightarrow> string" where
  "FormatFloat f =
     (case f of
        FNaN \<Rightarrow> ''NaN''
      | FInf neg \<Rightarrow> if neg then ''-Inf'' else ''+Inf''
      | FFin neg ds dp \<Rightarrow>
          (if neg then ''-'' else []) @
          (if dp - 1 < - 4 \<or> 6 \<le> dp - 1 then fmtE ds dp else fmtF ds dp))"

definition FormatBool :: "bool \<Rightarrow> string" where
  "FormatBool b = (if b then ''true'' else ''false'')"

text \<open>\<^verbatim>\<open>fmt.Sprintf("%v", v)\<close>\<close>

fun Sprint_v :: "value \<Rightarrow> string" where
  "Sprint_v VNil = ''<nil>''"
| "Sprint_v (VString s) = s"
| "Sprint_v (VInt i) = Itoa i"
| "Sprint_v (VInt64 i) = Itoa i"
| "Sprint_v (VFloat64 f) = FormatFloat f"
| "Sprint_v (VBool b) = FormatBool b"
| "Sprint_v (VTime t s) = s"
| "Sprint_v (VOther t s) = s"
| "Sprint_v (VRef t s) = s"

lemma dec_digits_inj: "dec_digits n = dec_digits m \<Longrightarrow> n = m"
proof -
  assume eq: "dec_digits n = dec_digits m"
  have "digits_of 10 n = digits_of 10 m"
  proof (rule map_inj_on [of hex_upper])
    show "map hex_upper (digits_of 10 n) = map hex_upper (digits_of 10 m)"
      using eq by (simp add: dec_digits_def)
    have "d \<in> set (digits_of 10 n) \<union> set (digits_of 10 m) \<Longrightarrow> d < 16" for d
      using digits_of_bound [of 10 d n] digits_of_bound [of 10 d m] by auto
    then show "inj_on hex_upper (set (digits_of 10 n) \<union> set (digits_of 10 m))"
      by (meson hex_upper_inj inj_onI)
  qed
  then show ?thesis by (rule digits_of_inj)
qed

lemma dec_digits_minus: "CHR ''-'' \<notin> set (dec_digits n)"
proof
  assume "CHR ''-'' \<in> set (dec_digits n)"
  then obtain d where d: "d \<in> set (digits_of 10 n)" "hex_upper d = CHR ''-''"
    by (auto simp: dec_digits_def)
  then have "digit_value (CHR ''-'') = Some d"
    using digit_value_hex_upper [of d] digits_of_bound [of 10 d n] by simp
  then show False by (simp add: digit_value_def)
qed

lemma Itoa_inj: "Itoa i = Itoa j \<Longrightarrow> i = j"
proof -
  assume eq: "Itoa i = Itoa j"
  have "dec_digits n \<noteq> CHR ''-'' # xs" for n xs
    using dec_digits_minus [of n] by (metis list.set_intros(1))
  then have "dec_digits (nat \<bar>i\<bar>) = dec_digits (nat \<bar>j\<bar>)" and "i < 0 \<longleftrightarrow> j < 0"
    using eq by (auto simp: Itoa_def split: if_splits) metis+
  then show ?thesis using dec_digits_inj by fastforce
qed

subsection \<open>Comparison\<close>

definition float_eq :: "gofloat \<Rightarrow> gofloat \<Rightarrow> bool" where
  "float_eq a b =
     (case (a, b) of
        (FNaN, _) \<Rightarrow> False
      | (_, FNaN) \<Rightarrow> False
      | (FFin na da pa, FFin nb db pb) \<Rightarrow> (da = [] \<and> db = []) \<or> a = b
      | _ \<Rightarrow> a = b)"

text \<open>\<^verbatim>\<open>==\<close> on interface values: equal dynamic types and equal values; \<open>None\<close> is the panic of
  comparing two values of one uncomparable type.\<close>

fun any_eq :: "value \<Rightarrow> value \<Rightarrow> bool option" where
  "any_eq (VFloat64 a) (VFloat64 b) = Some (float_eq a b)"
| "any_eq (VTime t s) (VTime t' s') = Some (t = t' \<and> s = s')"
| "any_eq (VRef t s) (VRef t' s') = (if t = t' then None else Some False)"
| "any_eq v w = Some (v = w)"

end
