(* ===== verification/Positions.thy ===== *)
theory Positions
  imports Go_Values
begin

text \<open>
  Source positions.  \<^verbatim>\<open>laredo.Position\<close> is an alias of \<^verbatim>\<open>any\<close>; the constructors of
  \<open>position\<close> are the dynamic types the sources of the repository store in it: an LSN
  (PostgreSQL), a \<^verbatim>\<open>uint64\<close> (the in-memory test source), a string (archive and fan-out
  sources) and a pointer to a composite position (S3 and Kinesis).  The locale
  \<open>position_order\<close> is the contract \<^verbatim>\<open>SyncSource.ComparePositions\<close> promises to the
  ACK tracker and to the fan-out journal.
\<close>

datatype position =
    PosNil
  | PosLSN "64 word"
  | PosUint64 "64 word"
  | PosString string
  | PosKinesis string "(string \<times> string) list"

locale position_order =
  fixes cmp :: "position \<Rightarrow> position \<Rightarrow> int"
    and valid :: "position \<Rightarrow> bool"
  assumes not_nil: "\<not> valid PosNil"
    and cmp_refl: "valid a \<Longrightarrow> cmp a a = 0"
    and cmp_flip: "valid a \<Longrightarrow> valid b \<Longrightarrow> cmp a b < 0 \<longleftrightarrow> 0 < cmp b a"
    and cmp_trans: "valid a \<Longrightarrow> valid b \<Longrightarrow> valid c \<Longrightarrow> cmp a b \<le> 0 \<Longrightarrow> cmp b c \<le> 0 \<Longrightarrow> cmp a c \<le> 0"
begin

lemma cmp_total: "valid a \<Longrightarrow> valid b \<Longrightarrow> cmp a b \<le> 0 \<or> cmp b a \<le> 0"
  using cmp_flip by fastforce

lemma cmp_not_less: "valid a \<Longrightarrow> valid b \<Longrightarrow> \<not> cmp a b < 0 \<longleftrightarrow> cmp b a \<le> 0"
  using cmp_flip by fastforce

lemma cmp_pos: "valid a \<Longrightarrow> valid b \<Longrightarrow> 0 < cmp a b \<longleftrightarrow> cmp b a < 0"
  using cmp_flip by blast

lemma cmp_less_le_trans:
  assumes "valid a" "valid b" "valid c" "cmp a b < 0" "cmp b c \<le> 0"
  shows "cmp a c < 0"
proof (rule ccontr)
  assume "\<not> cmp a c < 0"
  then have "cmp c a \<le> 0" using assms(1,3) by (simp add: cmp_not_less)
  with assms have "cmp b a \<le> 0" using cmp_trans [of b c a] by simp
  moreover have "0 < cmp b a" using assms(1,2,4) cmp_flip by simp
  ultimately show False by simp
qed

lemma cmp_le_less_trans:
  assumes "valid a" "valid b" "valid c" "cmp a b \<le> 0" "cmp b c < 0"
  shows "cmp a c < 0"
proof (rule ccontr)
  assume "\<not> cmp a c < 0"
  then have "cmp c a \<le> 0" using assms(1,3) by (simp add: cmp_not_less)
  with assms have "cmp c b \<le> 0" using cmp_trans [of c a b] by simp
  moreover have "0 < cmp c b" using assms(2,3,5) cmp_flip by simp
  ultimately show False by simp
qed

lemma valid_not_nil: "valid a \<Longrightarrow> a \<noteq> PosNil"
  using not_nil by auto

end

end
