(* ===== verification/LSN.thy ===== *)
theory LSN
  imports Positions
begin

unbundle bit_operations_syntax

text \<open>
  PostgreSQL log sequence numbers: parsing, printing and comparison
  (\<^verbatim>\<open>internal/lsn/lsn.go\<close>, \<^verbatim>\<open>source/pg/lsn.go\<close>), and the position methods of the sources
  that use them.  An LSN is a \<^verbatim>\<open>uint64\<close>, a \<open>64 word\<close>; the text form is the two
  32-bit halves in hexadecimal.
\<close>

section \<open>internal/lsn\<close>

definition lsn_Parse :: "string \<Rightarrow> 64 word \<times> bool" where
  "lsn_Parse s =
     (case Cut s (CHR ''/'') of (hi, lo, ok) \<Rightarrow>
        if \<not> ok \<or> hi = [] \<or> lo = [] then (0, False)
        else case ParseUint hi 16 32 of
               Inl _ \<Rightarrow> (0, False)
             | Inr high \<Rightarrow>
                 (case ParseUint lo 16 32 of
                    Inl _ \<Rightarrow> (0, False)
                  | Inr low \<Rightarrow> (push_bit 32 (of_nat high) OR of_nat low, True)))"

definition lsn_Compare :: "string \<Rightarrow> string \<Rightarrow> int" where
  "lsn_Compare a b =
     (case lsn_Parse a of (la, aok) \<Rightarrow>
      case lsn_Parse b of (lb, bok) \<Rightarrow>
        if \<not> aok \<and> \<not> bok then 0
        else if \<not> aok then - 1
        else if \<not> bok then 1
        else if la < lb then - 1
        else if lb < la then 1
        else 0)"

section \<open>source/pg\<close>

datatype lsn_error = LSN_Format | LSN_BadHigh num_error | LSN_BadLow num_error

definition ParseLSN :: "string \<Rightarrow> lsn_error + 64 word" where
  "ParseLSN s =
     (case Cut s (CHR ''/'') of (hi, lo, ok) \<Rightarrow>
        if \<not> ok \<or> hi = [] \<or> lo = [] then Inl LSN_Format
        else case ParseUint hi 16 32 of
               Inl e \<Rightarrow> Inl (LSN_BadHigh e)
             | Inr high \<Rightarrow>
                 (case ParseUint lo 16 32 of
                    Inl e \<Rightarrow> Inl (LSN_BadLow e)
                  | Inr low \<Rightarrow> Inr (push_bit 32 (of_nat high) OR of_nat low)))"

text \<open>\<^verbatim>\<open>fmt.Sprintf("%X/%08X", uint32(l>>32), uint32(l))\<close>\<close>

definition hex_digits :: "nat \<Rightarrow> string" where
  "hex_digits n = map hex_upper (digits_of 16 n)"

definition hex_digits08 :: "nat \<Rightarrow> string" where
  "hex_digits08 n = (let s = hex_digits n in replicate (8 - length s) (CHR ''0'') @ s)"

definition LSN_String :: "64 word \<Rightarrow> string" where
  "LSN_String l =
     hex_digits (unat (ucast (drop_bit 32 l) :: 32 word)) @ CHR ''/'' #
     hex_digits08 (unat (ucast l :: 32 word))"

definition CompareLSN :: "position \<Rightarrow> position \<Rightarrow> int" where
  "CompareLSN a b =
     (case a of
        PosLSN la \<Rightarrow>
          (case b of
             PosLSN lb \<Rightarrow> if la < lb then - 1 else if lb < la then 1 else 0
           | _ \<Rightarrow> 0)
      | _ \<Rightarrow> 0)"

definition pg_PositionFromString :: "string \<Rightarrow> lsn_error + position" where
  "pg_PositionFromString str = (case ParseLSN str of Inl e \<Rightarrow> Inl e | Inr l \<Rightarrow> Inr (PosLSN l))"

text \<open>Archive and fan-out sources keep positions as strings and compare them with a configured
  comparator, \<open>lsn_Compare\<close> by default.  A position that is not a string reads as the
  empty string.\<close>

fun as_string :: "position \<Rightarrow> string" where
  "as_string (PosString s) = s"
| "as_string _ = []"

definition string_ComparePositions :: "(string \<Rightarrow> string \<Rightarrow> int) \<Rightarrow> position \<Rightarrow> position \<Rightarrow> int" where
  "string_ComparePositions cmp a b = cmp (as_string a) (as_string b)"

definition kinesis_ComparePositions :: "position \<Rightarrow> position \<Rightarrow> int" where
  "kinesis_ComparePositions a b = 0"

section \<open>Printing and parsing\<close>

lemma hex_digits_nonempty [simp]: "hex_digits n \<noteq> []"
  by (simp add: hex_digits_def)

lemma hex_digits_no_slash [simp]: "CHR ''/'' \<notin> set (hex_digits n)"
proof
  assume "CHR ''/'' \<in> set (hex_digits n)"
  then obtain d where "d \<in> set (digits_of 16 n)" and "CHR ''/'' = hex_upper d"
    by (auto simp: hex_digits_def)
  then show False using hex_upper_not_slash [of d] digits_of_bound [of 16 d n] by simp
qed

lemma hex_digits08_nonempty [simp]: "hex_digits08 n \<noteq> []"
  by (simp add: hex_digits08_def Let_def)

lemma hex_upper_0: "hex_upper 0 = CHR ''0''"
  by code_simp

lemma hex_digits08_map:
  "hex_digits08 n = map hex_upper (replicate (8 - length (digits_of 16 n)) 0 @ digits_of 16 n)"
  by (simp add: hex_digits08_def hex_digits_def Let_def hex_upper_0)

lemma ParseUint_map_hex:
  assumes "ds \<noteq> []" and "\<forall>d \<in> set ds. d < 16" and "of_digits 16 ds < 2 ^ 32"
  shows "ParseUint (map hex_upper ds) 16 32 = Inr (of_digits 16 ds)"
proof -
  have "of_digits 16 ds \<le> 2 ^ 32 - 1" using assms(3) by simp
  then have "ParseUint_loop 16 (2 ^ 32 - 1) 0 (map hex_upper ds) = Inr (of_digits 16 ds)"
    using ParseUint_loop_digits [OF assms(2), of 0 "2 ^ 32 - 1"]
    unfolding of_digits_def by simp
  with assms(1) show ?thesis by (simp add: ParseUint_def)
qed

lemma ParseUint_hex_digits: "n < 2 ^ 32 \<Longrightarrow> ParseUint (hex_digits n) 16 32 = Inr n"
  using ParseUint_map_hex [of "digits_of 16 n"] digits_of_bound [of 16 _ n]
  by (simp add: hex_digits_def)

lemma ParseUint_hex_digits08: "n < 2 ^ 32 \<Longrightarrow> ParseUint (hex_digits08 n) 16 32 = Inr n"
proof -
  assume n: "n < 2 ^ 32"
  let ?ds = "replicate (8 - length (digits_of 16 n)) 0 @ digits_of 16 n"
  have "\<forall>d \<in> set ?ds. d < 16" using digits_of_bound [of 16 _ n] by auto
  with n have "ParseUint (map hex_upper ?ds) 16 32 = Inr n"
    using ParseUint_map_hex [of ?ds] by simp
  then show ?thesis by (simp only: hex_digits08_map)
qed

lemma unat_ucast32_bound: "unat (ucast (w :: 64 word) :: 32 word) < 2 ^ 32"
  using unsigned_less [of "ucast w :: 32 word"] by simp

lemma word_halves:
  "push_bit 32 (ucast (ucast (drop_bit 32 l) :: 32 word)) OR ucast (ucast l :: 32 word) = (l :: 64 word)"
  by (rule bit_word_eqI) (auto simp: bit_simps)

lemma ParseLSN_LSN_String: "ParseLSN (LSN_String l) = Inr l"
  by (simp add: ParseLSN_def LSN_String_def ParseUint_hex_digits [OF unat_ucast32_bound]
      ParseUint_hex_digits08 [OF unat_ucast32_bound] word_halves)

lemma lsn_Parse_ParseLSN: "lsn_Parse s = (case ParseLSN s of Inl _ \<Rightarrow> (0, False) | Inr l \<Rightarrow> (l, True))"
  by (simp add: lsn_Parse_def ParseLSN_def split: prod.splits sum.splits)

section \<open>The comparators are orders\<close>

interpretation pg_order: position_order CompareLSN "\<lambda>p. \<exists>l. p = PosLSN l"
  by unfold_locales (auto simp: CompareLSN_def split: if_splits)

lemma lsn_Compare_refl: "lsn_Compare a a = 0"
  by (simp add: lsn_Compare_def split: prod.split)

lemma lsn_Compare_flip: "lsn_Compare a b < 0 \<longleftrightarrow> 0 < lsn_Compare b a"
  by (auto simp: lsn_Compare_def split: prod.splits if_splits)

lemma lsn_Compare_trans: "lsn_Compare a b \<le> 0 \<Longrightarrow> lsn_Compare b c \<le> 0 \<Longrightarrow> lsn_Compare a c \<le> 0"
  by (auto simp: lsn_Compare_def split: prod.splits if_splits)

interpretation string_order: position_order "string_ComparePositions lsn_Compare" "\<lambda>p. \<exists>s. p = PosString s"
  by unfold_locales
    (auto simp: string_ComparePositions_def lsn_Compare_refl lsn_Compare_flip intro: lsn_Compare_trans)

section \<open>Properties\<close>

text \<open>C26: Printing an LSN and parsing the text gives the LSN back, for every 64-bit value: the
  canonical text form loses nothing.\<close>
theorem LSN_roundtrip: "pg_PositionFromString (LSN_String l) = Inr (PosLSN l)"
  by (simp add: pg_PositionFromString_def ParseLSN_LSN_String)

text \<open>C27: The string comparator used by the archive and fan-out sources agrees on printed LSNs with
  the comparator of the PostgreSQL source, so a position keeps its place in the order when it
  travels as text.\<close>
theorem lsn_Compare_String: "lsn_Compare (LSN_String a) (LSN_String b) = CompareLSN (PosLSN a) (PosLSN b)"
  by (simp add: lsn_Compare_def CompareLSN_def lsn_Parse_ParseLSN ParseLSN_LSN_String)

end
