(* ===== verification/Ack_Tracker.thy ===== *)
theory Ack_Tracker
  imports LSN
begin

text \<open>
  ACK coordination across the pipelines of a source (\<^verbatim>\<open>internal/engine/ack.go\<close>).  The mutex
  makes every method atomic, so each is one state transformer.  Loops over
  \<open>pipelineSource\<close> take the runtime's iteration order as an argument.
\<close>

section \<open>State and operations\<close>

record AckTracker =
  pipelineSource :: "string \<rightharpoonup> string"
  positions :: "string \<rightharpoonup> position"
  lastAcked :: "string \<rightharpoonup> position"
  comparators :: "string \<rightharpoonup> (position \<Rightarrow> position \<Rightarrow> int)"
  skipped :: "string \<rightharpoonup> bool"

definition NewAckTracker :: AckTracker where
  "NewAckTracker = \<lparr>pipelineSource = Map.empty, positions = Map.empty, lastAcked = Map.empty,
     comparators = Map.empty, skipped = Map.empty\<rparr>"

definition RegisterPipeline ::
    "AckTracker \<Rightarrow> string \<Rightarrow> string \<Rightarrow> (position \<Rightarrow> position \<Rightarrow> int) option \<Rightarrow> AckTracker" where
  "RegisterPipeline a pipelineID sourceID compare =
     a\<lparr>pipelineSource := (pipelineSource a)(pipelineID \<mapsto> sourceID),
       comparators := (comparators a)(sourceID := compare)\<rparr>"

definition Confirm :: "AckTracker \<Rightarrow> string \<Rightarrow> position \<Rightarrow> AckTracker" where
  "Confirm a pipelineID pos = a\<lparr>positions := (positions a)(pipelineID \<mapsto> pos)\<rparr>"

definition confirmMax ::
    "(position \<Rightarrow> position \<Rightarrow> int) option \<Rightarrow> position \<Rightarrow> position option \<Rightarrow> position option" where
  "confirmMax compare pos cur =
     (case cur of
        None \<Rightarrow> Some pos
      | Some c \<Rightarrow>
          (case compare of
             None \<Rightarrow> Some pos
           | Some f \<Rightarrow> if 0 < f pos c then Some pos else Some c))"

fun confirmLoop ::
    "AckTracker \<Rightarrow> string \<Rightarrow> position \<Rightarrow> string list \<Rightarrow> (string \<rightharpoonup> position) \<Rightarrow> (string \<rightharpoonup> position)" where
  "confirmLoop a sourceID pos [] ps = ps"
| "confirmLoop a sourceID pos (pid # pids) ps =
     (if pipelineSource a pid \<noteq> Some sourceID then confirmLoop a sourceID pos pids ps
      else confirmLoop a sourceID pos pids
             (ps(pid := confirmMax (comparators a sourceID) pos (ps pid))))"

definition ConfirmAll :: "AckTracker \<Rightarrow> string \<Rightarrow> position \<Rightarrow> string list \<Rightarrow> AckTracker" where
  "ConfirmAll a sourceID pos order =
     a\<lparr>positions := confirmLoop a sourceID pos order (positions a)\<rparr>"

definition Skip :: "AckTracker \<Rightarrow> string \<Rightarrow> AckTracker" where
  "Skip a pipelineID = a\<lparr>skipped := (skipped a)(pipelineID \<mapsto> True)\<rparr>"

definition is_skipped :: "AckTracker \<Rightarrow> string \<Rightarrow> bool" where
  "is_skipped a pid \<longleftrightarrow> skipped a pid = Some True"

definition LastAcked :: "AckTracker \<Rightarrow> string \<Rightarrow> position" where
  "LastAcked a sourceID = (case lastAcked a sourceID of None \<Rightarrow> PosNil | Some p \<Rightarrow> p)"

text \<open>The loop of \<^verbatim>\<open>AckPosition\<close>; \<open>None\<close> is its early return.\<close>

fun ackMin ::
    "AckTracker \<Rightarrow> string \<Rightarrow> (position \<Rightarrow> position \<Rightarrow> int) \<Rightarrow> position \<Rightarrow> string list \<Rightarrow> position option" where
  "ackMin a sourceID compare minPos [] = Some minPos"
| "ackMin a sourceID compare minPos (pid # pids) =
     (if pipelineSource a pid \<noteq> Some sourceID \<or> is_skipped a pid
      then ackMin a sourceID compare minPos pids
      else case positions a pid of
             None \<Rightarrow> None
           | Some pos \<Rightarrow>
               ackMin a sourceID compare
                 (if minPos = PosNil \<or> compare pos minPos < 0 then pos else minPos) pids)"

definition AckPosition :: "AckTracker \<Rightarrow> string \<Rightarrow> string list \<Rightarrow> (position \<times> bool) \<times> AckTracker" where
  "AckPosition a sourceID order =
     (case comparators a sourceID of
        None \<Rightarrow> ((PosNil, False), a)
      | Some compare \<Rightarrow>
          (case ackMin a sourceID compare PosNil order of
             None \<Rightarrow> ((PosNil, False), a)
           | Some minPos \<Rightarrow>
               if minPos = PosNil then ((PosNil, False), a)
               else if LastAcked a sourceID \<noteq> PosNil \<and> compare minPos (LastAcked a sourceID) \<le> 0
               then ((minPos, False), a)
               else ((minPos, True), a\<lparr>lastAcked := (lastAcked a)(sourceID \<mapsto> minPos)\<rparr>)))"

lemmas ack_ops [laredo_defs] =
  NewAckTracker_def RegisterPipeline_def Confirm_def ConfirmAll_def Skip_def AckPosition_def

section \<open>Which pipelines hold an ACK back\<close>

definition ack_active :: "AckTracker \<Rightarrow> string \<Rightarrow> string \<Rightarrow> bool" where
  "ack_active a sourceID pid \<longleftrightarrow> pipelineSource a pid = Some sourceID \<and> \<not> is_skipped a pid"

definition ack_valid :: "(position \<Rightarrow> bool) \<Rightarrow> AckTracker \<Rightarrow> string \<Rightarrow> bool" where
  "ack_valid valid a sourceID \<longleftrightarrow>
     (\<forall>pid p. pipelineSource a pid = Some sourceID \<longrightarrow> positions a pid = Some p \<longrightarrow> valid p)"

lemma confirmLoop_other: "pid \<notin> set pids \<Longrightarrow> confirmLoop a sid pos pids ps pid = ps pid"
  by (induction pids arbitrary: ps) auto

lemma confirmLoop_lookup:
  "distinct pids \<Longrightarrow> confirmLoop a sid pos pids ps pid =
     (if pid \<in> set pids \<and> pipelineSource a pid = Some sid
      then confirmMax (comparators a sid) pos (ps pid) else ps pid)"
  by (induction pids arbitrary: ps) (auto simp: confirmLoop_other)

lemma ConfirmAll_lookup:
  "iter_order order (pipelineSource a) \<Longrightarrow> positions (ConfirmAll a sid pos order) pid =
     (if pipelineSource a pid = Some sid then confirmMax (comparators a sid) pos (positions a pid)
      else positions a pid)"
  by (auto simp: ConfirmAll_def confirmLoop_lookup iter_order_distinct)

lemma confirmMax_cases: "confirmMax c pos cur = Some pos \<or> confirmMax c pos cur = cur"
  by (auto simp: confirmMax_def split: option.split)

lemma AckPosition_frame [frame_simps]:
  assumes "AckPosition a sid order = (r, a')"
  shows "pipelineSource a' = pipelineSource a" "positions a' = positions a"
    "comparators a' = comparators a" "skipped a' = skipped a"
  using assms by (auto simp: AckPosition_def split: option.splits if_splits)

lemma ackMin_Some_confirmed:
  "ackMin a sid cmp m pids = Some r \<Longrightarrow> pid \<in> set pids \<Longrightarrow> ack_active a sid pid \<Longrightarrow>
   \<exists>q. positions a pid = Some q"
  by (induction pids arbitrary: m) (auto simp: ack_active_def split: if_splits option.splits)

lemma ackMin_attained:
  "ackMin a sid cmp m pids = Some r \<Longrightarrow>
   r = m \<or> (\<exists>pid \<in> set pids. ack_active a sid pid \<and> positions a pid = Some r)"
proof (induction pids arbitrary: m)
  case Nil
  then show ?case by simp
next
  case (Cons pid pids)
  show ?case
  proof (cases "ack_active a sid pid")
    case True
    with Cons.prems obtain pos where pos: "positions a pid = Some pos"
      and rest: "ackMin a sid cmp (if m = PosNil \<or> cmp pos m < 0 then pos else m) pids = Some r"
      by (auto simp: ack_active_def split: option.splits)
    from Cons.IH [OF rest] True pos show ?thesis by (auto split: if_splits)
  next
    case False
    with Cons show ?thesis by (auto simp: ack_active_def split: if_splits)
  qed
qed

lemma ackMin_None_iff:
  "ackMin a sid cmp m pids = None \<longleftrightarrow>
   (\<exists>pid \<in> set pids. ack_active a sid pid \<and> positions a pid = None)"
  by (induction pids arbitrary: m) (auto simp: ack_active_def split: option.split)

context position_order
begin

lemma ackMin_lower:
  assumes "ackMin a sid cmp m pids = Some r" and "m = PosNil \<or> valid m" and val: "ack_valid valid a sid"
  shows "(m \<noteq> PosNil \<longrightarrow> valid r \<and> cmp r m \<le> 0) \<and>
    (\<forall>pid \<in> set pids. ack_active a sid pid \<longrightarrow>
       (\<exists>q. positions a pid = Some q \<and> valid q \<and> valid r \<and> cmp r q \<le> 0))"
  using assms(1,2)
proof (induction pids arbitrary: m)
  case Nil
  then show ?case by (auto simp: cmp_refl)
next
  case (Cons pid pids)
  show ?case
  proof (cases "ack_active a sid pid")
    case False
    with Cons show ?thesis by (auto simp: ack_active_def split: if_splits)
  next
    case True
    with Cons.prems(1) obtain pos where pos: "positions a pid = Some pos"
      and rest: "ackMin a sid cmp (if m = PosNil \<or> cmp pos m < 0 then pos else m) pids = Some r"
      by (auto simp: ack_active_def split: option.splits)
    let ?m = "if m = PosNil \<or> cmp pos m < 0 then pos else m"
    have vp: "valid pos" using val True pos by (auto simp: ack_valid_def ack_active_def)
    have vm: "valid ?m" using vp Cons.prems(2) by auto
    then have "?m \<noteq> PosNil" by (rule valid_not_nil)
    with Cons.IH [OF rest] vm
    have r: "valid r" "cmp r ?m \<le> 0"
      and others: "\<forall>pid \<in> set pids. ack_active a sid pid \<longrightarrow>
        (\<exists>q. positions a pid = Some q \<and> valid q \<and> valid r \<and> cmp r q \<le> 0)"
      by auto
    have "cmp ?m pos \<le> 0" using vp vm Cons.prems(2) by (auto simp: cmp_refl cmp_not_less)
    with r vm vp have "cmp r pos \<le> 0" using cmp_trans by blast
    moreover have "m \<noteq> PosNil \<longrightarrow> cmp r m \<le> 0"
    proof
      assume "m \<noteq> PosNil"
      with Cons.prems(2) have "valid m" by simp
      moreover have "cmp ?m m \<le> 0" using \<open>valid m\<close> not_nil by (auto simp: cmp_refl)
      ultimately show "cmp r m \<le> 0" using r vm cmp_trans by blast
    qed
    ultimately show ?thesis using others r(1) pos vp by auto
  qed
qed

lemma AckPosition_lower:
  assumes "comparators a sid = Some cmp" and "iter_order order (pipelineSource a)"
    and "ack_valid valid a sid"
    and "AckPosition a sid order = ((p, adv), a')" and "p \<noteq> PosNil"
  shows "\<forall>pid. ack_active a sid pid \<longrightarrow> (\<exists>q. positions a pid = Some q \<and> cmp p q \<le> 0)"
    and "\<exists>pid. ack_active a sid pid \<and> positions a pid = Some p"
    and "valid p"
proof -
  have min: "ackMin a sid cmp PosNil order = Some p"
    using assms(1,4,5) by (auto simp: AckPosition_def split: option.splits if_splits)
  have low: "\<forall>pid \<in> set order. ack_active a sid pid \<longrightarrow>
      (\<exists>q. positions a pid = Some q \<and> valid q \<and> valid p \<and> cmp p q \<le> 0)"
    using ackMin_lower [OF min] assms(3) by blast
  then show "\<forall>pid. ack_active a sid pid \<longrightarrow> (\<exists>q. positions a pid = Some q \<and> cmp p q \<le> 0)"
    using assms(2) by (auto simp: ack_active_def)
  show att: "\<exists>pid. ack_active a sid pid \<and> positions a pid = Some p"
    using ackMin_attained [OF min] assms(5) by auto
  then show "valid p" using assms(3) by (auto simp: ack_valid_def ack_active_def)
qed

lemma AckPosition_advances:
  assumes "comparators a sid = Some cmp" and "iter_order order (pipelineSource a)"
    and "ack_valid valid a sid"
    and "AckPosition a sid order = ((p, True), a')" and "lastAcked a sid = Some q" and "valid q"
  shows "cmp q p < 0 \<and> lastAcked a' sid = Some p"
proof -
  have p: "p \<noteq> PosNil" "\<not> cmp p q \<le> 0" "lastAcked a' sid = Some p"
    using assms(1,4,5) valid_not_nil [OF assms(6)]
    by (auto simp: AckPosition_def LastAcked_def split: option.splits if_splits)
  moreover have "valid p" using AckPosition_lower(3) assms p(1) by blast
  ultimately show ?thesis using assms(6) cmp_pos by fastforce
qed

lemma ackMin_nil_iff:
  assumes "ackMin a sid cmp PosNil pids = Some r" and "ack_valid valid a sid"
  shows "r = PosNil \<longleftrightarrow> (\<forall>pid \<in> set pids. \<not> ack_active a sid pid)"
proof
  assume "r = PosNil"
  have "\<forall>pid \<in> set pids. ack_active a sid pid \<longrightarrow>
      (\<exists>q. positions a pid = Some q \<and> valid q \<and> valid r \<and> cmp r q \<le> 0)"
    using ackMin_lower [OF assms(1) _ assms(2)] by blast
  with \<open>r = PosNil\<close> not_nil show "\<forall>pid \<in> set pids. \<not> ack_active a sid pid" by blast
next
  assume "\<forall>pid \<in> set pids. \<not> ack_active a sid pid"
  with ackMin_attained [OF assms(1)] show "r = PosNil" by blast
qed

lemma AckPosition_order_indep:
  assumes cmp: "comparators a sid = Some cmp" and val: "ack_valid valid a sid"
    and last: "\<forall>p. lastAcked a sid = Some p \<longrightarrow> valid p"
    and ords: "iter_order o1 (pipelineSource a)" "iter_order o2 (pipelineSource a)"
    and r1: "AckPosition a sid o1 = ((p1, adv1), a1)" and r2: "AckPosition a sid o2 = ((p2, adv2), a2)"
  shows "(p1 = PosNil \<longleftrightarrow> p2 = PosNil) \<and> adv1 = adv2 \<and> (p1 \<noteq> PosNil \<longrightarrow> cmp p1 p2 = 0)"
proof -
  have sets: "set o1 = set o2" using ords by (simp add: iter_order_set)
  have none: "ackMin a sid cmp PosNil o1 = None \<longleftrightarrow> ackMin a sid cmp PosNil o2 = None"
    by (simp add: ackMin_None_iff sets)
  have nil: "ackMin a sid cmp PosNil o1 = Some PosNil \<longleftrightarrow> ackMin a sid cmp PosNil o2 = Some PosNil"
    using ackMin_nil_iff [OF _ val] none sets by (metis not_Some_eq)
  have pnil: "p1 = PosNil \<longleftrightarrow> p2 = PosNil"
    using r1 r2 none nil cmp by (auto simp: AckPosition_def split: option.splits if_splits)
  show ?thesis
  proof (cases "p1 = PosNil")
    case True
    then have "p2 = PosNil" using pnil by simp
    with True have "\<not> adv1" "\<not> adv2"
      using r1 r2 cmp by (auto simp: AckPosition_def split: option.splits if_splits)
    with True pnil show ?thesis by simp
  next
    case False
    then have False2: "p2 \<noteq> PosNil" using pnil by simp
    note low1 = AckPosition_lower [OF cmp ords(1) val r1 False]
      and low2 = AckPosition_lower [OF cmp ords(2) val r2 False2]
    have le: "cmp p1 p2 \<le> 0" "cmp p2 p1 \<le> 0" using low1 low2 by fastforce+
    then have eq: "cmp p1 p2 = 0"
      using low1(3) low2(3) cmp_flip [of p1 p2] cmp_pos [of p1 p2] by linarith
    have adv: "adv1 \<longleftrightarrow> \<not> (LastAcked a sid \<noteq> PosNil \<and> cmp p1 (LastAcked a sid) \<le> 0)"
        "adv2 \<longleftrightarrow> \<not> (LastAcked a sid \<noteq> PosNil \<and> cmp p2 (LastAcked a sid) \<le> 0)"
      using r1 r2 cmp False False2 by (auto simp: AckPosition_def split: option.splits if_splits)
    have "LastAcked a sid \<noteq> PosNil \<Longrightarrow> valid (LastAcked a sid)"
      using last by (auto simp: LastAcked_def split: option.splits)
    then have "adv1 = adv2" using adv le low1(3) low2(3) cmp_trans by blast
    with False False2 eq show ?thesis by simp
  qed
qed

end

section \<open>Runs of the tracker\<close>

text \<open>
  \<open>ack_step cmp valid sid\<close> is one call on the tracker as the engine makes it: the source
  \<open>sid\<close> keeps the comparator \<open>cmp\<close>, a pipeline is registered before it confirms
  anything, and the positions confirmed for the pipelines of \<open>sid\<close> are positions of that
  source.  Calls for other sources and pipelines are not constrained.
\<close>

inductive ack_step ::
    "(position \<Rightarrow> position \<Rightarrow> int) \<Rightarrow> (position \<Rightarrow> bool) \<Rightarrow> string \<Rightarrow> AckTracker \<Rightarrow> AckTracker \<Rightarrow> bool"
  for cmp valid sid where
  register: "positions a pid = None \<Longrightarrow> (s = sid \<Longrightarrow> c = Some cmp) \<Longrightarrow>
     ack_step cmp valid sid a (RegisterPipeline a pid s c)"
| confirm: "(pipelineSource a pid = Some sid \<Longrightarrow> valid p) \<Longrightarrow>
     ack_step cmp valid sid a (Confirm a pid p)"
| confirm_all: "(s = sid \<Longrightarrow> valid p) \<Longrightarrow> iter_order order (pipelineSource a) \<Longrightarrow>
     ack_step cmp valid sid a (ConfirmAll a s p order)"
| skip: "ack_step cmp valid sid a (Skip a pid)"
| ack: "iter_order order (pipelineSource a) \<Longrightarrow> AckPosition a s order = (r, a') \<Longrightarrow>
     ack_step cmp valid sid a a'"

definition ack_inv :: "(position \<Rightarrow> position \<Rightarrow> int) \<Rightarrow> (position \<Rightarrow> bool) \<Rightarrow> string \<Rightarrow> AckTracker \<Rightarrow> bool" where
  "ack_inv cmp valid sid a \<longleftrightarrow>
     comparators a sid = Some cmp \<and> ack_valid valid a sid \<and> (\<forall>p. lastAcked a sid = Some p \<longrightarrow> valid p)"

context position_order
begin

lemma AckPosition_lastAcked:
  assumes inv: "ack_inv cmp valid sid a" and "iter_order order (pipelineSource a)"
    and r: "AckPosition a s order = ((p, adv), a')"
  shows "lastAcked a' sid = lastAcked a sid \<or>
    (valid p \<and> lastAcked a' sid = Some p \<and> (\<forall>q. lastAcked a sid = Some q \<longrightarrow> cmp q p < 0))"
proof (cases "s = sid \<and> adv")
  case True
  then have r': "AckPosition a sid order = ((p, True), a')" using r by simp
  have c: "comparators a sid = Some cmp" and v: "ack_valid valid a sid"
    using inv by (simp_all add: ack_inv_def)
  have nn: "p \<noteq> PosNil" and la: "lastAcked a' sid = Some p"
    using r' c by (auto simp: AckPosition_def split: option.splits if_splits)
  show ?thesis
    using AckPosition_lower(3) [OF c assms(2) v r' nn] AckPosition_advances [OF c assms(2) v r'] la inv
    by (auto simp: ack_inv_def)
next
  case False
  then show ?thesis using r by (auto simp: AckPosition_def split: option.splits if_splits)
qed

lemma ack_step_inv: "ack_step cmp valid sid a a' \<Longrightarrow> ack_inv cmp valid sid a \<Longrightarrow> ack_inv cmp valid sid a'"
proof (induction rule: ack_step.induct)
  case (register a pid s c)
  then show ?case by (auto simp: RegisterPipeline_def ack_inv_def ack_valid_def)
next
  case (confirm a pid p)
  then show ?case by (auto simp: Confirm_def ack_inv_def ack_valid_def)
next
  case (confirm_all s p order a)
  have "positions (ConfirmAll a s p order) pid = Some q \<Longrightarrow> pipelineSource a pid = Some sid \<Longrightarrow> valid q" for pid q
    using confirm_all confirmMax_cases [of "comparators a s" p "positions a pid"]
    by (auto simp: ConfirmAll_lookup ack_inv_def ack_valid_def split: if_splits)
  with confirm_all.prems show ?case
    by (auto simp: ack_inv_def ack_valid_def) (auto simp: ConfirmAll_def)
next
  case (skip a pid)
  then show ?case by (auto simp: Skip_def ack_inv_def ack_valid_def)
next
  case (ack order a s r a')
  obtain p adv where r: "r = (p, adv)" by fastforce
  with ack AckPosition_lastAcked [of sid a order s p adv a'] show ?case
    by (auto simp: ack_inv_def ack_valid_def AckPosition_frame)
qed

lemma ack_step_mono:
  "ack_step cmp valid sid a a' \<Longrightarrow> ack_inv cmp valid sid a \<Longrightarrow> lastAcked a sid = Some p \<Longrightarrow>
   \<exists>q. lastAcked a' sid = Some q \<and> cmp p q \<le> 0"
proof (induction rule: ack_step.induct)
  case (ack order a s r a')
  obtain q adv where r: "r = (q, adv)" by fastforce
  with ack AckPosition_lastAcked [of sid a order s q adv a'] show ?case
    by (fastforce simp: ack_inv_def cmp_refl)
qed (auto simp: ack_ops ack_inv_def cmp_refl)

lemma ack_run_mono:
  assumes "(ack_step cmp valid sid)\<^sup>*\<^sup>* a a'" and "ack_inv cmp valid sid a" and "lastAcked a sid = Some p"
  shows "ack_inv cmp valid sid a' \<and> (\<exists>q. lastAcked a' sid = Some q \<and> cmp p q \<le> 0)"
  using assms
proof (induction rule: rtranclp_induct)
  case base
  then show ?case by (auto simp: ack_inv_def cmp_refl)
next
  case (step b c)
  then obtain q where q: "lastAcked b sid = Some q" "cmp p q \<le> 0" and inv: "ack_inv cmp valid sid b"
    by blast
  with step.hyps(2) obtain q' where q': "lastAcked c sid = Some q'" "cmp q q' \<le> 0"
    using ack_step_mono by blast
  have inv': "ack_inv cmp valid sid c" using step.hyps(2) inv by (rule ack_step_inv)
  have "valid p" "valid q" "valid q'" using step.prems q q' inv inv' by (auto simp: ack_inv_def)
  with q q' have "cmp p q' \<le> 0" using cmp_trans by blast
  with q' inv' show ?case by blast
qed

end

section \<open>Properties\<close>

text \<open>Two PostgreSQL pipelines that have confirmed different positions.\<close>

definition ack_example :: AckTracker where
  "ack_example =
     Confirm (Confirm (RegisterPipeline (RegisterPipeline NewAckTracker ''a'' ''pg'' (Some CompareLSN))
       ''b'' ''pg'' (Some CompareLSN)) ''a'' (PosLSN 10)) ''b'' (PosLSN 7)"

lemma ack_example_simps [simp]:
  "pipelineSource ack_example = [''a'' \<mapsto> ''pg'', ''b'' \<mapsto> ''pg'']"
  "positions ack_example = [''a'' \<mapsto> PosLSN 10, ''b'' \<mapsto> PosLSN 7]"
  "comparators ack_example ''pg'' = Some CompareLSN"
  "lastAcked ack_example = Map.empty"
  "is_skipped ack_example pid = False"
  by (simp_all add: ack_example_def ack_ops is_skipped_def)

lemma ack_example_order: "iter_order [''a'', ''b''] (pipelineSource ack_example)"
  "iter_order [''b'', ''a''] (pipelineSource ack_example)"
  by (auto simp: iter_order_def)

lemma ack_example_valid: "ack_valid (\<lambda>p. \<exists>l. p = PosLSN l) ack_example ''pg''"
  by (auto simp: ack_valid_def split: if_splits)

lemma ack_example_AckPosition:
  "AckPosition ack_example ''pg'' [''a'', ''b''] =
     ((PosLSN 7, True), ack_example\<lparr>lastAcked := [''pg'' \<mapsto> PosLSN 7]\<rparr>)"
  "AckPosition ack_example ''pg'' [''b'', ''a''] =
     ((PosLSN 7, True), ack_example\<lparr>lastAcked := [''pg'' \<mapsto> PosLSN 7]\<rparr>)"
  by (simp_all add: AckPosition_def CompareLSN_def LastAcked_def)

text \<open>C1: A position the tracker hands out for acknowledgement is a lower bound of what is durable:
  every pipeline of the source that is not skipped has confirmed a position at or beyond it,
  whatever order the runtime visits the pipelines in.\<close>
theorem AckPosition_safe:
  assumes "position_order cmp valid" and "comparators a sid = Some cmp"
    and "iter_order order (pipelineSource a)" and "ack_valid valid a sid"
    and "AckPosition a sid order = ((p, adv), a')" and "p \<noteq> PosNil"
    and "pipelineSource a pid = Some sid" and "\<not> is_skipped a pid"
  shows "\<exists>q. positions a pid = Some q \<and> cmp p q \<le> 0"
  using position_order.AckPosition_lower(1) [OF assms(1-6)] assms(7,8)
  by (simp add: ack_active_def)

theorem AckPosition_safe_witness:
  "fst (AckPosition ack_example ''pg'' [''a'', ''b'']) = (PosLSN 7, True) \<and>
   (\<exists>q. positions ack_example ''a'' = Some q \<and> CompareLSN (PosLSN 7) q \<le> 0)"
  using AckPosition_safe [OF pg_order.position_order_axioms _ ack_example_order(1) ack_example_valid
      ack_example_AckPosition(1), where pid = "''a''"] ack_example_AckPosition(1)
  by simp



text \<open>The order in which Go visits the map of pipelines does not matter: two orders agree on
  whether there is a position, on whether it advances, and give positions the source considers
  equal.\<close>
theorem AckPosition_iteration_order:
  assumes "position_order cmp valid" and "comparators a sid = Some cmp" and "ack_valid valid a sid"
    and "\<forall>p. lastAcked a sid = Some p \<longrightarrow> valid p"
    and "iter_order o1 (pipelineSource a)" and "iter_order o2 (pipelineSource a)"
    and "AckPosition a sid o1 = ((p1, adv1), a1)" and "AckPosition a sid o2 = ((p2, adv2), a2)"
  shows "(p1 = PosNil \<longleftrightarrow> p2 = PosNil) \<and> adv1 = adv2 \<and> (p1 \<noteq> PosNil \<longrightarrow> cmp p1 p2 = 0)"
  using position_order.AckPosition_order_indep [OF assms] .

text \<open>C31: With the comparator of the S3 and Kinesis source, which calls every two positions equal,
  the first acknowledged position is the last one: no later call of \<^verbatim>\<open>AckPosition\<close> advances,
  whatever the pipelines confirm.\<close>
theorem kinesis_ack_never_advances:
  assumes "comparators a sid = Some kinesis_ComparePositions"
    and "lastAcked a sid = Some p" and "p \<noteq> PosNil"
  shows "snd (fst (AckPosition a sid order)) = False \<and> snd (AckPosition a sid order) = a"
  using assms
  by (simp add: AckPosition_def kinesis_ComparePositions_def LastAcked_def split: option.split)

theorem kinesis_ack_never_advances_witness:
  "snd (fst (AckPosition
     (RegisterPipeline (NewAckTracker\<lparr>positions := [''k'' \<mapsto> PosKinesis ''v2'' [(''shard-0'', ''200'')]],
        lastAcked := [''kin'' \<mapsto> PosKinesis ''v1'' []]\<rparr>) ''k'' ''kin'' (Some kinesis_ComparePositions))
     ''kin'' [''k''])) = False"
  by (rule kinesis_ack_never_advances [where p = "PosKinesis ''v1'' []", THEN conjunct1])
    (simp_all add: ack_ops)

end
