(* ===== verification/Readiness_Tracker.thy ===== *)
theory Readiness_Tracker
  imports Laredo_Prelude
begin

text \<open>
  Global readiness (\<^verbatim>\<open>internal/engine/readiness.go\<close>).  The channel \<^verbatim>\<open>allReady\<close> is a flag
  that is set when it is closed; closing it twice would panic, which is the result \<open>None\<close>.
  The callbacks that have been invoked are kept, in order, in \<open>fired\<close>.
\<close>

section \<open>State and operations\<close>

record 'c ReadinessTracker =
  ready :: "string \<rightharpoonup> bool"
  allReady :: bool
  ready_closed :: bool
  callbacks :: "'c list"
  fired :: "'c list"

definition NewReadinessTracker :: "string list \<Rightarrow> 'c ReadinessTracker" where
  "NewReadinessTracker pipelineIDs =
     \<lparr>ready = fold (\<lambda>pid m. m(pid \<mapsto> False)) pipelineIDs Map.empty,
      allReady = (pipelineIDs = []), ready_closed = (pipelineIDs = []), callbacks = [], fired = []\<rparr>"

fun allTrue :: "(string \<rightharpoonup> bool) \<Rightarrow> string list \<Rightarrow> bool" where
  "allTrue m [] = True"
| "allTrue m (k # ks) = (if m k \<noteq> Some True then False else allTrue m ks)"

definition SetReady :: "'c ReadinessTracker \<Rightarrow> string \<Rightarrow> string list \<Rightarrow> 'c ReadinessTracker option" where
  "SetReady r pipelineID order =
     (let r = r\<lparr>ready := (ready r)(pipelineID \<mapsto> True)\<rparr> in
      if ready_closed r then Some r
      else if \<not> allTrue (ready r) order then Some r
      else if allReady r then None
      else Some (r\<lparr>ready_closed := True, allReady := True,
                   fired := fired r @ callbacks r, callbacks := []\<rparr>))"

definition OnReady :: "'c ReadinessTracker \<Rightarrow> 'c \<Rightarrow> 'c ReadinessTracker" where
  "OnReady r cb =
     (if ready_closed r then r\<lparr>fired := fired r @ [cb]\<rparr>
      else r\<lparr>callbacks := callbacks r @ [cb]\<rparr>)"

definition IsReady :: "'c ReadinessTracker \<Rightarrow> bool" where
  "IsReady r = ready_closed r"

text \<open>With a positive timeout the select waits for the channel or the timer;
  \<open>closedInTime\<close> says whether the channel is closed before the timer fires.\<close>

definition AwaitReady :: "'c ReadinessTracker \<Rightarrow> int \<Rightarrow> bool \<Rightarrow> bool" where
  "AwaitReady r timeout closedInTime = (if timeout \<le> 0 then allReady r else closedInTime)"

section \<open>Runs\<close>

datatype 'c ready_call = CallSetReady string "string list" | CallOnReady 'c

definition ready_step :: "'c ReadinessTracker \<Rightarrow> 'c ready_call \<Rightarrow> 'c ReadinessTracker option" where
  "ready_step r c =
     (case c of CallSetReady pid order \<Rightarrow> SetReady r pid order | CallOnReady cb \<Rightarrow> Some (OnReady r cb))"

text \<open>Each call sees an iteration order of the map as it is when the loop runs.\<close>

fun ready_call_ok :: "'c ReadinessTracker \<Rightarrow> 'c ready_call \<Rightarrow> bool" where
  "ready_call_ok r (CallSetReady pid order) = iter_order order ((ready r)(pid \<mapsto> True))"
| "ready_call_ok r (CallOnReady cb) = True"

inductive ready_run :: "'c ReadinessTracker \<Rightarrow> 'c ready_call list \<Rightarrow> 'c ReadinessTracker option \<Rightarrow> bool" where
  ready_done: "ready_run r [] (Some r)"
| ready_panic: "ready_call_ok r c \<Longrightarrow> ready_step r c = None \<Longrightarrow> ready_run r (c # cs) None"
| ready_more: "ready_call_ok r c \<Longrightarrow> ready_step r c = Some r' \<Longrightarrow> ready_run r' cs out \<Longrightarrow>
     ready_run r (c # cs) out"

fun set_pids :: "'c ready_call list \<Rightarrow> string set" where
  "set_pids [] = {}"
| "set_pids (CallSetReady pid order # cs) = insert pid (set_pids cs)"
| "set_pids (CallOnReady cb # cs) = set_pids cs"

fun registered_cbs :: "'c ready_call list \<Rightarrow> 'c list" where
  "registered_cbs [] = []"
| "registered_cbs (CallSetReady pid order # cs) = registered_cbs cs"
| "registered_cbs (CallOnReady cb # cs) = cb # registered_cbs cs"

text \<open>The invariant: the flag and the channel agree, a closed tracker has no callback left and
  every pipeline is ready, an open one has fired nothing and some pipeline is not ready.\<close>

definition ready_inv :: "'c ReadinessTracker \<Rightarrow> bool" where
  "ready_inv r \<longleftrightarrow>
     allReady r = ready_closed r \<and>
     (ready_closed r \<longrightarrow> callbacks r = [] \<and> (\<forall>pid. ready r pid \<noteq> Some False)) \<and>
     (\<not> ready_closed r \<longrightarrow> fired r = [] \<and> (\<exists>pid. ready r pid = Some False))"

lemma allTrue_iff: "allTrue m ks \<longleftrightarrow> (\<forall>k \<in> set ks. m k = Some True)"
  by (induction ks) auto

lemma allTrue_order: "iter_order order m \<Longrightarrow> allTrue m order \<longleftrightarrow> (\<forall>k. m k \<noteq> Some False)"
proof -
  have "m k \<noteq> Some False \<longleftrightarrow> (k \<in> dom m \<longrightarrow> m k = Some True)" for k
    by (cases "m k") auto
  moreover assume "iter_order order m"
  ultimately show ?thesis unfolding allTrue_iff iter_order_set [OF \<open>iter_order order m\<close>] by blast
qed

lemma NewReadinessTracker_ready:
  "ready (NewReadinessTracker ids) pid = (if pid \<in> set ids then Some False else None)"
proof -
  have "fold (\<lambda>pid m. m(pid \<mapsto> False)) ids m0 pid = (if pid \<in> set ids then Some False else m0 pid)" for m0
    by (induction ids arbitrary: m0) auto
  then show ?thesis by (simp add: NewReadinessTracker_def)
qed

lemma ready_inv_New: "ready_inv (NewReadinessTracker ids)"
  unfolding ready_inv_def NewReadinessTracker_ready
  by (cases ids) (auto simp: NewReadinessTracker_def)

lemma SetReady_some: "ready_inv r \<Longrightarrow> SetReady r pid order \<noteq> None"
  by (auto simp: SetReady_def ready_inv_def Let_def)

lemma SetReady_inv:
  assumes "ready_inv r" and "iter_order order ((ready r)(pid \<mapsto> True))" and "SetReady r pid order = Some r'"
  shows "ready_inv r'"
  using assms by (auto simp: SetReady_def ready_inv_def Let_def allTrue_order split: if_splits)

lemma SetReady_ready: "SetReady r pid order = Some r' \<Longrightarrow> ready r' = (ready r)(pid \<mapsto> True)"
  by (auto simp: SetReady_def Let_def split: if_splits)

lemma SetReady_cbs: "SetReady r pid order = Some r' \<Longrightarrow> fired r' @ callbacks r' = fired r @ callbacks r"
  by (auto simp: SetReady_def Let_def split: if_splits)

lemma OnReady_inv: "ready_inv r \<Longrightarrow> ready_inv (OnReady r cb)"
  by (auto simp: OnReady_def ready_inv_def)

lemma OnReady_cbs: "ready_inv r \<Longrightarrow> fired (OnReady r cb) @ callbacks (OnReady r cb) = fired r @ callbacks r @ [cb]"
  by (auto simp: OnReady_def ready_inv_def)

lemma OnReady_ready [simp]: "ready (OnReady r cb) = ready r"
  by (simp add: OnReady_def)

lemma ready_run_inv:
  assumes "ready_run r cs out" and "ready_inv r"
  shows "\<exists>r'. out = Some r' \<and> ready_inv r' \<and>
    ready r' = (\<lambda>pid. if pid \<in> set_pids cs then Some True else ready r pid) \<and>
    fired r' @ callbacks r' = fired r @ callbacks r @ registered_cbs cs"
  using assms
proof (induction rule: ready_run.induct)
  case (ready_done r)
  then show ?case by simp
next
  case (ready_panic r c cs)
  then show ?case by (auto simp: ready_step_def SetReady_some split: ready_call.splits)
next
  case (ready_more r c r' cs out)
  show ?case
  proof (cases c)
    case (CallSetReady pid order)
    then have s: "SetReady r pid order = Some r'" using ready_more.hyps(2) by (simp add: ready_step_def)
    have "ready_inv r'"
      using SetReady_inv [OF ready_more.prems _ s] ready_more.hyps(1) CallSetReady by simp
    then obtain r'' where "out = Some r''" "ready_inv r''"
        "ready r'' = (\<lambda>pid. if pid \<in> set_pids cs then Some True else ready r' pid)"
        "fired r'' @ callbacks r'' = (fired r' @ callbacks r') @ registered_cbs cs"
      using ready_more.IH by auto
    then show ?thesis
      unfolding SetReady_ready [OF s] SetReady_cbs [OF s] by (auto simp: CallSetReady)
  next
    case (CallOnReady cb)
    then have s: "r' = OnReady r cb" using ready_more.hyps(2) by (simp add: ready_step_def)
    have "ready_inv r'" using s ready_more.prems by (simp add: OnReady_inv)
    with ready_more.IH s OnReady_cbs [OF ready_more.prems, of cb] show ?thesis
      by (auto simp: CallOnReady cong: if_cong)
  qed
qed

lemma ready_run_New:
  assumes "ready_run (NewReadinessTracker ids) cs out"
  shows "\<exists>r. out = Some r \<and> (IsReady r \<longleftrightarrow> set ids \<subseteq> set_pids cs) \<and>
    fired r = (if IsReady r then registered_cbs cs else [])"
proof -
  obtain r where r: "out = Some r" "ready_inv r"
      "ready r = (\<lambda>pid. if pid \<in> set_pids cs then Some True else if pid \<in> set ids then Some False else None)"
      "fired r @ callbacks r = registered_cbs cs"
    using ready_run_inv [OF assms ready_inv_New, unfolded NewReadinessTracker_ready]
    by (auto simp: NewReadinessTracker_def)
  have "ready_closed r \<longleftrightarrow> (\<forall>pid. ready r pid \<noteq> Some False)"
    using r(2) by (auto simp: ready_inv_def)
  also have "\<dots> \<longleftrightarrow> set ids \<subseteq> set_pids cs"
    by (auto simp: r(3))
  finally show ?thesis
    using r by (auto simp: IsReady_def ready_inv_def)
qed

section \<open>Properties\<close>

text \<open>C25: For any sequence of \<^verbatim>\<open>SetReady\<close> and \<^verbatim>\<open>OnReady\<close> calls on a new tracker: no call panics
  by closing the channel twice, the tracker is ready exactly when every registered pipeline has
  been reported, and then every callback has been invoked exactly once, in registration order;
  before that none has been.\<close>
theorem readiness_callbacks_once:
  assumes "ready_run (NewReadinessTracker ids) calls out"
  shows "\<exists>r. out = Some r \<and> (IsReady r \<longleftrightarrow> set ids \<subseteq> set_pids calls) \<and>
    fired r = (if IsReady r then registered_cbs calls else [])"
  using assms by (rule ready_run_New)

theorem readiness_callbacks_once_witness:
  "\<exists>r. ready_run (NewReadinessTracker [''p'', ''q''])
      [CallOnReady (1::nat), CallSetReady ''q'' [''p'', ''q''], CallSetReady ''p'' [''q'', ''p''], CallOnReady 2] (Some r)
    \<and> IsReady r \<and> fired r = [1, 2]"
proof -
  let ?calls = "[CallOnReady (1::nat), CallSetReady ''q'' [''p'', ''q''],
    CallSetReady ''p'' [''q'', ''p''], CallOnReady 2]"
  let ?r = "\<lparr>ready = [''p'' \<mapsto> True, ''q'' \<mapsto> True], allReady = True, ready_closed = True,
    callbacks = [], fired = [1, 2 :: nat]\<rparr>"
  let ?r1 = "\<lparr>ready = [''p'' \<mapsto> False, ''q'' \<mapsto> False], allReady = False, ready_closed = False,
    callbacks = [1 :: nat], fired = []\<rparr>"
  let ?r2 = "?r1\<lparr>ready := [''p'' \<mapsto> False, ''q'' \<mapsto> True]\<rparr>"
  let ?r3 = "?r\<lparr>fired := [1]\<rparr>"
  have orders: "iter_order [''p'', ''q''] [''p'' \<mapsto> a, ''q'' \<mapsto> True]"
      "iter_order [''q'', ''p''] [''p'' \<mapsto> True, ''q'' \<mapsto> True]" for a :: bool
    by (auto simp: iter_order_def)
  have s4: "ready_run ?r3 [CallOnReady 2] (Some ?r)"
    by (rule ready_more [OF _ _ ready_done]) (simp_all add: ready_step_def OnReady_def)
  have s3: "ready_run ?r2 [CallSetReady ''p'' [''q'', ''p''], CallOnReady 2] (Some ?r)"
    by (rule ready_more [OF _ _ s4])
      (simp_all add: orders ready_step_def SetReady_def Let_def fun_upd_twist)
  have s2: "ready_run ?r1 (tl ?calls) (Some ?r)" unfolding list.sel
    by (rule ready_more [OF _ _ s3]) (simp_all add: orders ready_step_def SetReady_def Let_def)
  have r: "ready_run (NewReadinessTracker [''p'', ''q'']) ?calls (Some ?r)"
    by (rule ready_more [OF _ _ s2 [unfolded list.sel]])
      (simp_all add: ready_step_def OnReady_def NewReadinessTracker_def fun_upd_twist)
  have "set [''p'', ''q''] \<subseteq> set_pids ?calls" by simp
  with readiness_callbacks_once [OF r] have "IsReady ?r \<and> fired ?r = registered_cbs ?calls" by auto
  with r show ?thesis by (intro exI [of _ ?r]) simp
qed

end
