(* ===== verification/Change_Buffer.thy ===== *)
theory Change_Buffer
  imports Laredo_Prelude
begin

text \<open>
  The bounded buffer between the source dispatcher and a pipeline's consumer
  (\<^verbatim>\<open>internal/engine/buffer.go\<close>).  A buffered Go channel is the list of queued items, its
  capacity and a closed flag.  A call that cannot proceed is \<open>Blocked\<close>; a send on a closed
  channel panics.
\<close>

section \<open>State and operations\<close>

record 'a ChangeBuffer =
  ch :: "'a list"
  buf_size :: nat
  buf_closed :: bool

datatype 'r outcome = Blocked | Panic | Returns 'r

definition NewChangeBuffer :: "int \<Rightarrow> 'a ChangeBuffer" where
  "NewChangeBuffer sz =
     (let sz = (if sz \<le> 0 then 1 else sz) in \<lparr>ch = [], buf_size = nat sz, buf_closed = False\<rparr>)"

text \<open>The channel statement \<^verbatim>\<open>b.ch <- item\<close>.\<close>

definition chan_send :: "'a ChangeBuffer \<Rightarrow> 'a \<Rightarrow> 'a ChangeBuffer outcome" where
  "chan_send b item =
     (if buf_closed b then Panic
      else if length (ch b) < buf_size b then Returns (b\<lparr>ch := ch b @ [item]\<rparr>)
      else Blocked)"

definition Send :: "'a ChangeBuffer \<Rightarrow> 'a \<Rightarrow> ('a ChangeBuffer \<times> bool) outcome" where
  "Send b item =
     (case chan_send b item of
        Returns b' \<Rightarrow> Returns (b', True)
      | Panic \<Rightarrow> Returns (b, False)
      | Blocked \<Rightarrow> Blocked)"

text \<open>In \<^verbatim>\<open>SendCtx\<close> the select picks a ready case at random: \<open>pickDone\<close> is its choice when
  both are ready.\<close>

definition SendCtx :: "'a ChangeBuffer \<Rightarrow> bool \<Rightarrow> bool \<Rightarrow> 'a \<Rightarrow> ('a ChangeBuffer \<times> bool) outcome" where
  "SendCtx b ctxDone pickDone item =
     (if ctxDone \<and> (pickDone \<or> chan_send b item = Blocked) then Returns (b, False)
      else case chan_send b item of
             Returns b' \<Rightarrow> Returns (b', True)
           | Panic \<Rightarrow> Returns (b, False)
           | Blocked \<Rightarrow> Blocked)"

definition TrySend :: "'a ChangeBuffer \<Rightarrow> 'a \<Rightarrow> ('a ChangeBuffer \<times> bool) outcome" where
  "TrySend b item =
     (case chan_send b item of
        Returns b' \<Rightarrow> Returns (b', True)
      | Panic \<Rightarrow> Panic
      | Blocked \<Rightarrow> Returns (b, False))"

definition SendDropOldest :: "'a ChangeBuffer \<Rightarrow> 'a \<Rightarrow> ('a ChangeBuffer \<times> 'a option) outcome" where
  "SendDropOldest b item =
     (case chan_send b item of
        Returns b' \<Rightarrow> Returns (b', None)
      | Panic \<Rightarrow> Panic
      | Blocked \<Rightarrow>
          (case ch b of
             [] \<Rightarrow> Blocked
           | dropped # rest \<Rightarrow>
               (case chan_send (b\<lparr>ch := rest\<rparr>) item of
                  Returns b' \<Rightarrow> Returns (b', Some dropped)
                | Panic \<Rightarrow> Panic
                | Blocked \<Rightarrow> Blocked)))"

text \<open>One receive of \<^verbatim>\<open>for item := range buf.Receive()\<close>; \<open>None\<close> ends the loop.\<close>

definition Receive :: "'a ChangeBuffer \<Rightarrow> ('a ChangeBuffer \<times> 'a option) outcome" where
  "Receive b =
     (case ch b of
        x # rest \<Rightarrow> Returns (b\<lparr>ch := rest\<rparr>, Some x)
      | [] \<Rightarrow> if buf_closed b then Returns (b, None) else Blocked)"

definition Close :: "'a ChangeBuffer \<Rightarrow> 'a ChangeBuffer outcome" where
  "Close b = (if buf_closed b then Panic else Returns (b\<lparr>buf_closed := True\<rparr>))"

definition Len :: "'a ChangeBuffer \<Rightarrow> nat" where
  "Len b = length (ch b)"

definition Cap :: "'a ChangeBuffer \<Rightarrow> nat" where
  "Cap b = buf_size b"

lemmas buffer_ops [laredo_defs] =
  chan_send_def Send_def SendCtx_def TrySend_def SendDropOldest_def Receive_def Close_def

section \<open>Boundedness and order\<close>

definition buf_inv :: "'a ChangeBuffer \<Rightarrow> bool" where
  "buf_inv b \<longleftrightarrow> 0 < Cap b \<and> Len b \<le> Cap b"

lemmas buf_inv_defs = buf_inv_def Cap_def Len_def

lemma buf_inv_New: "buf_inv (NewChangeBuffer sz)"
  by (simp add: buf_inv_defs NewChangeBuffer_def Let_def)

lemma chan_send_inv: "buf_inv b \<Longrightarrow> chan_send b x = Returns b' \<Longrightarrow> buf_inv b'"
  by (auto simp: buf_inv_defs chan_send_def split: if_splits)

lemma SendCtx_inv: "buf_inv b \<Longrightarrow> SendCtx b d p x = Returns (b', ok) \<Longrightarrow> buf_inv b'"
  by (auto simp: SendCtx_def dest: chan_send_inv split: if_splits outcome.splits)

lemma TrySend_inv: "buf_inv b \<Longrightarrow> TrySend b x = Returns (b', ok) \<Longrightarrow> buf_inv b'"
  by (auto simp: TrySend_def dest: chan_send_inv split: outcome.splits)

lemma SendDropOldest_inv: "buf_inv b \<Longrightarrow> SendDropOldest b x = Returns (b', d) \<Longrightarrow> buf_inv b'"
  by (auto simp: SendDropOldest_def chan_send_def buf_inv_defs split: if_splits list.splits)

lemma Receive_inv: "buf_inv b \<Longrightarrow> Receive b = Returns (b', r) \<Longrightarrow> buf_inv b'"
  by (auto simp: Receive_def buf_inv_defs split: if_splits list.splits)

text \<open>On an open buffer \<^verbatim>\<open>SendDropOldest\<close> always returns and drops only when full.\<close>

lemma SendDropOldest_open:
  assumes "buf_inv b" and "\<not> buf_closed b"
  shows "SendDropOldest b x =
    (if Len b < Cap b then Returns (b\<lparr>ch := ch b @ [x]\<rparr>, None)
     else Returns (b\<lparr>ch := tl (ch b) @ [x]\<rparr>, Some (hd (ch b))))"
  using assms by (auto simp: SendDropOldest_def chan_send_def buf_inv_defs split: list.split)

text \<open>Sending a list of items, collecting what is dropped.\<close>

fun send_all :: "'a ChangeBuffer \<Rightarrow> 'a list \<Rightarrow> ('a ChangeBuffer \<times> 'a list) outcome" where
  "send_all b [] = Returns (b, [])"
| "send_all b (x # xs) =
     (case SendDropOldest b x of
        Returns (b', d) \<Rightarrow>
          (case send_all b' xs of
             Returns (b'', ds) \<Rightarrow> Returns (b'', (case d of None \<Rightarrow> ds | Some y \<Rightarrow> y # ds))
           | Panic \<Rightarrow> Panic
           | Blocked \<Rightarrow> Blocked)
      | Panic \<Rightarrow> Panic
      | Blocked \<Rightarrow> Blocked)"

lemma send_all_ring:
  assumes "buf_inv b" and "\<not> buf_closed b"
  shows "send_all b xs =
    Returns (b\<lparr>ch := drop (Len b + length xs - Cap b) (ch b @ xs)\<rparr>, take (Len b + length xs - Cap b) (ch b @ xs))"
  using assms
proof (induction xs arbitrary: b)
  case Nil
  then show ?case by (simp add: buf_inv_defs)
next
  case (Cons x xs)
  show ?case
  proof (cases "Len b < Cap b")
    case True
    let ?b = "b\<lparr>ch := ch b @ [x]\<rparr>"
    have "buf_inv ?b" using Cons.prems True by (simp add: buf_inv_defs)
    then show ?thesis using Cons.IH [of ?b] Cons.prems True
      by (simp add: SendDropOldest_open Len_def Cap_def)
  next
    case False
    then have full: "length (ch b) = buf_size b" "0 < buf_size b" using Cons.prems by (simp_all add: buf_inv_defs)
    then obtain y ys where ys: "ch b = y # ys" by (cases "ch b") auto
    with full have sz: "buf_size b = Suc (length ys)" by simp
    let ?b = "b\<lparr>ch := ys @ [x]\<rparr>"
    have "buf_inv ?b" using sz by (simp add: buf_inv_defs)
    then have "send_all ?b xs = Returns (?b\<lparr>ch := drop (length xs) (ys @ x # xs)\<rparr>, take (length xs) (ys @ x # xs))"
      using Cons.IH [of ?b] Cons.prems by (simp add: Len_def Cap_def sz)
    then show ?thesis using Cons.prems
      by (simp add: SendDropOldest_open Len_def Cap_def sz ys)
  qed
qed

section \<open>Interleaving with the consumer\<close>

text \<open>
  The channel operations of \<^verbatim>\<open>SendDropOldest\<close> are separate steps, and the consumer goroutine
  may receive between them.  The dispatcher is about to try the send, or has found the buffer
  full and is about to receive the oldest item, or is about to send again, or has returned.
\<close>

datatype 'a drop_pc = Trying 'a | Draining 'a | Resending 'a 'a | Returned "'a option"

inductive drop_step :: "nat \<Rightarrow> 'a list \<times> 'a drop_pc \<Rightarrow> 'a list \<times> 'a drop_pc \<Rightarrow> bool" for cap where
  try_room: "length q < cap \<Longrightarrow> drop_step cap (q, Trying x) (q @ [x], Returned None)"
| try_full: "length q = cap \<Longrightarrow> drop_step cap (q, Trying x) (q, Draining x)"
| drain: "drop_step cap (y # q, Draining x) (q, Resending x y)"
| resend: "length q < cap \<Longrightarrow> drop_step cap (q, Resending x y) (q @ [x], Returned (Some y))"
| consume: "drop_step cap (y # q, pc) (q, pc)"

inductive_cases draining_empty: "drop_step cap ([], Draining x) s"

lemma consume_all: "(drop_step cap)\<^sup>*\<^sup>* (q, pc) ([], pc)"
  by (induction q) (auto intro: consume converse_rtranclp_into_rtranclp)

section \<open>Properties\<close>

text \<open>Under the drop-oldest policy the buffer is a ring: after any list of sends it holds the
  most recent items up to its capacity, in order, the items reported as dropped are exactly the
  older ones, in order, and no send blocks or panics while the buffer is open.\<close>
theorem SendDropOldest_ring:
  "send_all (NewChangeBuffer n) xs =
     Returns ((NewChangeBuffer n)\<lparr>ch := drop (length xs - Cap (NewChangeBuffer n :: 'a ChangeBuffer)) xs\<rparr>,
              take (length xs - Cap (NewChangeBuffer n :: 'a ChangeBuffer)) (xs :: 'a list))"
proof -
  have "\<not> buf_closed (NewChangeBuffer n :: 'a ChangeBuffer)" "ch (NewChangeBuffer n :: 'a ChangeBuffer) = []"
    by (simp_all add: NewChangeBuffer_def Let_def)
  then show ?thesis using send_all_ring [OF buf_inv_New, of n xs] by (simp add: Len_def)
qed

text \<open>C37: \<^verbatim>\<open>SendDropOldest\<close> can deadlock the dispatcher.  From any full buffer there is a run in
  which the consumer empties the buffer between the failed send and the receive that should drop
  the oldest item; in the state reached the dispatcher waits to receive, is not done, and no step
  is possible.\<close>
theorem SendDropOldest_deadlock:
  assumes "length q = cap"
  shows "(drop_step cap)\<^sup>*\<^sup>* (q, Trying x) ([], Draining x) \<and> (\<nexists>s. drop_step cap ([], Draining x) s)"
proof
  have "drop_step cap (q, Trying x) (q, Draining x)" using assms by (rule try_full)
  then show "(drop_step cap)\<^sup>*\<^sup>* (q, Trying x) ([], Draining x)"
    using consume_all by (rule converse_rtranclp_into_rtranclp)
  show "\<nexists>s. drop_step cap ([], Draining x) s" by (auto elim: draining_empty)
qed

theorem SendDropOldest_deadlock_witness:
  "(drop_step 2)\<^sup>*\<^sup>* ([1, 2], Trying (3::nat)) ([], Draining 3) \<and> (\<nexists>s. drop_step 2 ([], Draining (3::nat)) s)"
  by (rule SendDropOldest_deadlock) simp

text \<open>A full open buffer refuses \<^verbatim>\<open>TrySend\<close> and stays as it is, but a closed one makes it
  panic, although its documentation says it returns false in both cases.\<close>
theorem TrySend_full_or_closed:
  "(buf_closed b \<longrightarrow> TrySend b x = Panic) \<and>
   (\<not> buf_closed b \<longrightarrow> Len b = Cap b \<longrightarrow> TrySend b x = Returns (b, False))"
  by (simp add: TrySend_def chan_send_def Len_def Cap_def)

end
