(* ===== verification/Core_Types.thy ===== *)
theory Core_Types
  imports Positions "HOL-Library.List_Lexorder" "HOL-Library.Char_ord"
begin

text \<open>
  The data types of the root package (\<^verbatim>\<open>types.go\<close>, \<^verbatim>\<open>pipeline.go\<close>, \<^verbatim>\<open>errors.go\<close>,
  \<^verbatim>\<open>source.go\<close>, \<^verbatim>\<open>target.go\<close>, \<^verbatim>\<open>snapshot.go\<close>).  A row is a Go map from column names to values;
  where the code distinguishes a nil row from an empty one the type is \<open>row option\<close>, and
  \<open>nilrow\<close> reads a nil row as Go does, as an empty map.
\<close>

section \<open>Errors\<close>

datatype goerror =
    ErrReBaselineRequired
  | CtxErr
  | errNotStarted
  | errAlreadyStarted
  | errStopped
  | Err string
  | Wrap string goerror

text \<open>\<^verbatim>\<open>Wrap m err\<close> is \<^verbatim>\<open>fmt.Errorf("m: %w", err)\<close>, and \<^verbatim>\<open>errors.Is\<close> follows the wrapped errors.\<close>

fun errors_Is :: "goerror \<Rightarrow> goerror \<Rightarrow> bool" where
  "errors_Is (Wrap m err) target = (Wrap m err = target \<or> errors_Is err target)"
| "errors_Is err target = (err = target)"

section \<open>Tables and columns\<close>

record TableIdentifier =
  Schema :: string
  Tbl :: string

definition Table :: "string \<Rightarrow> string \<Rightarrow> TableIdentifier" where
  "Table schema table = \<lparr>Schema = schema, Tbl = table\<rparr>"

definition TableIdentifier_String :: "TableIdentifier \<Rightarrow> string" where
  "TableIdentifier_String t = Schema t @ CHR ''.'' # Tbl t"

definition UnmarshalText :: "string \<Rightarrow> goerror + TableIdentifier" where
  "UnmarshalText text =
     (case Cut text (CHR ''.'') of (schema, table, ok) \<Rightarrow>
        if \<not> ok \<or> schema = [] \<or> table = []
        then Inl (Err (''invalid table identifier '' @ text @ '': expected schema.table''))
        else Inr \<lparr>Schema = schema, Tbl = table\<rparr>)"

record ColumnDefinition =
  Name :: string
  Type :: string
  Nullable :: bool
  PrimaryKey :: bool
  OrdinalPosition :: int
  PrimaryKeyOrdinal :: int
  DefaultValue :: "string option"
  MaxLength :: int
  TypeOID :: nat

record IndexDefinition =
  idx_Name :: string
  idx_Fields :: "string list"
  idx_Unique :: bool

section \<open>Rows\<close>

text \<open>The readings of \<^verbatim>\<open>time.Now()\<close> during one call, in the order of the calls.\<close>

type_synonym clock = "nat \<Rightarrow> int"

type_synonym row = "string \<rightharpoonup> value"

definition nilrow :: "row option \<Rightarrow> row" where
  "nilrow r = (case r of None \<Rightarrow> Map.empty | Some m \<Rightarrow> m)"

text \<open>Reading \<^verbatim>\<open>row[key]\<close> of a missing column gives nil.\<close>

definition row_get :: "row \<Rightarrow> string \<Rightarrow> value" where
  "row_get r key = (case r key of None \<Rightarrow> VNil | Some v \<Rightarrow> v)"

definition GetString :: "row \<Rightarrow> string \<Rightarrow> string" where
  "GetString r key = (case r key of Some (VString s) \<Rightarrow> s | _ \<Rightarrow> [])"

definition Row_Get :: "row \<Rightarrow> string \<Rightarrow> value \<times> bool" where
  "Row_Get r key = (row_get r key, r key \<noteq> None)"

text \<open>\<open>order\<close> is the order in which \<^verbatim>\<open>maps.Keys\<close> yields the keys.\<close>

definition Row_Keys :: "row \<Rightarrow> string list \<Rightarrow> string list" where
  "Row_Keys r order = sort order"

definition Without :: "row \<Rightarrow> string list \<Rightarrow> row" where
  "Without r keys = (\<lambda>k. if k \<in> set keys then None else r k)"

section \<open>Change events\<close>

datatype ChangeAction = ActionInsert | ActionUpdate | ActionDelete | ActionTruncate

fun ChangeAction_String :: "ChangeAction \<Rightarrow> string" where
  "ChangeAction_String ActionInsert = ''INSERT''"
| "ChangeAction_String ActionUpdate = ''UPDATE''"
| "ChangeAction_String ActionDelete = ''DELETE''"
| "ChangeAction_String ActionTruncate = ''TRUNCATE''"

record ChangeEvent =
  ev_Table :: TableIdentifier
  ev_Action :: ChangeAction
  ev_Position :: position
  ev_Timestamp :: int
  ev_CommitTimestamp :: "int option"
  ev_XID :: int
  ev_NewValues :: "row option"
  ev_OldValues :: "row option"

section \<open>States and policies\<close>

datatype PipelineState =
    PipelineInitializing | PipelineBaselining | PipelineStreaming | PipelinePaused
  | PipelineError | PipelineStopped

fun PipelineState_String :: "PipelineState \<Rightarrow> string" where
  "PipelineState_String PipelineInitializing = ''INITIALIZING''"
| "PipelineState_String PipelineBaselining = ''BASELINING''"
| "PipelineState_String PipelineStreaming = ''STREAMING''"
| "PipelineState_String PipelinePaused = ''PAUSED''"
| "PipelineState_String PipelineError = ''ERROR''"
| "PipelineState_String PipelineStopped = ''STOPPED''"

datatype BufferPolicy = BufferBlock | BufferDropOldest | BufferError

datatype ErrorPolicyKind = ErrorIsolate | ErrorStopSource | ErrorStopAll

datatype ValidationAction = ValidationWarn | ValidationReBaseline | ValidationFail

datatype SchemaChangeAction = SchemaContinue | SchemaReBaseline | SchemaError

record TableSnapshotInfo =
  tsi_Table :: TableIdentifier
  tsi_RowCount :: int
  tsi_Columns :: "ColumnDefinition list"
  tsi_TargetType :: string
  tsi_Indexes :: "IndexDefinition list"

record SnapshotMetadata =
  SnapshotID :: string
  CreatedAt :: int
  SourcePositions :: "string \<rightharpoonup> position"
  Tables :: "TableSnapshotInfo list"
  Format :: string
  UserMeta :: "string \<rightharpoonup> value"

section \<open>Facts\<close>

lemma nilrow_simps [simp]: "nilrow None = Map.empty" "nilrow (Some r) = r"
  by (simp_all add: nilrow_def)

lemma row_get_nilrow_None [simp]: "row_get Map.empty k = VNil"
  by (simp add: row_get_def)

lemma dom_Without: "dom (Without r keys) = dom r - set keys"
  by (auto simp: Without_def split: if_splits)

lemma ChangeAction_String_inj: "ChangeAction_String a = ChangeAction_String b \<Longrightarrow> a = b"
  by (cases a; cases b) auto

lemma Row_Keys_deterministic:
  assumes "iter_order o1 r" and "iter_order o2 r"
  shows "Row_Keys r o1 = Row_Keys r o2" "sorted (Row_Keys r o1)" "set (Row_Keys r o1) = dom r"
proof -
  show "sorted (Row_Keys r o1)" "set (Row_Keys r o1) = dom r"
    using assms by (simp_all add: Row_Keys_def iter_order_set)
  show "Row_Keys r o1 = Row_Keys r o2"
    unfolding Row_Keys_def
    by (rule sorted_distinct_set_unique) (use assms in \<open>auto simp: iter_order_set\<close>)
qed

lemma UnmarshalText_String:
  assumes "Schema t \<noteq> []" and "Tbl t \<noteq> []" and "CHR ''.'' \<notin> set (Schema t)"
  shows "UnmarshalText (TableIdentifier_String t) = Inr t"
  using assms by (simp add: UnmarshalText_def TableIdentifier_String_def)

lemma String_UnmarshalText:
  assumes "UnmarshalText s = Inr t"
  shows "TableIdentifier_String t = s \<and> Schema t \<noteq> [] \<and> Tbl t \<noteq> [] \<and> CHR ''.'' \<notin> set (Schema t)"
proof -
  obtain a b ok where cut: "Cut s (CHR ''.'') = (a, b, ok)" by (metis prod_cases3)
  with assms have ok: "ok" "a \<noteq> []" "b \<noteq> []" "t = \<lparr>Schema = a, Tbl = b\<rparr>"
    by (auto simp: UnmarshalText_def split: if_splits)
  with cut have "s = a @ CHR ''.'' # b \<and> CHR ''.'' \<notin> set a" by (simp add: Cut_TrueD)
  with ok show ?thesis by (simp add: TableIdentifier_String_def)
qed

section \<open>Properties\<close>

text \<open>The text form of a table identifier determines it exactly for the identifiers that the
  parser produces: a text parses to \<open>t\<close> if and only if it is the printed form of \<open>t\<close>, both
  parts are non-empty and the schema contains no dot.\<close>
theorem TableIdentifier_roundtrip:
  "UnmarshalText s = Inr t \<longleftrightarrow>
     s = TableIdentifier_String t \<and> Schema t \<noteq> [] \<and> Tbl t \<noteq> [] \<and> CHR ''.'' \<notin> set (Schema t)"
  using String_UnmarshalText UnmarshalText_String by blast

end
