(* ===== verification/Filters_Transforms.thy ===== *)
theory Filters_Transforms
  imports Core_Types
begin

text \<open>
  Built-in pipeline filters and transforms (\<^verbatim>\<open>filter/filter.go\<close>,
  \<^verbatim>\<open>transform/transform.go\<close>).  A filter returns \<open>None\<close> where Go panics.  The table argument,
  which no built-in filter or transform reads, is kept.
\<close>

section \<open>Filters\<close>

definition FieldEquals_Include :: "string \<Rightarrow> value \<Rightarrow> TableIdentifier \<Rightarrow> row \<Rightarrow> bool option" where
  "FieldEquals_Include field val table r = any_eq (row_get r field) val"

definition FieldPrefix_Include :: "string \<Rightarrow> string \<Rightarrow> TableIdentifier \<Rightarrow> row \<Rightarrow> bool" where
  "FieldPrefix_Include field pre table r =
     (case row_get r field of
        VString s \<Rightarrow> length pre \<le> length s \<and> take (length pre) s = pre
      | _ \<Rightarrow> False)"

text \<open>The compiled pattern is given by its \<^verbatim>\<open>MatchString\<close> method.\<close>

definition FieldRegex_Include :: "string \<Rightarrow> (string \<Rightarrow> bool) \<Rightarrow> TableIdentifier \<Rightarrow> row \<Rightarrow> bool" where
  "FieldRegex_Include field matchString table r =
     (case row_get r field of VString s \<Rightarrow> matchString s | _ \<Rightarrow> False)"

section \<open>Transforms\<close>

definition DropFields_Transform :: "string list \<Rightarrow> TableIdentifier \<Rightarrow> row \<Rightarrow> row" where
  "DropFields_Transform flds table r = Without r flds"

definition renamed :: "(string \<rightharpoonup> string) \<Rightarrow> string \<Rightarrow> string" where
  "renamed mapping k = (case mapping k of Some newName \<Rightarrow> newName | None \<Rightarrow> k)"

fun rename_loop :: "(string \<rightharpoonup> string) \<Rightarrow> row \<Rightarrow> string list \<Rightarrow> row \<Rightarrow> row" where
  "rename_loop mapping r [] out = out"
| "rename_loop mapping r (k # ks) out =
     (case r k of
        None \<Rightarrow> rename_loop mapping r ks out
      | Some v \<Rightarrow> rename_loop mapping r ks (out(renamed mapping k \<mapsto> v)))"

definition RenameFields_Transform :: "(string \<rightharpoonup> string) \<Rightarrow> TableIdentifier \<Rightarrow> row \<Rightarrow> string list \<Rightarrow> row" where
  "RenameFields_Transform mapping table r order = rename_loop mapping r order Map.empty"

definition AddTimestamp_Transform :: "string \<Rightarrow> TableIdentifier \<Rightarrow> row \<Rightarrow> value \<Rightarrow> row" where
  "AddTimestamp_Transform field table r now = r(field \<mapsto> now)"

section \<open>Facts\<close>

lemma rename_loop_other:
  "(\<forall>k \<in> set ks. r k \<noteq> None \<longrightarrow> renamed mapping k \<noteq> k') \<Longrightarrow> rename_loop mapping r ks out k' = out k'"
  by (induction ks arbitrary: out) (auto split: option.split)

lemma rename_loop_hit:
  assumes "inj_on (renamed mapping) (set ks)" and "distinct ks" and "k \<in> set ks" and "r k = Some v"
  shows "rename_loop mapping r ks out (renamed mapping k) = Some v"
  using assms
proof (induction ks arbitrary: out)
  case Nil
  then show ?case by simp
next
  case (Cons x xs)
  show ?case
  proof (cases "x = k")
    case True
    with Cons.prems have "\<forall>y \<in> set xs. renamed mapping y \<noteq> renamed mapping k"
      by (auto simp: inj_on_def)
    with True Cons.prems show ?thesis by (simp add: rename_loop_other)
  next
    case False
    with Cons show ?thesis by (auto split: option.split)
  qed
qed

lemma RenameFields_injective:
  assumes "iter_order order r" and "inj_on (renamed mapping) (dom r)"
  shows "RenameFields_Transform mapping table r order k' = Some v \<longleftrightarrow>
    (\<exists>k. renamed mapping k = k' \<and> r k = Some v)"
proof
  have inj: "inj_on (renamed mapping) (set order)" using assms by (simp add: iter_order_set)
  have dist: "distinct order" using assms(1) by (rule iter_order_distinct)
  show "\<exists>k. renamed mapping k = k' \<and> r k = Some v \<Longrightarrow> RenameFields_Transform mapping table r order k' = Some v"
    using assms(1) rename_loop_hit [OF inj dist] by (auto simp: RenameFields_Transform_def)
  assume hit: "RenameFields_Transform mapping table r order k' = Some v"
  then obtain k w where k: "k \<in> set order" "r k = Some w" "renamed mapping k = k'"
    using rename_loop_other [of order r mapping k' Map.empty]
    by (fastforce simp: RenameFields_Transform_def)
  have "rename_loop mapping r order Map.empty (renamed mapping k) = Some w"
    using inj dist k(1,2) by (rule rename_loop_hit)
  with hit k show "\<exists>k. renamed mapping k = k' \<and> r k = Some v"
    by (auto simp: RenameFields_Transform_def)
qed

section \<open>Properties\<close>

text \<open>When the new column names do not collide, renaming is deterministic and loses nothing: in
  every iteration order of the row the result has exactly the renamed columns with their values.\<close>
theorem RenameFields_exact:
  assumes "iter_order order r" and "inj_on (renamed mapping) (dom r)"
  shows "RenameFields_Transform mapping table r order k' = Some v \<longleftrightarrow>
    (\<exists>k. renamed mapping k = k' \<and> r k = Some v)"
  using assms by (rule RenameFields_injective)


end
