(* ===== verification/Sync_Target.thy ===== *)
theory Sync_Target
  imports Core_Types
begin

text \<open>
  The \<^verbatim>\<open>SyncTarget\<close> interface (\<^verbatim>\<open>target.go\<close>) as a record of the implementation's methods over
  its state \<open>'t\<close>; the optional methods that the engine finds by a type assertion
  (\<^verbatim>\<open>SetChangePosition\<close>, \<^verbatim>\<open>Count\<close>, \<^verbatim>\<open>All\<close>) are option fields.  The locale \<open>keyed_target\<close> is
  the contract that the engine and the replay tool rely on: the target holds a map from row keys
  to rows, and each change event acts on that map as it does on the source table.
\<close>

section \<open>The interface\<close>

type_synonym 't call = "'t \<Rightarrow> goerror option \<times> 't"

record 't SyncTarget =
  t_OnInit :: "TableIdentifier \<Rightarrow> ColumnDefinition list \<Rightarrow> 't call"
  t_OnBaselineRow :: "clock \<Rightarrow> TableIdentifier \<Rightarrow> row \<Rightarrow> 't call"
  t_OnBaselineComplete :: "TableIdentifier \<Rightarrow> 't call"
  t_OnInsert :: "clock \<Rightarrow> TableIdentifier \<Rightarrow> row \<Rightarrow> 't call"
  t_OnUpdate :: "clock \<Rightarrow> TableIdentifier \<Rightarrow> row \<Rightarrow> row \<Rightarrow> 't call"
  t_OnDelete :: "clock \<Rightarrow> TableIdentifier \<Rightarrow> row \<Rightarrow> 't call"
  t_OnTruncate :: "clock \<Rightarrow> TableIdentifier \<Rightarrow> 't call"
  t_IsDurable :: "'t \<Rightarrow> bool"
  t_OnSchemaChange :: "clock \<Rightarrow> TableIdentifier \<Rightarrow> ColumnDefinition list \<Rightarrow> ColumnDefinition list \<Rightarrow>
     't \<Rightarrow> (SchemaChangeAction \<times> string) \<times> 't"
  t_ExportSnapshot :: "string list \<Rightarrow> 't \<Rightarrow> goerror + row list"
  t_RestoreSnapshot :: "TableSnapshotInfo \<Rightarrow> row list \<Rightarrow> 't call"
  t_SupportsConsistentSnapshot :: bool
  t_OnClose :: "TableIdentifier \<Rightarrow> 't call"
  t_SetChangePosition :: "(position \<Rightarrow> 't \<Rightarrow> 't) option"
  t_Count :: "('t \<Rightarrow> nat) option"
  t_All :: "(string list \<Rightarrow> 't \<Rightarrow> (string \<times> row) list) option"

section \<open>Tables as keyed maps\<close>

text \<open>The effect of a change on a keyed table, independent of any target.\<close>

fun table_put :: "(row \<Rightarrow> string) \<Rightarrow> row list \<Rightarrow> (string \<rightharpoonup> row) \<Rightarrow> (string \<rightharpoonup> row)" where
  "table_put key [] m = m"
| "table_put key (r # rs) m = table_put key rs (m(key r \<mapsto> r))"

definition keyed :: "(row \<Rightarrow> string) \<Rightarrow> (string \<rightharpoonup> row) \<Rightarrow> bool" where
  "keyed key m \<longleftrightarrow> (\<forall>k r. m k = Some r \<longrightarrow> key r = k)"

lemma keyed_empty [simp]: "keyed key Map.empty"
  by (simp add: keyed_def)

lemma keyed_upd [simp, intro]: "keyed key m \<Longrightarrow> key r = k \<Longrightarrow> keyed key (m(k \<mapsto> r))"
  by (simp add: keyed_def)

lemma keyed_del [simp, intro]: "keyed key m \<Longrightarrow> keyed key (m(k := None))"
  by (simp add: keyed_def)

lemma keyedD: "keyed key m \<Longrightarrow> m k = Some r \<Longrightarrow> key r = k"
  by (simp add: keyed_def)

lemma table_put_append [simp]: "table_put key (rs @ ss) m = table_put key ss (table_put key rs m)"
  by (induction rs arbitrary: m) auto

lemma keyed_table_put [simp, intro]: "keyed key m \<Longrightarrow> keyed key (table_put key rs m)"
  by (induction rs arbitrary: m) auto

lemma table_put_other: "k \<notin> key ` set rs \<Longrightarrow> table_put key rs m k = m k"
  by (induction rs arbitrary: m) auto

lemma table_put_mem:
  "distinct (map key rs) \<Longrightarrow> r \<in> set rs \<Longrightarrow> table_put key rs m (key r) = Some r"
  by (induction rs arbitrary: m) (auto simp: table_put_other)

lemma table_put_None_iff:
  "table_put key rs m k = None \<longleftrightarrow> m k = None \<and> (\<forall>r \<in> set rs. key r \<noteq> k)"
  by (induction rs arbitrary: m) auto

lemma finite_table_put [simp, intro]: "finite (dom m) \<Longrightarrow> finite (dom (table_put key rs m))"
  by (induction rs arbitrary: m) auto

text \<open>The rows of a keyed table, listed in any order, rebuild the table.\<close>

lemma map_key_values_of:
  assumes "keyed key m"
  shows "set ks \<subseteq> dom m \<Longrightarrow> map key (values_of ks m) = ks"
  by (induction ks) (auto split: option.split dest: keyedD [OF assms])

lemma table_put_values_of:
  assumes "keyed key m" and "iter_order ks m"
  shows "table_put key (values_of ks m) Map.empty = m"
proof
  fix k
  have dist: "distinct (map key (values_of ks m))"
    using assms map_key_values_of [of key m ks] by (simp add: iter_order_distinct iter_order_set)
  show "table_put key (values_of ks m) Map.empty k = m k"
  proof (cases "m k")
    case None
    with assms have "k \<notin> key ` set (values_of ks m)"
      by (auto simp: set_values_of dest: keyedD)
    with None show ?thesis by (simp add: table_put_other)
  next
    case (Some r)
    with assms(2) have "r \<in> set (values_of ks m)" by (auto simp: values_of_ran ran_def)
    with Some assms(1) dist show ?thesis using table_put_mem keyedD by fastforce
  qed
qed

section \<open>The contract\<close>

text \<open>\<open>key\<close> is the target's row key, \<open>contents\<close> the table it holds and \<open>inv\<close> the states between
  two calls after a successful \<^verbatim>\<open>OnInit\<close>.\<close>

locale keyed_target =
  fixes vt :: "'t SyncTarget"
    and key :: "row \<Rightarrow> string"
    and contents :: "'t \<Rightarrow> string \<rightharpoonup> row"
    and inv :: "'t \<Rightarrow> bool"
  assumes inv_keyed: "inv t \<Longrightarrow> keyed key (contents t)"
    and on_baseline_row: "inv t \<Longrightarrow>
      fst (t_OnBaselineRow vt now tbl r t) = None \<and> inv (snd (t_OnBaselineRow vt now tbl r t)) \<and>
      contents (snd (t_OnBaselineRow vt now tbl r t)) = (contents t)(key r \<mapsto> r)"
    and on_baseline_complete: "inv t \<Longrightarrow>
      fst (t_OnBaselineComplete vt tbl t) = None \<and> inv (snd (t_OnBaselineComplete vt tbl t)) \<and>
      contents (snd (t_OnBaselineComplete vt tbl t)) = contents t"
    and on_insert: "inv t \<Longrightarrow>
      fst (t_OnInsert vt now tbl r t) = None \<and> inv (snd (t_OnInsert vt now tbl r t)) \<and>
      contents (snd (t_OnInsert vt now tbl r t)) = (contents t)(key r \<mapsto> r)"
    and on_update: "inv t \<Longrightarrow> key ident = key r \<Longrightarrow>
      fst (t_OnUpdate vt now tbl r ident t) = None \<and> inv (snd (t_OnUpdate vt now tbl r ident t)) \<and>
      contents (snd (t_OnUpdate vt now tbl r ident t)) = (contents t)(key r \<mapsto> r)"
    and on_delete: "inv t \<Longrightarrow>
      fst (t_OnDelete vt now tbl ident t) = None \<and> inv (snd (t_OnDelete vt now tbl ident t)) \<and>
      contents (snd (t_OnDelete vt now tbl ident t)) = (contents t)(key ident := None)"
    and on_truncate: "inv t \<Longrightarrow>
      fst (t_OnTruncate vt now tbl t) = None \<and> inv (snd (t_OnTruncate vt now tbl t)) \<and>
      contents (snd (t_OnTruncate vt now tbl t)) = Map.empty"
    and on_export: "inv t \<Longrightarrow> t_ExportSnapshot vt order t = Inr (values_of order (contents t))"
    and on_restore: "inv t \<Longrightarrow>
      fst (t_RestoreSnapshot vt info rs t) = None \<and> inv (snd (t_RestoreSnapshot vt info rs t)) \<and>
      contents (snd (t_RestoreSnapshot vt info rs t)) = table_put key rs Map.empty"
    and on_position: "inv t \<Longrightarrow> t_SetChangePosition vt = Some set_pos \<Longrightarrow>
      inv (set_pos pos t) \<and> contents (set_pos pos t) = contents t"
    and on_count: "inv t \<Longrightarrow> t_Count vt = Some count \<Longrightarrow> count t = card (dom (contents t))"
begin

lemma export_restore:
  assumes "inv t" and "inv t'" and "iter_order order (contents t)"
    and "t_ExportSnapshot vt order t = Inr rs"
  shows "contents (snd (t_RestoreSnapshot vt info rs t')) = contents t"
  using assms on_export [of t order] on_restore [of t'] inv_keyed [of t]
  by (auto simp: table_put_values_of)

end

text \<open>Targets that also follow an update which changes the key.\<close>

locale rekeying_target = keyed_target +
  assumes on_update_rekey: "inv t \<Longrightarrow>
      fst (t_OnUpdate vt now tbl r ident t) = None \<and> inv (snd (t_OnUpdate vt now tbl r ident t)) \<and>
      contents (snd (t_OnUpdate vt now tbl r ident t)) = (contents t)(key ident := None, key r \<mapsto> r)"

end
