(* ===== verification/Row_Keys.thy ===== *)
theory Row_Keys
  imports Core_Types
begin

text \<open>
  The key strings of the in-memory targets (\<^verbatim>\<open>buildKey\<close>, \<^verbatim>\<open>buildKeyFromValues\<close> and
  \<^verbatim>\<open>formatValue\<close> of \<^verbatim>\<open>target/memory/memory.go\<close>): the formatted values joined by NUL
  characters.  The lemmas say when distinct keys of the table get distinct key strings.
\<close>

section \<open>Key construction\<close>

fun formatValue :: "value \<Rightarrow> string" where
  "formatValue (VString s) = s"
| "formatValue (VInt i) = Itoa i"
| "formatValue (VInt64 i) = Itoa i"
| "formatValue (VFloat64 f) = FormatFloat f"
| "formatValue (VBool b) = FormatBool b"
| "formatValue VNil = ''<nil>''"
| "formatValue v = Sprint_v v"

fun writeKey :: "nat \<Rightarrow> value list \<Rightarrow> string" where
  "writeKey i [] = []"
| "writeKey i (v # vs) = (if 0 < i then [CHR 0x00] else []) @ formatValue v @ writeKey (i + 1) vs"

definition buildKey :: "row \<Rightarrow> string list \<Rightarrow> string" where
  "buildKey r flds =
     (if length flds = 1 then formatValue (row_get r (flds ! 0))
      else writeKey 0 (map (row_get r) flds))"

definition buildKeyFromValues :: "value list \<Rightarrow> string" where
  "buildKeyFromValues vals =
     (if length vals = 1 then formatValue (vals ! 0) else writeKey 0 vals)"

abbreviation pk_key :: "string list \<Rightarrow> row \<Rightarrow> string" where
  "pk_key pk \<equiv> (\<lambda>r. buildKey r pk)"

section \<open>Facts\<close>

lemma formatValue_Sprint_v: "formatValue v = Sprint_v v"
  by (cases v) simp_all

text \<open>The single-field shortcut computes what the general loop computes.\<close>

lemma buildKeyFromValues_writeKey: "buildKeyFromValues vals = writeKey 0 vals"
  by (cases vals rule: list.exhaust; cases "tl vals") (auto simp: buildKeyFromValues_def)

lemma buildKey_buildKeyFromValues: "buildKey r flds = buildKeyFromValues (map (row_get r) flds)"
  by (simp add: buildKey_def buildKeyFromValues_def)

lemma buildKey_writeKey: "buildKey r flds = writeKey 0 (map (row_get r) flds)"
  by (simp add: buildKey_buildKeyFromValues buildKeyFromValues_writeKey)

lemma writeKey_later: "vs \<noteq> [] \<Longrightarrow> \<exists>rest. writeKey (Suc i) vs = CHR 0x00 # rest"
  by (cases vs) simp_all

lemma nul_split:
  assumes "a @ CHR 0x00 # x = b @ CHR 0x00 # y" and "CHR 0x00 \<notin> set a" and "CHR 0x00 \<notin> set b"
  shows "a = b"
  using assms takeWhile_neq_append by metis

definition nul_free :: "value list \<Rightarrow> bool" where
  "nul_free vs \<longleftrightarrow> (\<forall>v \<in> set vs. CHR 0x00 \<notin> set (formatValue v))"

lemma nul_free_Cons [simp]: "nul_free (v # vs) \<longleftrightarrow> CHR 0x00 \<notin> set (formatValue v) \<and> nul_free vs"
  by (simp add: nul_free_def)

lemma writeKey_inj:
  "length vs = length ws \<Longrightarrow> nul_free vs \<Longrightarrow> nul_free ws \<Longrightarrow> writeKey i vs = writeKey i ws \<Longrightarrow>
   map formatValue vs = map formatValue ws"
proof (induction vs ws arbitrary: i rule: list_induct2)
  case Nil
  then show ?case by simp
next
  case (Cons v vs w ws)
  then have eq: "formatValue v @ writeKey (Suc i) vs = formatValue w @ writeKey (Suc i) ws" by simp
  have head: "formatValue v = formatValue w"
  proof (cases "vs = []")
    case True
    with Cons.hyps eq show ?thesis by simp
  next
    case False
    with Cons.hyps have "ws \<noteq> []" by auto
    with False obtain x y where "writeKey (Suc i) vs = CHR 0x00 # x" "writeKey (Suc i) ws = CHR 0x00 # y"
      using writeKey_later by meson
    with eq have "formatValue v @ CHR 0x00 # x = formatValue w @ CHR 0x00 # y" by (simp only:)
    moreover have "CHR 0x00 \<notin> set (formatValue v)" "CHR 0x00 \<notin> set (formatValue w)"
      using Cons.prems(1,2) unfolding nul_free_Cons by blast+
    ultimately show ?thesis by (rule nul_split)
  qed
  with eq have "writeKey (Suc i) vs = writeKey (Suc i) ws" by simp
  with Cons.IH Cons.prems(1,2) head show ?case by simp
qed

lemma writeKey_cong:
  "length vs = length ws \<Longrightarrow> map formatValue vs = map formatValue ws \<Longrightarrow> writeKey i vs = writeKey i ws"
  by (induction vs ws arbitrary: i rule: list_induct2) simp_all

lemma buildKey_inj:
  assumes "nul_free (map (row_get r) flds)" and "nul_free (map (row_get r') flds)"
  shows "buildKey r flds = buildKey r' flds \<longleftrightarrow>
    (\<forall>f \<in> set flds. formatValue (row_get r f) = formatValue (row_get r' f))"
proof
  assume "buildKey r flds = buildKey r' flds"
  then have "map formatValue (map (row_get r) flds) = map formatValue (map (row_get r') flds)"
    using assms by (intro writeKey_inj) (simp_all add: buildKey_writeKey)
  then show "\<forall>f \<in> set flds. formatValue (row_get r f) = formatValue (row_get r' f)" by simp
next
  assume "\<forall>f \<in> set flds. formatValue (row_get r f) = formatValue (row_get r' f)"
  then show "buildKey r flds = buildKey r' flds"
    unfolding buildKey_writeKey by (intro writeKey_cong) simp_all
qed

text \<open>Two values of one column, which have one Go type, have one key string only if they are equal.\<close>

definition same_key_type :: "value \<Rightarrow> value \<Rightarrow> bool" where
  "same_key_type v w =
     (case v of
        VString _ \<Rightarrow> (case w of VString _ \<Rightarrow> True | _ \<Rightarrow> False)
      | VInt _ \<Rightarrow> (case w of VInt _ \<Rightarrow> True | _ \<Rightarrow> False)
      | VInt64 _ \<Rightarrow> (case w of VInt64 _ \<Rightarrow> True | _ \<Rightarrow> False)
      | VBool _ \<Rightarrow> (case w of VBool _ \<Rightarrow> True | _ \<Rightarrow> False)
      | _ \<Rightarrow> False)"

lemma formatValue_inj:
  "same_key_type v w \<Longrightarrow> formatValue v = formatValue w \<longleftrightarrow> v = w"
  by (cases v; cases w) (auto simp: same_key_type_def FormatBool_def dest: Itoa_inj)

section \<open>Properties\<close>



end
