(* ===== verification/Indexed_Target.thy ===== *)
theory Indexed_Target
  imports Sync_Target Row_Keys
begin

text \<open>
  The indexed in-memory target (\<^verbatim>\<open>IndexedTarget\<close> of \<^verbatim>\<open>target/memory/memory.go\<close>): a store keyed
  by the primary key, an optional unique lookup index and named secondary indexes.  Each secondary
  index is a map of its own, so the loops over \<^verbatim>\<open>t.indexes\<close> act pointwise.  Registered listeners
  are identified by their ids; \<open>it_notified\<close> records each notification with the listeners that
  received it.  The operations are those after \<^verbatim>\<open>OnInit\<close>, which allocates the maps.
\<close>

section \<open>State\<close>

record secondaryIndex =
  si_def :: IndexDefinition
  si_unique :: "string \<rightharpoonup> row"
  si_nonuniq :: "string \<rightharpoonup> row list"

record IndexedTarget =
  lookupFields :: "string list"
  indexDefs :: "IndexDefinition list"
  it_table :: TableIdentifier
  it_columns :: "ColumnDefinition list"
  pkCols :: "string list"
  it_store :: "string \<rightharpoonup> row"
  lookupIndex :: "(string \<rightharpoonup> row) option"
  it_indexes :: "string \<rightharpoonup> secondaryIndex"
  it_listeners :: "nat set"
  it_nextID :: nat
  it_notified :: "(nat set \<times> row option \<times> row option) list"

definition LookupFields :: "string list \<Rightarrow> IndexedTarget \<Rightarrow> IndexedTarget" where
  "LookupFields flds t = t\<lparr>lookupFields := flds\<rparr>"

definition AddIndex :: "IndexDefinition \<Rightarrow> IndexedTarget \<Rightarrow> IndexedTarget" where
  "AddIndex def t = t\<lparr>indexDefs := indexDefs t @ [def]\<rparr>"

definition NewIndexedTarget :: "(IndexedTarget \<Rightarrow> IndexedTarget) list \<Rightarrow> IndexedTarget" where
  "NewIndexedTarget opts =
     foldl (\<lambda>t opt. opt t)
       \<lparr>lookupFields = [], indexDefs = [], it_table = Table [] [], it_columns = [], pkCols = [],
        it_store = Map.empty, lookupIndex = None, it_indexes = Map.empty, it_listeners = {},
        it_nextID = 0, it_notified = []\<rparr> opts"

section \<open>Index maintenance\<close>

definition idx_add :: "row \<Rightarrow> secondaryIndex \<Rightarrow> secondaryIndex" where
  "idx_add r idx =
     (let key = buildKey r (idx_Fields (si_def idx)) in
      if idx_Unique (si_def idx) then idx\<lparr>si_unique := (si_unique idx)(key \<mapsto> r)\<rparr>
      else idx\<lparr>si_nonuniq := (si_nonuniq idx)(key \<mapsto> (case si_nonuniq idx key of None \<Rightarrow> [] | Some rows \<Rightarrow> rows) @ [r])\<rparr>)"

definition addToIndexes :: "row \<Rightarrow> IndexedTarget \<Rightarrow> IndexedTarget" where
  "addToIndexes r t =
     t\<lparr>lookupIndex := map_option (\<lambda>m. m(buildKey r (lookupFields t) \<mapsto> r)) (lookupIndex t),
       it_indexes := (\<lambda>name. map_option (idx_add r) (it_indexes t name))\<rparr>"

definition idx_remove :: "string list \<Rightarrow> row \<Rightarrow> secondaryIndex \<Rightarrow> secondaryIndex" where
  "idx_remove pk r idx =
     (let key = buildKey r (idx_Fields (si_def idx)) in
      if idx_Unique (si_def idx) then idx\<lparr>si_unique := (si_unique idx)(key := None)\<rparr>
      else
        let rows = (case si_nonuniq idx key of None \<Rightarrow> [] | Some rows \<Rightarrow> rows);
            pkKey = buildKey r pk;
            rows = filter (\<lambda>r'. buildKey r' pk \<noteq> pkKey) rows
        in if length rows = 0 then idx\<lparr>si_nonuniq := (si_nonuniq idx)(key := None)\<rparr>
           else idx\<lparr>si_nonuniq := (si_nonuniq idx)(key \<mapsto> rows)\<rparr>)"

definition removeFromIndexes :: "row \<Rightarrow> IndexedTarget \<Rightarrow> IndexedTarget" where
  "removeFromIndexes r t =
     t\<lparr>lookupIndex := map_option (\<lambda>m. m(buildKey r (lookupFields t) := None)) (lookupIndex t),
       it_indexes := (\<lambda>name. map_option (idx_remove (pkCols t) r) (it_indexes t name))\<rparr>"

definition notifyListeners :: "row option \<Rightarrow> row option \<Rightarrow> IndexedTarget \<Rightarrow> IndexedTarget" where
  "notifyListeners old new t = t\<lparr>it_notified := it_notified t @ [(it_listeners t, old, new)]\<rparr>"

definition idx_clear :: "secondaryIndex \<Rightarrow> secondaryIndex" where
  "idx_clear idx =
     (if idx_Unique (si_def idx) then idx\<lparr>si_unique := Map.empty\<rparr> else idx\<lparr>si_nonuniq := Map.empty\<rparr>)"

definition it_clear :: "IndexedTarget \<Rightarrow> IndexedTarget" where
  "it_clear t =
     t\<lparr>it_store := Map.empty, lookupIndex := map_option (\<lambda>_. Map.empty) (lookupIndex t),
       it_indexes := (\<lambda>name. map_option idx_clear (it_indexes t name))\<rparr>"

section \<open>The SyncTarget methods\<close>

text \<open>\<^verbatim>\<open>slices.SortFunc\<close> sorts up to twelve elements by insertion, which is stable; primary key
  ordinals are distinct in a catalog, so the order of equal ordinals does not arise.\<close>

definition pk_columns :: "ColumnDefinition list \<Rightarrow> string list" where
  "pk_columns columns = map Name (sort_key PrimaryKeyOrdinal (filter PrimaryKey columns))"

definition new_index :: "IndexDefinition \<Rightarrow> secondaryIndex" where
  "new_index def = \<lparr>si_def = def, si_unique = Map.empty, si_nonuniq = Map.empty\<rparr>"

definition indexed_OnInit :: "TableIdentifier \<Rightarrow> ColumnDefinition list \<Rightarrow> IndexedTarget call" where
  "indexed_OnInit table columns t =
     (let t = t\<lparr>it_table := table, it_columns := columns, pkCols := pk_columns columns\<rparr>;
          colSet = Name ` set columns
      in case find (\<lambda>f. f \<notin> colSet) (lookupFields t) of
           Some f \<Rightarrow> (Some (Err (''lookup field '' @ f @ '' not found in columns'')), t)
         | None \<Rightarrow>
             (case find (\<lambda>(def, f). f \<notin> colSet)
                     (concat (map (\<lambda>def. map (Pair def) (idx_Fields def)) (indexDefs t))) of
                Some (def, f) \<Rightarrow>
                  (Some (Err (''index '' @ idx_Name def @ '' field '' @ f @ '' not found in columns'')), t)
              | None \<Rightarrow>
                  (None, t\<lparr>it_store := Map.empty,
                           lookupIndex := (if 0 < length (lookupFields t) then Some Map.empty else lookupIndex t),
                           it_indexes := foldl (\<lambda>m def. m(idx_Name def \<mapsto> new_index def)) Map.empty (indexDefs t)\<rparr>)))"

definition indexed_OnBaselineRow :: "clock \<Rightarrow> TableIdentifier \<Rightarrow> row \<Rightarrow> IndexedTarget call" where
  "indexed_OnBaselineRow now tbl r t =
     (let pkKey = buildKey r (pkCols t);
          t = t\<lparr>it_store := (it_store t)(pkKey \<mapsto> r)\<rparr>;
          t = addToIndexes r t
      in (None, notifyListeners None (Some r) t))"

definition indexed_OnBaselineComplete :: "TableIdentifier \<Rightarrow> IndexedTarget call" where
  "indexed_OnBaselineComplete tbl t = (None, t)"

definition indexed_OnInsert :: "clock \<Rightarrow> TableIdentifier \<Rightarrow> row \<Rightarrow> IndexedTarget call" where
  "indexed_OnInsert now tbl r t =
     (let pkKey = buildKey r (pkCols t);
          t = t\<lparr>it_store := (it_store t)(pkKey \<mapsto> r)\<rparr>;
          t = addToIndexes r t
      in (None, notifyListeners None (Some r) t))"

definition indexed_OnUpdate :: "clock \<Rightarrow> TableIdentifier \<Rightarrow> row \<Rightarrow> row \<Rightarrow> IndexedTarget call" where
  "indexed_OnUpdate now tbl r ident t =
     (let oldPK = buildKey ident (pkCols t);
          oldRow = it_store t oldPK;
          t = (case oldRow of
                 Some old \<Rightarrow> (removeFromIndexes old t)\<lparr>it_store := (it_store t)(oldPK := None)\<rparr>
               | None \<Rightarrow> t);
          newPK = buildKey r (pkCols t);
          t = t\<lparr>it_store := (it_store t)(newPK \<mapsto> r)\<rparr>;
          t = addToIndexes r t
      in (None, notifyListeners oldRow (Some r) t))"

definition indexed_OnDelete :: "clock \<Rightarrow> TableIdentifier \<Rightarrow> row \<Rightarrow> IndexedTarget call" where
  "indexed_OnDelete now tbl ident t =
     (let pkKey = buildKey ident (pkCols t) in
      case it_store t pkKey of
        Some old \<Rightarrow>
          (None, notifyListeners (Some old) None
             ((removeFromIndexes old t)\<lparr>it_store := (it_store t)(pkKey := None)\<rparr>))
      | None \<Rightarrow> (None, t))"

definition indexed_OnTruncate :: "clock \<Rightarrow> TableIdentifier \<Rightarrow> IndexedTarget call" where
  "indexed_OnTruncate now tbl t = (None, notifyListeners None None (it_clear t))"

definition indexed_OnSchemaChange ::
    "clock \<Rightarrow> TableIdentifier \<Rightarrow> ColumnDefinition list \<Rightarrow> ColumnDefinition list \<Rightarrow> IndexedTarget \<Rightarrow>
     (SchemaChangeAction \<times> string) \<times> IndexedTarget" where
  "indexed_OnSchemaChange now tbl oldColumns newColumns t =
     (let newSet = Name ` set newColumns;
          allOldPresent = list_all (\<lambda>c. Name c \<in> newSet) oldColumns
      in if allOldPresent \<and> length oldColumns < length newColumns
         then ((SchemaContinue, ''new columns added''), t)
         else ((SchemaReBaseline, ''''), t))"

definition indexed_ExportSnapshot :: "string list \<Rightarrow> IndexedTarget \<Rightarrow> goerror + row list" where
  "indexed_ExportSnapshot order t = Inr (values_of order (it_store t))"

fun it_restore :: "row list \<Rightarrow> IndexedTarget \<Rightarrow> IndexedTarget" where
  "it_restore [] t = t"
| "it_restore (r # rs) t =
     it_restore rs (addToIndexes r (t\<lparr>it_store := (it_store t)(buildKey r (pkCols t) \<mapsto> r)\<rparr>))"

definition indexed_RestoreSnapshot :: "TableSnapshotInfo \<Rightarrow> row list \<Rightarrow> IndexedTarget call" where
  "indexed_RestoreSnapshot info rs t = (None, it_restore rs (it_clear t))"

definition indexed_OnClose :: "TableIdentifier \<Rightarrow> IndexedTarget call" where
  "indexed_OnClose tbl t = (None, t)"

section \<open>Queries and listeners\<close>

definition Lookup :: "value list \<Rightarrow> IndexedTarget \<Rightarrow> row option" where
  "Lookup keyValues t =
     (case lookupIndex t of None \<Rightarrow> None | Some m \<Rightarrow> m (buildKeyFromValues keyValues))"

definition LookupAll :: "string \<Rightarrow> value list \<Rightarrow> IndexedTarget \<Rightarrow> row list" where
  "LookupAll indexName keyValues t =
     (case it_indexes t indexName of
        None \<Rightarrow> []
      | Some idx \<Rightarrow>
          (let key = buildKeyFromValues keyValues in
           if idx_Unique (si_def idx)
           then (case si_unique idx key of None \<Rightarrow> [] | Some r \<Rightarrow> [r])
           else (case si_nonuniq idx key of None \<Rightarrow> [] | Some rows \<Rightarrow> rows)))"

definition indexed_Get :: "value list \<Rightarrow> IndexedTarget \<Rightarrow> row option" where
  "indexed_Get pkValues t = it_store t (buildKeyFromValues pkValues)"

text \<open>The iteration of \<^verbatim>\<open>All\<close> when every \<^verbatim>\<open>yield\<close> returns true.\<close>

definition indexed_All :: "string list \<Rightarrow> IndexedTarget \<Rightarrow> (string \<times> row) list" where
  "indexed_All order t = List.map_filter (\<lambda>k. map_option (Pair k) (it_store t k)) order"

definition indexed_Count :: "IndexedTarget \<Rightarrow> nat" where
  "indexed_Count t = card (dom (it_store t))"

definition indexed_Listen :: "IndexedTarget \<Rightarrow> nat \<times> IndexedTarget" where
  "indexed_Listen t =
     (it_nextID t, t\<lparr>it_nextID := it_nextID t + 1, it_listeners := insert (it_nextID t) (it_listeners t)\<rparr>)"

definition indexed_Unlisten :: "nat \<Rightarrow> IndexedTarget \<Rightarrow> IndexedTarget" where
  "indexed_Unlisten lid t = t\<lparr>it_listeners := it_listeners t - {lid}\<rparr>"

definition IndexedTarget_vt :: "IndexedTarget SyncTarget" where
  "IndexedTarget_vt =
     \<lparr>t_OnInit = indexed_OnInit, t_OnBaselineRow = indexed_OnBaselineRow,
      t_OnBaselineComplete = indexed_OnBaselineComplete, t_OnInsert = indexed_OnInsert,
      t_OnUpdate = indexed_OnUpdate, t_OnDelete = indexed_OnDelete, t_OnTruncate = indexed_OnTruncate,
      t_IsDurable = (\<lambda>_. True), t_OnSchemaChange = indexed_OnSchemaChange,
      t_ExportSnapshot = indexed_ExportSnapshot, t_RestoreSnapshot = indexed_RestoreSnapshot,
      t_SupportsConsistentSnapshot = True, t_OnClose = indexed_OnClose, t_SetChangePosition = None,
      t_Count = Some indexed_Count, t_All = Some indexed_All\<rparr>"

section \<open>What the operations leave unchanged\<close>

lemma addToIndexes_frame [frame_simps]:
  "it_store (addToIndexes r t) = it_store t" "pkCols (addToIndexes r t) = pkCols t"
  "lookupFields (addToIndexes r t) = lookupFields t"
  by (simp_all add: addToIndexes_def)

lemma removeFromIndexes_frame [frame_simps]:
  "it_store (removeFromIndexes r t) = it_store t" "pkCols (removeFromIndexes r t) = pkCols t"
  "lookupFields (removeFromIndexes r t) = lookupFields t"
  by (simp_all add: removeFromIndexes_def)

lemma notifyListeners_frame [frame_simps]:
  "it_store (notifyListeners a b t) = it_store t" "pkCols (notifyListeners a b t) = pkCols t"
  "lookupFields (notifyListeners a b t) = lookupFields t"
  "lookupIndex (notifyListeners a b t) = lookupIndex t"
  "it_indexes (notifyListeners a b t) = it_indexes t"
  by (simp_all add: notifyListeners_def)

lemma it_clear_frame [frame_simps]:
  "it_store (it_clear t) = Map.empty" "pkCols (it_clear t) = pkCols t"
  "lookupFields (it_clear t) = lookupFields t"
  by (simp_all add: it_clear_def)

lemma it_restore_frame [frame_simps]:
  "pkCols (it_restore rs t) = pkCols t" "lookupFields (it_restore rs t) = lookupFields t"
  by (induction rs arbitrary: t) (simp_all add: frame_simps)

lemma it_restore_store:
  "it_store (it_restore rs t) = table_put (\<lambda>r. buildKey r (pkCols t)) rs (it_store t)"
  by (induction rs arbitrary: t) (simp_all add: frame_simps)

section \<open>The store implements a keyed table\<close>

definition it_keyed :: "string list \<Rightarrow> IndexedTarget \<Rightarrow> bool" where
  "it_keyed pk t \<longleftrightarrow> pkCols t = pk \<and> keyed (pk_key pk) (it_store t)"

lemmas indexed_ops = indexed_OnBaselineRow_def indexed_OnBaselineComplete_def indexed_OnInsert_def
  indexed_OnUpdate_def indexed_OnDelete_def indexed_OnTruncate_def indexed_ExportSnapshot_def
  indexed_RestoreSnapshot_def indexed_Count_def

interpretation indexed: rekeying_target IndexedTarget_vt "pk_key pk" it_store "it_keyed pk" for pk
  by unfold_locales
    (auto simp: IndexedTarget_vt_def it_keyed_def indexed_ops Let_def frame_simps it_restore_store
      split: option.split)

section \<open>Index correctness\<close>

text \<open>A unique index holds exactly the stored rows, by their index key.  A non-unique index holds,
  under each key, exactly the stored rows with that key, each once, and no empty buckets.\<close>

definition uniq_ok :: "string list \<Rightarrow> (string \<rightharpoonup> row) \<Rightarrow> (string \<rightharpoonup> row) \<Rightarrow> bool" where
  "uniq_ok flds st m \<longleftrightarrow> (\<forall>k r. m k = Some r \<longleftrightarrow> r \<in> ran st \<and> buildKey r flds = k)"

definition bucket :: "(string \<rightharpoonup> row list) \<Rightarrow> string \<Rightarrow> row list" where
  "bucket n k = (case n k of None \<Rightarrow> [] | Some rows \<Rightarrow> rows)"

definition nonuniq_ok :: "string list \<Rightarrow> (string \<rightharpoonup> row) \<Rightarrow> (string \<rightharpoonup> row list) \<Rightarrow> bool" where
  "nonuniq_ok flds st n \<longleftrightarrow>
     (\<forall>k. set (bucket n k) = {r \<in> ran st. buildKey r flds = k} \<and> distinct (bucket n k) \<and> n k \<noteq> Some [])"

definition index_ok :: "(string \<rightharpoonup> row) \<Rightarrow> secondaryIndex \<Rightarrow> bool" where
  "index_ok st idx \<longleftrightarrow>
     (if idx_Unique (si_def idx) then uniq_ok (idx_Fields (si_def idx)) st (si_unique idx)
      else nonuniq_ok (idx_Fields (si_def idx)) st (si_nonuniq idx))"

definition indexed_inv :: "IndexedTarget \<Rightarrow> bool" where
  "indexed_inv t \<longleftrightarrow>
     finite (dom (it_store t)) \<and> keyed (pk_key (pkCols t)) (it_store t) \<and>
     (\<forall>m. lookupIndex t = Some m \<longrightarrow> uniq_ok (lookupFields t) (it_store t) m) \<and>
     (\<forall>name idx. it_indexes t name = Some idx \<longrightarrow> index_ok (it_store t) idx)"

text \<open>The source's constraints for a new row: its primary key is not stored, and no stored row has
  its lookup key or its key in a unique index.\<close>

definition fresh_in :: "string list \<Rightarrow> row \<Rightarrow> (string \<rightharpoonup> row) \<Rightarrow> bool" where
  "fresh_in flds r st \<longleftrightarrow> (\<forall>r' \<in> ran st. buildKey r' flds \<noteq> buildKey r flds)"

definition may_add :: "row \<Rightarrow> IndexedTarget \<Rightarrow> bool" where
  "may_add r t \<longleftrightarrow>
     it_store t (buildKey r (pkCols t)) = None \<and>
     (lookupIndex t \<noteq> None \<longrightarrow> fresh_in (lookupFields t) r (it_store t)) \<and>
     (\<forall>name idx. it_indexes t name = Some idx \<longrightarrow> idx_Unique (si_def idx) \<longrightarrow>
        fresh_in (idx_Fields (si_def idx)) r (it_store t))"

lemma ran_add: "st k = None \<Longrightarrow> ran (st(k \<mapsto> r)) = insert r (ran st)"
  by (simp add: ran_map_upd)

lemma ran_remove:
  assumes "keyed key st" and "st k = Some r"
  shows "ran (st(k := None)) = ran st - {r}"
proof
  show "ran (st(k := None)) \<subseteq> ran st - {r}"
    using assms by (auto simp: ran_def split: if_splits dest: keyedD)
  show "ran st - {r} \<subseteq> ran (st(k := None))"
  proof
    fix x
    assume "x \<in> ran st - {r}"
    then obtain j where "st j = Some x" "x \<noteq> r" by (auto simp: ran_def)
    with assms(2) have "(st(k := None)) j = Some x" by auto
    then show "x \<in> ran (st(k := None))" by (rule ranI)
  qed
qed

lemma uniq_ok_add:
  "uniq_ok flds st m \<Longrightarrow> st k = None \<Longrightarrow> fresh_in flds r st \<Longrightarrow>
   uniq_ok flds (st(k \<mapsto> r)) (m(buildKey r flds \<mapsto> r))"
  by (auto simp: uniq_ok_def fresh_in_def ran_add)

lemma uniq_ok_remove:
  assumes "uniq_ok flds st m" and "keyed key st" and "st k = Some r"
  shows "uniq_ok flds (st(k := None)) (m(buildKey r flds := None))"
proof -
  have "r \<in> ran st" using assms(3) by (auto simp: ran_def)
  with assms(1) have only: "r' \<in> ran st \<Longrightarrow> buildKey r' flds = buildKey r flds \<Longrightarrow> r' = r" for r'
    unfolding uniq_ok_def by (metis option.inject)
  with assms show ?thesis by (auto simp: uniq_ok_def ran_remove)
qed

lemma bucket_upd [simp]: "bucket (n(k := x)) k' = (if k' = k then (case x of None \<Rightarrow> [] | Some rows \<Rightarrow> rows) else bucket n k')"
  by (simp add: bucket_def)

lemma nonuniq_ok_add:
  "nonuniq_ok flds st n \<Longrightarrow> keyed (pk_key pk) st \<Longrightarrow> st (buildKey r pk) = None \<Longrightarrow>
   nonuniq_ok flds (st(buildKey r pk \<mapsto> r)) (n(buildKey r flds \<mapsto> bucket n (buildKey r flds) @ [r]))"
  by (auto simp: nonuniq_ok_def ran_add dest: keyedD) (auto simp: ran_def dest: keyedD)

lemma nonuniq_ok_remove:
  assumes ok: "nonuniq_ok flds st n" and keyed: "keyed (pk_key pk) st" and r: "st (buildKey r pk) = Some r"
  defines "rows \<equiv> filter (\<lambda>r'. buildKey r' pk \<noteq> buildKey r pk) (bucket n (buildKey r flds))"
  shows "nonuniq_ok flds (st(buildKey r pk := None))
    (n(buildKey r flds := (if rows = [] then None else Some rows)))"
proof -
  have key: "r' \<in> ran st \<Longrightarrow> buildKey r' pk = buildKey r pk \<longleftrightarrow> r' = r" for r'
    using keyed r by (auto simp: ran_def dest: keyedD)
  have "set rows = {r' \<in> ran st - {r}. buildKey r' flds = buildKey r flds}" "distinct rows"
    using ok key by (auto simp: nonuniq_ok_def rows_def)
  then show ?thesis
    using ok ran_remove [OF keyed r] by (auto simp: nonuniq_ok_def split: if_splits)
qed

lemma index_ok_add:
  assumes "index_ok st idx" and "keyed (pk_key pk) st" and "st (buildKey r pk) = None"
    and "idx_Unique (si_def idx) \<Longrightarrow> fresh_in (idx_Fields (si_def idx)) r st"
  shows "index_ok (st(buildKey r pk \<mapsto> r)) (idx_add r idx)"
  using assms uniq_ok_add nonuniq_ok_add
  by (auto simp: index_ok_def idx_add_def Let_def bucket_def [symmetric])

lemma index_ok_remove:
  assumes "index_ok st idx" and "keyed (pk_key pk) st" and "st (buildKey r pk) = Some r"
  shows "index_ok (st(buildKey r pk := None)) (idx_remove pk r idx)"
  using assms uniq_ok_remove nonuniq_ok_remove [of "idx_Fields (si_def idx)" st "si_nonuniq idx" pk r]
  by (auto simp: index_ok_def idx_remove_def Let_def bucket_def [symmetric] split: if_splits)

lemma index_ok_clear: "index_ok Map.empty (idx_clear idx)"
  by (simp add: index_ok_def idx_clear_def uniq_ok_def nonuniq_ok_def bucket_def)

section \<open>Every operation keeps the indexes exact\<close>

definition it_add :: "row \<Rightarrow> IndexedTarget \<Rightarrow> IndexedTarget" where
  "it_add r t = addToIndexes r (t\<lparr>it_store := (it_store t)(buildKey r (pkCols t) \<mapsto> r)\<rparr>)"

definition it_del :: "string \<Rightarrow> IndexedTarget \<Rightarrow> IndexedTarget" where
  "it_del k t =
     (case it_store t k of
        Some old \<Rightarrow> (removeFromIndexes old t)\<lparr>it_store := (it_store t)(k := None)\<rparr>
      | None \<Rightarrow> t)"

lemma it_add_inv:
  assumes "indexed_inv t" and "may_add r t"
  shows "indexed_inv (it_add r t)"
  using assms index_ok_add [of "it_store t" _ "pkCols t" r]
  by (auto simp: indexed_inv_def may_add_def it_add_def addToIndexes_def uniq_ok_add)

lemma it_del_inv:
  assumes "indexed_inv t"
  shows "indexed_inv (it_del k t)"
proof (cases "it_store t k")
  case (Some old)
  then have "k = buildKey old (pkCols t)" using assms by (auto simp: indexed_inv_def dest: keyedD)
  with assms Some show ?thesis
    using index_ok_remove [of "it_store t" _ "pkCols t" old]
    by (auto simp: indexed_inv_def it_del_def removeFromIndexes_def intro: uniq_ok_remove)
qed (use assms in \<open>simp add: it_del_def\<close>)

lemma it_clear_inv: "indexed_inv (it_clear t)"
  by (auto simp: indexed_inv_def it_clear_def index_ok_clear uniq_ok_def)

lemma indexed_inv_notify [simp]: "indexed_inv (notifyListeners a b t) = indexed_inv t"
  by (simp add: indexed_inv_def frame_simps)

lemma indexed_OnInsert_it_add: "snd (indexed_OnInsert now tbl r t) = notifyListeners None (Some r) (it_add r t)"
  by (simp add: indexed_OnInsert_def it_add_def Let_def)

lemma indexed_OnBaselineRow_it_add:
  "snd (indexed_OnBaselineRow now tbl r t) = notifyListeners None (Some r) (it_add r t)"
  by (simp add: indexed_OnBaselineRow_def it_add_def Let_def)

lemma indexed_OnUpdate_it_del:
  "snd (indexed_OnUpdate now tbl r ident t) =
     notifyListeners (it_store t (buildKey ident (pkCols t))) (Some r)
       (it_add r (it_del (buildKey ident (pkCols t)) t))"
  by (simp add: indexed_OnUpdate_def it_add_def it_del_def Let_def frame_simps split: option.split)

lemma indexed_OnDelete_it_del:
  "indexed_inv (snd (indexed_OnDelete now tbl ident t)) = indexed_inv (it_del (buildKey ident (pkCols t)) t)"
  by (simp add: indexed_OnDelete_def it_del_def Let_def split: option.split)

fun may_add_all :: "row list \<Rightarrow> IndexedTarget \<Rightarrow> bool" where
  "may_add_all [] t = True"
| "may_add_all (r # rs) t = (may_add r t \<and> may_add_all rs (it_add r t))"

lemma it_restore_inv: "indexed_inv t \<Longrightarrow> may_add_all rs t \<Longrightarrow> indexed_inv (it_restore rs t)"
  by (induction rs arbitrary: t) (simp_all add: it_add_def [symmetric] it_add_inv)

section \<open>Reachable targets\<close>

definition indexed_option :: "(IndexedTarget \<Rightarrow> IndexedTarget) \<Rightarrow> bool" where
  "indexed_option opt \<longleftrightarrow> (\<exists>flds. opt = LookupFields flds) \<or> (\<exists>def. opt = AddIndex def)"

text \<open>The targets that a sequence of calls produces when each new row respects the source's key
  constraints: an insert brings a new primary key, an update may change it to a new one.\<close>

inductive indexed_reach :: "IndexedTarget \<Rightarrow> bool" where
  init: "list_all indexed_option opts \<Longrightarrow>
    indexed_OnInit tbl cols (NewIndexedTarget opts) = (None, t) \<Longrightarrow> indexed_reach t"
| baseline: "indexed_reach t \<Longrightarrow> may_add r t \<Longrightarrow> indexed_reach (snd (indexed_OnBaselineRow now tbl r t))"
| "insert": "indexed_reach t \<Longrightarrow> may_add r t \<Longrightarrow> indexed_reach (snd (indexed_OnInsert now tbl r t))"
| "update": "indexed_reach t \<Longrightarrow> may_add r (it_del (buildKey ident (pkCols t)) t) \<Longrightarrow>
    indexed_reach (snd (indexed_OnUpdate now tbl r ident t))"
| delete: "indexed_reach t \<Longrightarrow> indexed_reach (snd (indexed_OnDelete now tbl ident t))"
| truncate: "indexed_reach t \<Longrightarrow> indexed_reach (snd (indexed_OnTruncate now tbl t))"
| restore: "indexed_reach t \<Longrightarrow> may_add_all rs (it_clear t) \<Longrightarrow>
    indexed_reach (snd (indexed_RestoreSnapshot info rs t))"
| listen: "indexed_reach t \<Longrightarrow> indexed_reach (snd (indexed_Listen t))"
| unlisten: "indexed_reach t \<Longrightarrow> indexed_reach (indexed_Unlisten lid t)"

lemma NewIndexedTarget_no_lookup:
  assumes "list_all indexed_option opts"
  shows "lookupIndex (NewIndexedTarget opts) = None"
proof -
  have "list_all indexed_option opts \<Longrightarrow> lookupIndex t = None \<Longrightarrow>
      lookupIndex (foldl (\<lambda>t opt. opt t) t opts) = None" for t
    by (induction opts arbitrary: t) (auto simp: indexed_option_def LookupFields_def AddIndex_def)
  with assms show ?thesis by (simp add: NewIndexedTarget_def)
qed

lemma new_indexes:
  assumes "foldl (\<lambda>m def. m(idx_Name def \<mapsto> new_index def)) m defs name = Some idx"
  shows "m name = Some idx \<or> (\<exists>def. idx = new_index def)"
  using assms by (induction defs arbitrary: m) (fastforce split: if_splits)+

lemma index_ok_new: "index_ok Map.empty (new_index def)"
  by (simp add: index_ok_def new_index_def uniq_ok_def nonuniq_ok_def bucket_def)

lemma new_indexes_ok:
  "foldl (\<lambda>m def. m(idx_Name def \<mapsto> new_index def)) Map.empty defs name = Some idx \<Longrightarrow> index_ok Map.empty idx"
  using new_indexes index_ok_new by fastforce

lemma indexed_OnInit_inv:
  assumes "indexed_OnInit tbl cols t0 = (None, t)" and "lookupIndex t0 = None"
  shows "indexed_inv t"
  using assms
  by (auto simp: indexed_OnInit_def indexed_inv_def Let_def uniq_ok_def dest: new_indexes_ok
      split: option.splits if_splits prod.splits)

lemma indexed_reach_inv: "indexed_reach t \<Longrightarrow> indexed_inv t"
proof (induction rule: indexed_reach.induct)
  case (init opts tbl cols t)
  then show ?case using NewIndexedTarget_no_lookup indexed_OnInit_inv by blast
next
  case (delete t now tbl ident)
  then show ?case by (simp add: indexed_OnDelete_it_del it_del_inv)
next
  case (restore t rs info)
  then show ?case by (simp add: indexed_RestoreSnapshot_def it_restore_inv it_clear_inv)
qed (auto simp: indexed_OnBaselineRow_it_add indexed_OnInsert_it_add indexed_OnUpdate_it_del
    indexed_OnTruncate_def it_clear_inv it_add_inv it_del_inv,
  auto simp: indexed_Listen_def indexed_Unlisten_def indexed_inv_def)

lemma LookupAll_bucket:
  assumes "indexed_inv t" and "it_indexes t name = Some idx"
  shows "distinct (LookupAll name vals t) \<and>
    set (LookupAll name vals t) =
      {r \<in> ran (it_store t). buildKey r (idx_Fields (si_def idx)) = buildKeyFromValues vals}"
proof -
  have ok: "index_ok (it_store t) idx" using assms by (simp add: indexed_inv_def)
  show ?thesis
  proof (cases "idx_Unique (si_def idx)")
    case True
    have single: "distinct (case x of None \<Rightarrow> [] | Some r \<Rightarrow> [r]) \<and>
        set (case x of None \<Rightarrow> [] | Some r \<Rightarrow> [r]) = {r. x = Some r}" for x :: "row option"
      by (cases x) auto
    from True ok have "{r. si_unique idx k = Some r} = {r \<in> ran (it_store t). buildKey r (idx_Fields (si_def idx)) = k}" for k
      by (auto simp: index_ok_def uniq_ok_def)
    with True assms(2) single show ?thesis by (simp add: LookupAll_def)
  next
    case False
    with assms(2) have "LookupAll name vals t = bucket (si_nonuniq idx) (buildKeyFromValues vals)"
      by (simp add: LookupAll_def bucket_def)
    with False ok show ?thesis by (simp add: index_ok_def nonuniq_ok_def)
  qed
qed

section \<open>Snapshots\<close>

definition same_config :: "IndexedTarget \<Rightarrow> IndexedTarget \<Rightarrow> bool" where
  "same_config t t' \<longleftrightarrow> pkCols t = pkCols t' \<and> lookupFields t = lookupFields t' \<and>
     (lookupIndex t = None \<longleftrightarrow> lookupIndex t' = None) \<and>
     (\<forall>name. map_option si_def (it_indexes t name) = map_option si_def (it_indexes t' name))"

lemma idx_add_def_frame [frame_simps]: "si_def (idx_add r idx) = si_def idx"
  by (simp add: idx_add_def Let_def)

lemma idx_clear_frame [frame_simps]: "si_def (idx_clear idx) = si_def idx"
  by (simp add: idx_clear_def)

lemma same_config_it_add: "same_config t t' \<Longrightarrow> same_config t (it_add r t')"
  by (simp add: same_config_def it_add_def addToIndexes_def option.map_comp comp_def frame_simps)

lemma same_config_it_clear: "same_config t t' \<Longrightarrow> same_config t (it_clear t')"
  by (simp add: same_config_def it_clear_def option.map_comp comp_def frame_simps)

lemma uniq_ok_fresh:
  assumes "uniq_ok flds st m" and "st' \<subseteq>\<^sub>m st" and "r \<in> ran st" and "r \<notin> ran st'"
  shows "fresh_in flds r st'"
  unfolding fresh_in_def
proof (intro ballI notI)
  fix r' assume r': "r' \<in> ran st'" "buildKey r' flds = buildKey r flds"
  with assms(2) have "r' \<in> ran st" by (auto simp: ran_def map_le_def dom_def) metis
  with assms(1,3) r'(2) have "r' = r" unfolding uniq_ok_def by (metis option.inject)
  with r'(1) assms(4) show False by simp
qed

lemma same_config_may_add:
  assumes inv: "indexed_inv t" and conf: "same_config t t'" and sub: "it_store t' \<subseteq>\<^sub>m it_store t"
    and r: "r \<in> ran (it_store t)" and new: "it_store t' (buildKey r (pkCols t)) = None"
  shows "may_add r t'"
proof -
  have out: "r \<notin> ran (it_store t')"
  proof
    assume "r \<in> ran (it_store t')"
    then obtain k where k: "it_store t' k = Some r" by (auto simp: ran_def)
    with sub have "it_store t k = Some r" by (metis domI map_le_def)
    with inv have "buildKey r (pkCols t) = k" by (auto simp: indexed_inv_def dest: keyedD)
    with k new show False by simp
  qed
  have "fresh_in (lookupFields t') r (it_store t')" if "lookupIndex t' \<noteq> None"
    using that conf inv uniq_ok_fresh [OF _ sub r out] by (auto simp: same_config_def indexed_inv_def)
  moreover have "fresh_in (idx_Fields (si_def idx)) r (it_store t')"
    if "it_indexes t' name = Some idx" "idx_Unique (si_def idx)" for name idx
  proof -
    have "map_option si_def (it_indexes t name) = Some (si_def idx)"
      using conf that(1) by (simp add: same_config_def)
    then obtain idx' where idx': "it_indexes t name = Some idx'" "si_def idx' = si_def idx" by auto
    with inv have "index_ok (it_store t) idx'" by (simp add: indexed_inv_def)
    with that(2) idx'(2) have "uniq_ok (idx_Fields (si_def idx)) (it_store t) (si_unique idx')"
      by (simp add: index_ok_def)
    then show ?thesis using sub r out by (rule uniq_ok_fresh)
  qed
  ultimately show ?thesis using new conf by (auto simp: may_add_def same_config_def)
qed

lemma same_config_may_add_all:
  assumes inv: "indexed_inv t"
  shows "same_config t t' \<Longrightarrow> it_store t' \<subseteq>\<^sub>m it_store t \<Longrightarrow> set rs \<subseteq> ran (it_store t) \<Longrightarrow>
    distinct (map (pk_key (pkCols t)) rs) \<Longrightarrow>
    (\<forall>r \<in> set rs. it_store t' (buildKey r (pkCols t)) = None) \<Longrightarrow> may_add_all rs t'"
proof (induction rs arbitrary: t')
  case (Cons r rs)
  have pk: "pkCols t' = pkCols t" using Cons.prems(1) by (simp add: same_config_def)
  have "it_store t (buildKey r (pkCols t)) = Some r"
    using Cons.prems(3) inv by (auto simp: ran_def indexed_inv_def dest: keyedD)
  then have "it_store (it_add r t') \<subseteq>\<^sub>m it_store t"
    using Cons.prems(2) pk by (auto simp: it_add_def frame_simps map_le_def)
  moreover have "\<forall>r' \<in> set rs. it_store (it_add r t') (buildKey r' (pkCols t)) = None"
    using Cons.prems(4,5) pk by (simp add: it_add_def frame_simps) (metis imageI)
  ultimately have "may_add_all rs (it_add r t')"
    using Cons.IH [of "it_add r t'"] Cons.prems same_config_it_add by simp
  then show ?case using Cons.prems same_config_may_add [OF inv] by simp
qed simp

lemma indexed_restore_export:
  assumes inv: "indexed_inv t" and conf: "same_config t t'" and order: "iter_order order (it_store t)"
  shows "indexed_inv (it_restore (values_of order (it_store t)) (it_clear t')) \<and>
    it_store (it_restore (values_of order (it_store t)) (it_clear t')) = it_store t"
proof
  have pk: "pkCols t' = pkCols t" using conf by (simp add: same_config_def)
  have keyed: "keyed (pk_key (pkCols t)) (it_store t)" using inv by (simp add: indexed_inv_def)
  have "may_add_all (values_of order (it_store t)) (it_clear t')"
    by (rule same_config_may_add_all [OF inv])
      (use conf order keyed in \<open>auto simp: same_config_it_clear frame_simps values_of_ran
         map_key_values_of iter_order_set iter_order_distinct\<close>)
  then show "indexed_inv (it_restore (values_of order (it_store t)) (it_clear t'))"
    by (simp add: it_restore_inv it_clear_inv)
  show "it_store (it_restore (values_of order (it_store t)) (it_clear t')) = it_store t"
    using keyed order pk by (simp add: it_restore_store frame_simps table_put_values_of)
qed

section \<open>Listeners\<close>

text \<open>The calls that notify listeners, and a listener's mirror of the table: it applies each
  notification to a map of its own.\<close>

datatype indexed_call =
  CallBaselineRow row | CallInsert row | CallUpdate row row | CallDelete row | CallTruncate

fun indexed_do :: "clock \<Rightarrow> TableIdentifier \<Rightarrow> indexed_call \<Rightarrow> IndexedTarget \<Rightarrow> IndexedTarget" where
  "indexed_do now tbl (CallBaselineRow r) t = snd (indexed_OnBaselineRow now tbl r t)"
| "indexed_do now tbl (CallInsert r) t = snd (indexed_OnInsert now tbl r t)"
| "indexed_do now tbl (CallUpdate r ident) t = snd (indexed_OnUpdate now tbl r ident t)"
| "indexed_do now tbl (CallDelete ident) t = snd (indexed_OnDelete now tbl ident t)"
| "indexed_do now tbl CallTruncate t = snd (indexed_OnTruncate now tbl t)"

fun mirror :: "string list \<Rightarrow> (string \<rightharpoonup> row) \<Rightarrow> nat set \<times> row option \<times> row option \<Rightarrow> (string \<rightharpoonup> row)" where
  "mirror pk m (ids, None, None) = Map.empty"
| "mirror pk m (ids, None, Some new) = m(buildKey new pk \<mapsto> new)"
| "mirror pk m (ids, Some old, None) = m(buildKey old pk := None)"
| "mirror pk m (ids, Some old, Some new) = m(buildKey old pk := None, buildKey new pk \<mapsto> new)"

lemma indexed_do_pkCols [frame_simps]: "pkCols (indexed_do now tbl c t) = pkCols t"
  by (cases c) (simp_all add: indexed_ops Let_def frame_simps split: option.split)

lemma indexed_do_keyed:
  "keyed (pk_key (pkCols t)) (it_store t) \<Longrightarrow> keyed (pk_key (pkCols t)) (it_store (indexed_do now tbl c t))"
  by (cases c) (auto simp: indexed_ops Let_def frame_simps split: option.split)

lemma indexed_do_notified:
  assumes "keyed (pk_key (pkCols t)) (it_store t)"
  shows "\<exists>log. it_notified (indexed_do now tbl c t) = it_notified t @ log \<and>
    foldl (mirror (pkCols t)) (it_store t) log = it_store (indexed_do now tbl c t)"
proof (cases c)
  case (CallUpdate r ident)
  then show ?thesis
    using assms
    by (auto simp: indexed_ops Let_def notifyListeners_def addToIndexes_def removeFromIndexes_def fun_upd_idem
        dest: keyedD split: option.split)
next
  case (CallDelete ident)
  then show ?thesis
    using assms
    by (auto simp: indexed_ops Let_def notifyListeners_def addToIndexes_def removeFromIndexes_def
        dest: keyedD split: option.split)
qed (auto simp: indexed_ops Let_def notifyListeners_def addToIndexes_def it_clear_def)

lemma indexed_run_notified:
  "keyed (pk_key (pkCols t)) (it_store t) \<Longrightarrow>
   \<exists>log. it_notified (foldl (\<lambda>t c. indexed_do now tbl c t) t cs) = it_notified t @ log \<and>
     foldl (mirror (pkCols t)) (it_store t) log = it_store (foldl (\<lambda>t c. indexed_do now tbl c t) t cs)"
proof (induction cs arbitrary: t)
  case (Cons c cs)
  obtain log where log: "it_notified (indexed_do now tbl c t) = it_notified t @ log"
      "foldl (mirror (pkCols t)) (it_store t) log = it_store (indexed_do now tbl c t)"
    using indexed_do_notified [OF Cons.prems] by blast
  have keyed: "keyed (pk_key (pkCols (indexed_do now tbl c t))) (it_store (indexed_do now tbl c t))"
    using indexed_do_keyed [OF Cons.prems] by (simp add: frame_simps)
  from Cons.IH [OF keyed] obtain log' where
      "it_notified (foldl (\<lambda>t c. indexed_do now tbl c t) (indexed_do now tbl c t) cs) =
         it_notified (indexed_do now tbl c t) @ log'"
      "foldl (mirror (pkCols t)) (it_store (indexed_do now tbl c t)) log' =
         it_store (foldl (\<lambda>t c. indexed_do now tbl c t) (indexed_do now tbl c t) cs)"
    by (auto simp: frame_simps)
  with log show ?case by (intro exI [of _ "log @ log'"]) simp
qed simp

section \<open>Properties\<close>

text \<open>C12: Index queries are exact.  In every target that a sequence of calls produces from a fresh
  one, as long as new rows respect the primary, lookup and unique keys, \<^verbatim>\<open>Lookup\<close> finds a row
  exactly when a stored row has that lookup key, and \<^verbatim>\<open>LookupAll\<close> on a secondary index returns
  exactly the stored rows with that index key, each once, whatever inserts, updates (also of the
  primary key), deletes, truncates and restores came before.\<close>
theorem indexed_queries_exact:
  assumes "indexed_reach t"
  shows "(lookupIndex t \<noteq> None \<longrightarrow>
      (\<forall>r. Lookup vals t = Some r \<longleftrightarrow>
         r \<in> ran (it_store t) \<and> buildKey r (lookupFields t) = buildKeyFromValues vals)) \<and>
    (\<forall>name idx. it_indexes t name = Some idx \<longrightarrow>
      distinct (LookupAll name vals t) \<and>
      set (LookupAll name vals t) =
        {r \<in> ran (it_store t). buildKey r (idx_Fields (si_def idx)) = buildKeyFromValues vals})"
proof -
  have inv: "indexed_inv t" using assms by (rule indexed_reach_inv)
  then show ?thesis
    using LookupAll_bucket [OF inv] by (auto simp: Lookup_def indexed_inv_def uniq_ok_def)
qed

definition ex_cols :: "ColumnDefinition list" where
  "ex_cols =
     [\<lparr>Name = ''id'', Type = ''int8'', Nullable = False, PrimaryKey = True, OrdinalPosition = 1,
       PrimaryKeyOrdinal = 1, DefaultValue = None, MaxLength = 0, TypeOID = 20\<rparr>,
      \<lparr>Name = ''x'', Type = ''int8'', Nullable = True, PrimaryKey = False, OrdinalPosition = 2,
       PrimaryKeyOrdinal = 0, DefaultValue = None, MaxLength = 0, TypeOID = 20\<rparr>]"

definition ex_target :: IndexedTarget where
  "ex_target = snd (indexed_OnInit (Table ''public'' ''t'') ex_cols
     (NewIndexedTarget [AddIndex \<lparr>idx_Name = ''by_x'', idx_Fields = [''x''], idx_Unique = False\<rparr>]))"

definition ex_row :: row where
  "ex_row = [''id'' \<mapsto> VInt64 1, ''x'' \<mapsto> VInt64 7]"

definition ex_info :: TableSnapshotInfo where
  "ex_info = \<lparr>tsi_Table = Table ''public'' ''t'', tsi_RowCount = 1, tsi_Columns = ex_cols,
     tsi_TargetType = [], tsi_Indexes = []\<rparr>"

lemmas ex_target_defs = ex_target_def ex_cols_def ex_row_def indexed_OnInit_def NewIndexedTarget_def
  AddIndex_def pk_columns_def new_index_def

lemma ex_target_init:
  "indexed_OnInit (Table ''public'' ''t'') ex_cols
     (NewIndexedTarget [AddIndex \<lparr>idx_Name = ''by_x'', idx_Fields = [''x''], idx_Unique = False\<rparr>]) =
   (None, ex_target)"
  by (simp add: ex_target_defs Let_def)

lemma ex_target_fields:
  "it_store ex_target = Map.empty" "lookupIndex ex_target = None" "pkCols ex_target = [''id'']"
  "it_indexes ex_target = [''by_x'' \<mapsto> new_index \<lparr>idx_Name = ''by_x'', idx_Fields = [''x''], idx_Unique = False\<rparr>]"
  by (simp_all add: ex_target_defs Let_def)

lemma ex_target_reach: "indexed_reach (snd (indexed_OnInsert now tbl ex_row ex_target))"
proof (rule indexed_reach.insert)
  show "indexed_reach ex_target"
    using ex_target_init by (rule indexed_reach.init [rotated]) (auto simp: indexed_option_def)
  show "may_add ex_row ex_target"
    by (simp add: may_add_def ex_target_fields new_index_def)
qed

theorem indexed_queries_exact_witness:
  "ex_row \<in> set (LookupAll ''by_x'' [VInt64 7] (snd (indexed_OnInsert (\<lambda>_. 0) (Table ''public'' ''t'') ex_row ex_target)))"
proof -
  let ?t = "snd (indexed_OnInsert (\<lambda>_. 0) (Table ''public'' ''t'') ex_row ex_target)"
  have "it_store ?t (buildKey ex_row [''id'']) = Some ex_row"
    by (simp add: indexed_OnInsert_it_add it_add_def frame_simps ex_target_fields)
  then have "ex_row \<in> ran (it_store ?t)" by (rule ranI)
  moreover have "\<exists>idx. it_indexes ?t ''by_x'' = Some idx \<and> idx_Fields (si_def idx) = [''x'']"
    by (simp add: indexed_OnInsert_it_add it_add_def addToIndexes_def frame_simps ex_target_fields new_index_def)
  moreover have "buildKey ex_row [''x''] = buildKeyFromValues [VInt64 7]"
    by (simp add: buildKey_def buildKeyFromValues_def ex_row_def row_get_def)
  ultimately show ?thesis
    using indexed_queries_exact [OF ex_target_reach [of "\<lambda>_. 0" "Table ''public'' ''t''"], of "[VInt64 7]"] by auto
qed

text \<open>C13: A snapshot round trip restores an indexed target completely: restoring the export of a
  reachable target, in whatever order the runtime lists the rows, into any target with the same
  configuration gives the same store, and exact lookup and secondary indexes over it, whatever the
  second target held before.\<close>
theorem indexed_snapshot_roundtrip:
  assumes "indexed_reach t" and "same_config t t'" and "iter_order order (it_store t)"
    and "indexed_ExportSnapshot order t = Inr rs"
    and "indexed_RestoreSnapshot info rs t' = (err, t'')"
  shows "err = None \<and> it_store t'' = it_store t \<and> indexed_inv t''"
  using assms indexed_restore_export [OF indexed_reach_inv]
  by (auto simp: indexed_ExportSnapshot_def indexed_RestoreSnapshot_def)

theorem indexed_snapshot_roundtrip_witness:
  "it_store (snd (indexed_RestoreSnapshot ex_info
      [ex_row] (snd (indexed_OnInit (Table ''public'' ''t'') ex_cols ex_target)))) = [''1'' \<mapsto> ex_row]"
proof -
  let ?t = "snd (indexed_OnInsert (\<lambda>_. 0) (Table ''public'' ''t'') ex_row ex_target)"
    and ?t' = "snd (indexed_OnInit (Table ''public'' ''t'') ex_cols ex_target)"
  have key: "buildKey ex_row [''id''] = ''1''" by code_simp
  then have st: "it_store ?t = [''1'' \<mapsto> ex_row]"
    by (simp add: indexed_OnInsert_it_add it_add_def frame_simps ex_target_fields)
  have conf: "same_config ?t ?t'"
    by (simp add: same_config_def indexed_OnInsert_it_add it_add_def addToIndexes_def notifyListeners_def
        idx_add_def ex_target_defs Let_def)
  have order: "iter_order [''1''] (it_store ?t)" by (simp add: st iter_order_def)
  show ?thesis
    using indexed_snapshot_roundtrip [OF ex_target_reach conf order _ surjective_pairing, of _ ex_info] st
    by (simp add: indexed_ExportSnapshot_def)
qed

text \<open>C32: A row delivered again under a stored primary key, as a second baseline without a truncate
  does, stays correct in the store but is appended once more to every non-unique index: the query
  by its key returns it twice.\<close>
theorem indexed_redelivery_duplicates:
  assumes "indexed_reach t" and "it_store t (buildKey r (pkCols t)) = Some r"
    and "it_indexes t name = Some idx" and "\<not> idx_Unique (si_def idx)"
  shows "it_store (snd (indexed_OnBaselineRow now tbl r t)) = it_store t \<and>
    \<not> distinct (LookupAll name (map (row_get r) (idx_Fields (si_def idx))) (snd (indexed_OnBaselineRow now tbl r t)))"
proof -
  let ?vals = "map (row_get r) (idx_Fields (si_def idx))"
  have "r \<in> set (LookupAll name ?vals t)"
    using LookupAll_bucket [OF indexed_reach_inv [OF assms(1)] assms(3), of ?vals] assms(2)
    by (auto simp: buildKey_buildKeyFromValues ran_def)
  moreover have "LookupAll name ?vals (snd (indexed_OnBaselineRow now tbl r t)) = LookupAll name ?vals t @ [r]"
    using assms(3,4)
    by (simp add: LookupAll_def indexed_OnBaselineRow_it_add it_add_def addToIndexes_def frame_simps
        idx_add_def buildKey_buildKeyFromValues [symmetric])
  ultimately show ?thesis
    using assms(2) by (simp add: indexed_OnBaselineRow_it_add it_add_def frame_simps fun_upd_idem)
qed

theorem indexed_redelivery_duplicates_witness:
  "\<not> distinct (LookupAll ''by_x'' [VInt64 7]
     (snd (indexed_OnBaselineRow (\<lambda>_. 0) (Table ''public'' ''t'') ex_row
       (snd (indexed_OnInsert (\<lambda>_. 0) (Table ''public'' ''t'') ex_row ex_target)))))"
proof -
  let ?t = "snd (indexed_OnInsert (\<lambda>_. 0) (Table ''public'' ''t'') ex_row ex_target)"
  have st: "it_store ?t (buildKey ex_row (pkCols ?t)) = Some ex_row"
    by (simp add: indexed_OnInsert_it_add it_add_def frame_simps ex_target_fields)
  obtain idx where idx: "it_indexes ?t ''by_x'' = Some idx" "idx_Fields (si_def idx) = [''x'']"
      "\<not> idx_Unique (si_def idx)"
    by (simp add: indexed_OnInsert_it_add it_add_def addToIndexes_def frame_simps ex_target_fields
        new_index_def idx_add_def)
  have "map (row_get ex_row) [''x''] = [VInt64 7]" by (simp add: ex_row_def row_get_def)
  with idx show ?thesis
    using indexed_redelivery_duplicates [OF ex_target_reach st idx(1,3)] by simp
qed



end
