(* ===== verification/Compiled_Target.thy ===== *)
theory Compiled_Target
  imports Sync_Target Row_Keys
begin

text \<open>
  The compiled in-memory target (\<^verbatim>\<open>CompiledTarget\<close> of \<^verbatim>\<open>target/memory/memory.go\<close>): rows are
  turned into domain objects of type \<open>'c\<close> by the user's compiler function, which may fail, and an
  optional filter may reject them.  Listeners are identified by their ids and \<open>ct_notified\<close>
  records the notifications.
\<close>

section \<open>State\<close>

record 'c compiledEntry =
  compiled :: 'c
  ce_row :: row

record 'c CompiledTarget =
  compiler :: "row \<Rightarrow> goerror + 'c"
  keyFields :: "string list"
  ct_filter :: "(row \<Rightarrow> bool) option"
  ct_table :: TableIdentifier
  ct_columns :: "ColumnDefinition list"
  ct_store :: "string \<rightharpoonup> 'c compiledEntry"
  ct_listeners :: "nat set"
  ct_nextID :: nat
  ct_notified :: "(nat set \<times> 'c option \<times> 'c option) list"

definition Compiler :: "(row \<Rightarrow> goerror + 'c) \<Rightarrow> 'c CompiledTarget \<Rightarrow> 'c CompiledTarget" where
  "Compiler fn t = t\<lparr>compiler := fn\<rparr>"

definition KeyFields :: "string list \<Rightarrow> 'c CompiledTarget \<Rightarrow> 'c CompiledTarget" where
  "KeyFields flds t = t\<lparr>keyFields := flds\<rparr>"

definition CompiledFilter :: "(row \<Rightarrow> bool) \<Rightarrow> 'c CompiledTarget \<Rightarrow> 'c CompiledTarget" where
  "CompiledFilter fn t = t\<lparr>ct_filter := Some fn\<rparr>"

text \<open>\<open>nilfn\<close> stands for the nil compiler, which panics when called; a target is used with a
  compiler set.\<close>

definition NewCompiledTarget ::
    "(row \<Rightarrow> goerror + 'c) \<Rightarrow> ('c CompiledTarget \<Rightarrow> 'c CompiledTarget) list \<Rightarrow> 'c CompiledTarget" where
  "NewCompiledTarget nilfn opts =
     foldl (\<lambda>t opt. opt t)
       \<lparr>compiler = nilfn, keyFields = [], ct_filter = None, ct_table = Table [] [], ct_columns = [],
        ct_store = Map.empty, ct_listeners = {}, ct_nextID = 0, ct_notified = []\<rparr> opts"

section \<open>The SyncTarget methods\<close>

definition notifyCompiledListeners :: "'c option \<Rightarrow> 'c option \<Rightarrow> 'c CompiledTarget \<Rightarrow> 'c CompiledTarget" where
  "notifyCompiledListeners old new t = t\<lparr>ct_notified := ct_notified t @ [(ct_listeners t, old, new)]\<rparr>"

definition rejected :: "'c CompiledTarget \<Rightarrow> row \<Rightarrow> bool" where
  "rejected t r = (case ct_filter t of None \<Rightarrow> False | Some fn \<Rightarrow> \<not> fn r)"

definition compiled_OnInit :: "TableIdentifier \<Rightarrow> ColumnDefinition list \<Rightarrow> 'c CompiledTarget call" where
  "compiled_OnInit table columns t =
     (let t = t\<lparr>ct_table := table, ct_columns := columns\<rparr>;
          colSet = Name ` set columns
      in case find (\<lambda>f. f \<notin> colSet) (keyFields t) of
           Some f \<Rightarrow> (Some (Err (''key field '' @ f @ '' not found in columns'')), t)
         | None \<Rightarrow> (None, t\<lparr>ct_store := Map.empty\<rparr>))"

definition insertRow :: "row \<Rightarrow> 'c CompiledTarget call" where
  "insertRow r t =
     (if rejected t r then (None, t)
      else case compiler t r of
             Inl _ \<Rightarrow> (None, t)
           | Inr c \<Rightarrow>
               (let key = buildKey r (keyFields t);
                    t = t\<lparr>ct_store := (ct_store t)(key \<mapsto> \<lparr>compiled = c, ce_row = r\<rparr>)\<rparr>
                in (None, notifyCompiledListeners None (Some c) t)))"

definition compiled_OnBaselineRow :: "clock \<Rightarrow> TableIdentifier \<Rightarrow> row \<Rightarrow> 'c CompiledTarget call" where
  "compiled_OnBaselineRow now tbl r t = insertRow r t"

definition compiled_OnBaselineComplete :: "TableIdentifier \<Rightarrow> 'c CompiledTarget call" where
  "compiled_OnBaselineComplete tbl t = (None, t)"

definition compiled_OnInsert :: "clock \<Rightarrow> TableIdentifier \<Rightarrow> row \<Rightarrow> 'c CompiledTarget call" where
  "compiled_OnInsert now tbl r t = insertRow r t"

definition compiled_OnUpdate :: "clock \<Rightarrow> TableIdentifier \<Rightarrow> row \<Rightarrow> row \<Rightarrow> 'c CompiledTarget call" where
  "compiled_OnUpdate now tbl r ident t =
     (let oldKey = buildKey ident (keyFields t);
          oldEntry = ct_store t oldKey
      in if rejected t r then
           (case oldEntry of
              Some e \<Rightarrow> (None, notifyCompiledListeners (Some (compiled e)) None
                          (t\<lparr>ct_store := (ct_store t)(oldKey := None)\<rparr>))
            | None \<Rightarrow> (None, t))
         else case compiler t r of
                Inl _ \<Rightarrow> (None, t)
              | Inr c \<Rightarrow>
                  (let t = (case oldEntry of
                              Some e \<Rightarrow> t\<lparr>ct_store := (ct_store t)(oldKey := None)\<rparr>
                            | None \<Rightarrow> t);
                       newKey = buildKey r (keyFields t);
                       t = t\<lparr>ct_store := (ct_store t)(newKey \<mapsto> \<lparr>compiled = c, ce_row = r\<rparr>)\<rparr>
                   in (None, notifyCompiledListeners (map_option compiled oldEntry) (Some c) t)))"

definition compiled_OnDelete :: "clock \<Rightarrow> TableIdentifier \<Rightarrow> row \<Rightarrow> 'c CompiledTarget call" where
  "compiled_OnDelete now tbl ident t =
     (let key = buildKey ident (keyFields t) in
      case ct_store t key of
        Some e \<Rightarrow> (None, notifyCompiledListeners (Some (compiled e)) None
                    (t\<lparr>ct_store := (ct_store t)(key := None)\<rparr>))
      | None \<Rightarrow> (None, t))"

definition compiled_OnTruncate :: "clock \<Rightarrow> TableIdentifier \<Rightarrow> 'c CompiledTarget call" where
  "compiled_OnTruncate now tbl t = (None, notifyCompiledListeners None None (t\<lparr>ct_store := Map.empty\<rparr>))"

definition compiled_OnSchemaChange ::
    "clock \<Rightarrow> TableIdentifier \<Rightarrow> ColumnDefinition list \<Rightarrow> ColumnDefinition list \<Rightarrow> 'c CompiledTarget \<Rightarrow>
     (SchemaChangeAction \<times> string) \<times> 'c CompiledTarget" where
  "compiled_OnSchemaChange now tbl oldColumns newColumns t = ((SchemaReBaseline, []), t)"

definition compiled_ExportSnapshot :: "string list \<Rightarrow> 'c CompiledTarget \<Rightarrow> goerror + row list" where
  "compiled_ExportSnapshot order t = Inr (map ce_row (values_of order (ct_store t)))"

fun ct_restore :: "row list \<Rightarrow> 'c CompiledTarget \<Rightarrow> 'c CompiledTarget" where
  "ct_restore [] t = t"
| "ct_restore (r # rs) t =
     (if rejected t r then ct_restore rs t
      else case compiler t r of
             Inl _ \<Rightarrow> ct_restore rs t
           | Inr c \<Rightarrow>
               ct_restore rs (t\<lparr>ct_store := (ct_store t)(buildKey r (keyFields t) \<mapsto> \<lparr>compiled = c, ce_row = r\<rparr>)\<rparr>))"

definition compiled_RestoreSnapshot :: "TableSnapshotInfo \<Rightarrow> row list \<Rightarrow> 'c CompiledTarget call" where
  "compiled_RestoreSnapshot info rs t = (None, ct_restore rs (t\<lparr>ct_store := Map.empty\<rparr>))"

definition compiled_OnClose :: "TableIdentifier \<Rightarrow> 'c CompiledTarget call" where
  "compiled_OnClose tbl t = (None, t)"

section \<open>Queries and listeners\<close>

definition compiled_Get :: "value list \<Rightarrow> 'c CompiledTarget \<Rightarrow> 'c option" where
  "compiled_Get keyValues t = map_option compiled (ct_store t (buildKeyFromValues keyValues))"

definition compiled_All :: "string list \<Rightarrow> 'c CompiledTarget \<Rightarrow> (string \<times> 'c) list" where
  "compiled_All order t = List.map_filter (\<lambda>k. map_option (\<lambda>e. (k, compiled e)) (ct_store t k)) order"

definition compiled_Count :: "'c CompiledTarget \<Rightarrow> nat" where
  "compiled_Count t = card (dom (ct_store t))"

definition compiled_Listen :: "'c CompiledTarget \<Rightarrow> nat \<times> 'c CompiledTarget" where
  "compiled_Listen t =
     (ct_nextID t, t\<lparr>ct_nextID := ct_nextID t + 1, ct_listeners := insert (ct_nextID t) (ct_listeners t)\<rparr>)"

definition compiled_Unlisten :: "nat \<Rightarrow> 'c CompiledTarget \<Rightarrow> 'c CompiledTarget" where
  "compiled_Unlisten lid t = t\<lparr>ct_listeners := ct_listeners t - {lid}\<rparr>"

text \<open>\<^verbatim>\<open>All\<close> yields domain objects, so it is not the \<^verbatim>\<open>All\<close> the engine looks for.\<close>

definition CompiledTarget_vt :: "'c CompiledTarget SyncTarget" where
  "CompiledTarget_vt =
     \<lparr>t_OnInit = compiled_OnInit, t_OnBaselineRow = compiled_OnBaselineRow,
      t_OnBaselineComplete = compiled_OnBaselineComplete, t_OnInsert = compiled_OnInsert,
      t_OnUpdate = compiled_OnUpdate, t_OnDelete = compiled_OnDelete, t_OnTruncate = compiled_OnTruncate,
      t_IsDurable = (\<lambda>_. True), t_OnSchemaChange = compiled_OnSchemaChange,
      t_ExportSnapshot = compiled_ExportSnapshot, t_RestoreSnapshot = compiled_RestoreSnapshot,
      t_SupportsConsistentSnapshot = True, t_OnClose = compiled_OnClose, t_SetChangePosition = None,
      t_Count = Some compiled_Count, t_All = None\<rparr>"

section \<open>The store with a total compiler implements a keyed table\<close>

lemma notifyCompiledListeners_frame [frame_simps]:
  "ct_store (notifyCompiledListeners a b t) = ct_store t"
  "keyFields (notifyCompiledListeners a b t) = keyFields t"
  "compiler (notifyCompiledListeners a b t) = compiler t"
  "ct_filter (notifyCompiledListeners a b t) = ct_filter t"
  by (simp_all add: notifyCompiledListeners_def)

lemma ct_restore_frame [frame_simps]:
  "keyFields (ct_restore rs t) = keyFields t" "compiler (ct_restore rs t) = compiler t"
  "ct_filter (ct_restore rs t) = ct_filter t"
  by (induction rs arbitrary: t) (simp_all split: sum.split)

definition ct_rows :: "'c CompiledTarget \<Rightarrow> string \<rightharpoonup> row" where
  "ct_rows t = (\<lambda>k. map_option ce_row (ct_store t k))"

text \<open>Every entry is under the key of its row, was accepted, and holds what the compiler makes of
  its row.\<close>

definition compiled_inv :: "'c CompiledTarget \<Rightarrow> bool" where
  "compiled_inv t \<longleftrightarrow>
     (\<forall>k e. ct_store t k = Some e \<longrightarrow>
        buildKey (ce_row e) (keyFields t) = k \<and> \<not> rejected t (ce_row e) \<and>
        compiler t (ce_row e) = Inr (compiled e))"

lemma rejected_frame [frame_simps]:
  "rejected (t\<lparr>ct_store := st\<rparr>) r = rejected t r"
  "rejected (notifyCompiledListeners a b t) r = rejected t r"
  by (simp_all add: rejected_def notifyCompiledListeners_def)

lemma insertRow_inv: "compiled_inv t \<Longrightarrow> compiled_inv (snd (insertRow r t))"
  by (auto simp: insertRow_def compiled_inv_def frame_simps Let_def split: sum.split)

lemma compiled_OnUpdate_inv: "compiled_inv t \<Longrightarrow> compiled_inv (snd (compiled_OnUpdate now tbl r ident t))"
  by (auto simp: compiled_OnUpdate_def compiled_inv_def frame_simps Let_def split: sum.split option.split)

lemma compiled_OnDelete_inv: "compiled_inv t \<Longrightarrow> compiled_inv (snd (compiled_OnDelete now tbl ident t))"
  by (auto simp: compiled_OnDelete_def compiled_inv_def frame_simps Let_def split: option.split)

lemma ct_restore_inv: "compiled_inv t \<Longrightarrow> compiled_inv (ct_restore rs t)"
proof (induction rs arbitrary: t)
  case (Cons r rs)
  have "compiler t r = Inr c \<Longrightarrow> \<not> rejected t r \<Longrightarrow>
      compiled_inv (t\<lparr>ct_store := (ct_store t)(buildKey r (keyFields t) \<mapsto> \<lparr>compiled = c, ce_row = r\<rparr>)\<rparr>)" for c
    using Cons.prems by (auto simp: compiled_inv_def frame_simps)
  with Cons show ?case by (simp split: sum.split)
qed simp

definition ct_total :: "string list \<Rightarrow> 'c CompiledTarget \<Rightarrow> bool" where
  "ct_total kf t \<longleftrightarrow> keyFields t = kf \<and> ct_filter t = None \<and> (\<forall>r. \<exists>c. compiler t r = Inr c) \<and> compiled_inv t"

lemma ct_totalE:
  assumes "ct_total kf t"
  obtains c where "compiler t r = Inr c" "\<not> rejected t r"
  using assms by (auto simp: ct_total_def rejected_def)

lemma insertRow_total:
  assumes "ct_total kf t"
  shows "fst (insertRow r t) = None \<and> ct_total kf (snd (insertRow r t)) \<and>
    ct_rows (snd (insertRow r t)) = (ct_rows t)(buildKey r kf \<mapsto> r)"
proof -
  obtain c where "compiler t r = Inr c" "\<not> rejected t r" using assms by (rule ct_totalE)
  then show ?thesis
    using assms insertRow_inv [of t r]
    by (auto simp: ct_total_def insertRow_def ct_rows_def Let_def frame_simps)
qed

lemma compiled_OnUpdate_total:
  assumes "ct_total kf t"
  shows "fst (compiled_OnUpdate now tbl r ident t) = None \<and> ct_total kf (snd (compiled_OnUpdate now tbl r ident t)) \<and>
    ct_rows (snd (compiled_OnUpdate now tbl r ident t)) = (ct_rows t)(buildKey ident kf := None, buildKey r kf \<mapsto> r)"
proof -
  obtain c where "compiler t r = Inr c" "\<not> rejected t r" using assms by (rule ct_totalE)
  then show ?thesis
    using assms compiled_OnUpdate_inv [of t now tbl r ident]
    by (auto simp: ct_total_def compiled_OnUpdate_def ct_rows_def Let_def frame_simps fun_eq_iff split: option.split)
qed

lemma ct_restore_total:
  assumes "ct_total kf t"
  shows "ct_rows (ct_restore rs t) = table_put (pk_key kf) rs (ct_rows t)"
  using assms
proof (induction rs arbitrary: t)
  case (Cons r rs)
  obtain c where c: "compiler t r = Inr c" "\<not> rejected t r" using Cons.prems by (rule ct_totalE)
  let ?t = "t\<lparr>ct_store := (ct_store t)(buildKey r (keyFields t) \<mapsto> \<lparr>compiled = c, ce_row = r\<rparr>)\<rparr>"
  have "ct_total kf ?t" using Cons.prems c by (auto simp: ct_total_def compiled_inv_def frame_simps)
  moreover have "ct_rows ?t = (ct_rows t)(buildKey r kf \<mapsto> r)"
    using Cons.prems by (auto simp: ct_rows_def ct_total_def)
  ultimately show ?case using c Cons.IH [of ?t] by (simp del: fun_upd_apply)
qed simp

lemma ct_total_restore: "ct_total kf t \<Longrightarrow> ct_total kf (ct_restore rs t)"
  by (simp add: ct_total_def frame_simps ct_restore_inv)

lemma ct_rows_values: "map ce_row (values_of order (ct_store t)) = values_of order (ct_rows t)"
  by (induction order) (auto simp: ct_rows_def split: option.split)

lemma ct_total_clear: "ct_total kf t \<Longrightarrow> ct_total kf (t\<lparr>ct_store := Map.empty\<rparr>)"
  by (simp add: ct_total_def compiled_inv_def)

lemma ct_total_notify [simp]: "ct_total kf (notifyCompiledListeners a b t) = ct_total kf t"
  by (simp add: ct_total_def compiled_inv_def frame_simps)

lemma ct_rows_clear: "ct_rows (t\<lparr>ct_store := Map.empty\<rparr>) = Map.empty"
  by (simp add: ct_rows_def)

lemma ct_rows_notify [frame_simps]: "ct_rows (notifyCompiledListeners a b t) = ct_rows t"
  by (simp add: ct_rows_def frame_simps)

lemma compiled_OnDelete_total:
  assumes "ct_total kf t"
  shows "fst (compiled_OnDelete now tbl ident t) = None \<and> ct_total kf (snd (compiled_OnDelete now tbl ident t)) \<and>
    ct_rows (snd (compiled_OnDelete now tbl ident t)) = (ct_rows t)(buildKey ident kf := None)"
  using assms compiled_OnDelete_inv [of t now tbl ident]
  by (auto simp: ct_total_def compiled_OnDelete_def ct_rows_def Let_def frame_simps fun_eq_iff split: option.split)

interpretation compiled: rekeying_target CompiledTarget_vt "pk_key kf" ct_rows "ct_total kf" for kf
proof (unfold_locales, goal_cases)
  case (1 t)
  then show ?case by (auto simp: keyed_def ct_total_def compiled_inv_def ct_rows_def)
next
  case (2 t now tbl r)
  then show ?case using insertRow_total by (simp add: CompiledTarget_vt_def compiled_OnBaselineRow_def)
next
  case (4 t now tbl r)
  then show ?case using insertRow_total by (simp add: CompiledTarget_vt_def compiled_OnInsert_def)
next
  case (5 t ident r now tbl)
  then show ?case using compiled_OnUpdate_total [of kf t now tbl r ident] by (simp add: CompiledTarget_vt_def)
next
  case (6 t now tbl ident)
  then show ?case using compiled_OnDelete_total by (simp add: CompiledTarget_vt_def)
next
  case (9 t info rs)
  then show ?case
    using ct_restore_total [OF ct_total_clear [OF 9]] ct_total_restore [OF ct_total_clear [OF 9]]
    by (simp add: CompiledTarget_vt_def compiled_RestoreSnapshot_def ct_rows_clear)
next
  case (11 t count)
  then show ?case by (auto simp: CompiledTarget_vt_def compiled_Count_def ct_rows_def dom_def)
next
  case (12 t now tbl r ident)
  then show ?case using compiled_OnUpdate_total by (simp add: CompiledTarget_vt_def)
qed (simp_all add: CompiledTarget_vt_def compiled_OnBaselineComplete_def compiled_OnTruncate_def
    compiled_ExportSnapshot_def ct_rows_values ct_total_clear ct_rows_clear frame_simps)

section \<open>Reachable targets\<close>

inductive compiled_reach :: "'c CompiledTarget \<Rightarrow> bool" where
  init: "compiled_OnInit tbl cols t0 = (None, t) \<Longrightarrow> compiled_reach t"
| baseline: "compiled_reach t \<Longrightarrow> compiled_reach (snd (compiled_OnBaselineRow now tbl r t))"
| "insert": "compiled_reach t \<Longrightarrow> compiled_reach (snd (compiled_OnInsert now tbl r t))"
| "update": "compiled_reach t \<Longrightarrow> compiled_reach (snd (compiled_OnUpdate now tbl r ident t))"
| delete: "compiled_reach t \<Longrightarrow> compiled_reach (snd (compiled_OnDelete now tbl ident t))"
| truncate: "compiled_reach t \<Longrightarrow> compiled_reach (snd (compiled_OnTruncate now tbl t))"
| restore: "compiled_reach t \<Longrightarrow> compiled_reach (snd (compiled_RestoreSnapshot info rs t))"
| listen: "compiled_reach t \<Longrightarrow> compiled_reach (snd (compiled_Listen t))"
| unlisten: "compiled_reach t \<Longrightarrow> compiled_reach (compiled_Unlisten lid t)"

lemma compiled_reach_inv: "compiled_reach t \<Longrightarrow> compiled_inv t"
proof (induction rule: compiled_reach.induct)
  case (init tbl cols t0 t)
  then show ?case by (auto simp: compiled_OnInit_def compiled_inv_def Let_def split: option.splits)
next
  case (restore t info rs)
  have "compiled_inv (t\<lparr>ct_store := Map.empty\<rparr>)" by (simp add: compiled_inv_def)
  then show ?case by (simp add: compiled_RestoreSnapshot_def ct_restore_inv)
qed (simp_all add: compiled_OnBaselineRow_def compiled_OnInsert_def insertRow_inv compiled_OnUpdate_inv
    compiled_OnDelete_inv, simp_all add: compiled_OnTruncate_def compiled_Listen_def compiled_Unlisten_def
    compiled_inv_def rejected_def frame_simps)

section \<open>Properties\<close>

text \<open>C29: A compiled target never serves an object that does not belong to its key: after any
  sequence of calls, with a filter and a compiler that may fail, an object returned for some key
  values is the compiler's result for a stored row that has those key values and that the filter
  accepts.\<close>
theorem compiled_Get_sound:
  assumes "compiled_reach t" and "compiled_Get vals t = Some c"
  shows "\<exists>r. ct_rows t (buildKeyFromValues vals) = Some r \<and> buildKey r (keyFields t) = buildKeyFromValues vals \<and>
    \<not> rejected t r \<and> compiler t r = Inr c"
  using assms(2) compiled_reach_inv [OF assms(1)]
  by (auto simp: compiled_Get_def ct_rows_def compiled_inv_def)

definition ex_compiled :: "row CompiledTarget" where
  "ex_compiled = snd (compiled_OnInsert (\<lambda>_. 0) (Table ''s'' ''t'') [''id'' \<mapsto> VInt64 3]
     (snd (compiled_OnInit (Table ''s'' ''t'') []
        (NewCompiledTarget Inr [CompiledFilter (\<lambda>r. r ''id'' \<noteq> None)]))))"

theorem compiled_Get_sound_witness:
  "compiled_reach ex_compiled \<and> compiled_Get [] ex_compiled = Some [''id'' \<mapsto> VInt64 3] \<and>
   (\<exists>r. ct_rows ex_compiled (buildKeyFromValues []) = Some r \<and> compiler ex_compiled r = Inr [''id'' \<mapsto> VInt64 3])"
proof -
  have "compiled_OnInit (Table ''s'' ''t'') [] (NewCompiledTarget Inr [CompiledFilter (\<lambda>r :: row. r ''id'' \<noteq> None)]) =
      (None, snd (compiled_OnInit (Table ''s'' ''t'') [] (NewCompiledTarget Inr [CompiledFilter (\<lambda>r. r ''id'' \<noteq> None)])))"
    by (simp add: compiled_OnInit_def NewCompiledTarget_def CompiledFilter_def Let_def)
  then have reach: "compiled_reach ex_compiled"
    unfolding ex_compiled_def by (intro compiled_reach.insert compiled_reach.init)
  have get: "compiled_Get [] ex_compiled = Some [''id'' \<mapsto> VInt64 3]"
    by (simp add: ex_compiled_def compiled_Get_def compiled_OnInsert_def insertRow_def rejected_def Let_def
        compiled_OnInit_def NewCompiledTarget_def CompiledFilter_def frame_simps buildKey_def buildKeyFromValues_def)
  show ?thesis using compiled_Get_sound [OF reach get] reach get by auto
qed

end
