(* ===== verification/Fanout_Journal.thy ===== *)
theory Fanout_Journal
  imports Core_Types LSN
begin

text \<open>
  The bounded change journal of the fan-out target (\<^verbatim>\<open>target/fanout/journal.go\<close>).  Sequence
  numbers are \<^verbatim>\<open>int64\<close> values that start at 1 and grow by one per change, so they do not reach
  the width of the type.  \<^verbatim>\<open>pruneLocked\<close> loops over the pin map; \<open>order\<close> is the order of that loop.
\<close>

section \<open>Model\<close>

record JournalEntry =
  je_Sequence :: int
  je_Timestamp :: int
  je_Action :: ChangeAction
  je_OldValues :: "row option"
  je_NewValues :: "row option"
  je_Position :: position

record journal =
  j_entries :: "JournalEntry list"
  j_maxEntries :: int
  j_maxAge :: int
  j_nextSeq :: int
  j_pins :: "string \<rightharpoonup> int"

definition newJournal :: "int \<Rightarrow> int \<Rightarrow> journal" where
  "newJournal maxEntries maxAge =
     \<lparr>j_entries = [], j_maxEntries = maxEntries, j_maxAge = maxAge, j_nextSeq = 1, j_pins = Map.empty\<rparr>"

definition j_pin :: "string \<Rightarrow> int \<Rightarrow> journal \<Rightarrow> journal" where
  "j_pin clientID seq j = j\<lparr>j_pins := (j_pins j)(clientID \<mapsto> seq)\<rparr>"

definition j_unpin :: "string \<Rightarrow> journal \<Rightarrow> journal" where
  "j_unpin clientID j = j\<lparr>j_pins := (j_pins j)(clientID := None)\<rparr>"

fun lowest_pin :: "int list \<Rightarrow> int \<Rightarrow> int" where
  "lowest_pin [] minPin = minPin"
| "lowest_pin (seq # seqs) minPin =
     lowest_pin seqs (if minPin = 0 \<or> seq < minPin then seq else minPin)"

text \<open>The three loops of \<^verbatim>\<open>pruneLocked\<close>: the countdown of the excess, which looks at the first
  entry only; the pruning up to the pin; the pruning by age.\<close>

fun countdown :: "nat \<Rightarrow> JournalEntry list \<Rightarrow> int \<Rightarrow> nat" where
  "countdown 0 es minPin = 0"
| "countdown (Suc excess) es minPin =
     (if 0 < length es \<and> je_Sequence (hd es) < minPin then countdown excess es minPin else Suc excess)"

fun prune_to_pin :: "int \<Rightarrow> int \<Rightarrow> JournalEntry list \<Rightarrow> JournalEntry list" where
  "prune_to_pin maxEntries minPin [] = []"
| "prune_to_pin maxEntries minPin (e # es) =
     (if je_Sequence e < minPin \<and> maxEntries < int (length (e # es))
      then prune_to_pin maxEntries minPin es else e # es)"

fun prune_by_age :: "int \<Rightarrow> int \<Rightarrow> JournalEntry list \<Rightarrow> JournalEntry list" where
  "prune_by_age cutoff minPin [] = []"
| "prune_by_age cutoff minPin (e # es) =
     (if je_Timestamp e < cutoff \<and> \<not> (0 < minPin \<and> minPin \<le> je_Sequence e)
      then prune_by_age cutoff minPin es else e # es)"

definition age_prune :: "int \<Rightarrow> int \<Rightarrow> int \<Rightarrow> JournalEntry list \<Rightarrow> JournalEntry list" where
  "age_prune maxAge now minPin es = (if 0 < maxAge then prune_by_age (now - maxAge) minPin es else es)"

definition pruned :: "string list \<Rightarrow> int \<Rightarrow> journal \<Rightarrow> JournalEntry list" where
  "pruned order now j =
     (let minPin = lowest_pin (values_of order (j_pins j)) 0;
          es = j_entries j
      in if 0 < j_maxEntries j \<and> j_maxEntries j < int (length es) then
           (let excess = nat (int (length es) - j_maxEntries j) in
            if 0 < minPin then
              (let excess = countdown excess es minPin in
               if excess = 0 then prune_to_pin (j_maxEntries j) minPin es
               else age_prune (j_maxAge j) now minPin (drop excess es))
            else age_prune (j_maxAge j) now minPin (drop excess es))
         else age_prune (j_maxAge j) now minPin es)"

definition pruneLocked :: "string list \<Rightarrow> int \<Rightarrow> journal \<Rightarrow> journal" where
  "pruneLocked order now j = j\<lparr>j_entries := pruned order now j\<rparr>"

definition new_entry :: "clock \<Rightarrow> ChangeAction \<Rightarrow> row option \<Rightarrow> row option \<Rightarrow> position \<Rightarrow> journal \<Rightarrow> JournalEntry" where
  "new_entry now action old new pos j =
     \<lparr>je_Sequence = j_nextSeq j, je_Timestamp = now 0, je_Action = action, je_OldValues = old,
      je_NewValues = new, je_Position = pos\<rparr>"

definition j_append ::
    "string list \<Rightarrow> clock \<Rightarrow> ChangeAction \<Rightarrow> row option \<Rightarrow> row option \<Rightarrow> position \<Rightarrow> journal \<Rightarrow> int \<times> journal" where
  "j_append order now action old new pos j =
     (let seq = j_nextSeq j;
          e = new_entry now action old new pos j;
          j = j\<lparr>j_nextSeq := j_nextSeq j + 1\<rparr>;
          j = j\<lparr>j_entries := j_entries j @ [e]\<rparr>
      in (seq, pruneLocked order (now 1) j))"

definition backfillNilPositions :: "position \<Rightarrow> journal \<Rightarrow> journal" where
  "backfillNilPositions pos j =
     (if pos = PosNil then j
      else j\<lparr>j_entries := map (\<lambda>e. if je_Position e = PosNil then e\<lparr>je_Position := pos\<rparr> else e) (j_entries j)\<rparr>)"

fun resume_loop :: "(position \<Rightarrow> position \<Rightarrow> int) \<Rightarrow> position \<Rightarrow> JournalEntry list \<Rightarrow> int \<Rightarrow> int" where
  "resume_loop cmp pos [] seq = seq"
| "resume_loop cmp pos (e # es) seq =
     resume_loop cmp pos es
       (if je_Position e \<noteq> PosNil \<and> cmp (je_Position e) pos \<le> 0 then je_Sequence e else seq)"

definition resumeSeqForPosition :: "(position \<Rightarrow> position \<Rightarrow> int) \<Rightarrow> position \<Rightarrow> journal \<Rightarrow> int \<times> bool" where
  "resumeSeqForPosition cmp pos j =
     (case j_entries j of
        [] \<Rightarrow> (j_nextSeq j - 1, True)
      | e # es \<Rightarrow>
          if je_Position e \<noteq> PosNil \<and> 0 < cmp (je_Position e) pos then (0, False)
          else (resume_loop cmp pos (e # es) (je_Sequence e - 1), True))"

definition entriesSince :: "int \<Rightarrow> journal \<Rightarrow> JournalEntry list" where
  "entriesSince afterSeq j = filter (\<lambda>e. afterSeq < je_Sequence e) (j_entries j)"

definition currentSequence :: "journal \<Rightarrow> int" where
  "currentSequence j = j_nextSeq j - 1"

definition oldestSequence :: "journal \<Rightarrow> int" where
  "oldestSequence j = (case j_entries j of [] \<Rightarrow> 0 | e # _ \<Rightarrow> je_Sequence e)"

definition j_len :: "journal \<Rightarrow> nat" where
  "j_len j = length (j_entries j)"

definition j_clear :: "journal \<Rightarrow> journal" where
  "j_clear j = j\<lparr>j_entries := []\<rparr>"

section \<open>Facts on the pruning loops\<close>

lemma countdown_cases:
  "countdown n es minPin = (if es \<noteq> [] \<and> je_Sequence (hd es) < minPin then 0 else n)"
  by (induction n) auto

lemma prune_to_pin_drop: "\<exists>n. prune_to_pin m p es = drop n es"
  by (induction es) (auto intro: exI [of _ 0] exI [of _ "Suc _"])

lemma prune_by_age_drop: "\<exists>n. prune_by_age c p es = drop n es"
  by (induction es) (auto intro: exI [of _ 0] exI [of _ "Suc _"])

lemma age_prune_drop: "\<exists>n. age_prune a now p es = drop n es"
  using prune_by_age_drop [of "now - a" p es] by (auto simp: age_prune_def intro: exI [of _ 0])

text \<open>Pruning only ever removes the oldest entries.\<close>

lemma pruned_drop: "\<exists>n. pruned order now j = drop n (j_entries j)"
proof -
  have "\<exists>n. age_prune a now p (drop m es) = drop n es" for a p m es
    using age_prune_drop [of a now p "drop m es"] by auto
  then show ?thesis
    using prune_to_pin_drop age_prune_drop by (auto simp: pruned_def Let_def)
qed

lemma lowest_pin_eq:
  "0 < p \<Longrightarrow> \<forall>q \<in> set qs. p \<le> q \<Longrightarrow> m = 0 \<or> p \<le> m \<Longrightarrow> p \<in> set qs \<or> m = p \<Longrightarrow> lowest_pin qs m = p"
  by (induction qs arbitrary: m) auto

lemma lowest_pin_pins:
  assumes "iter_order order pins" and "0 < p" and "pins c = Some p" and "\<forall>q \<in> ran pins. p \<le> q"
  shows "lowest_pin (values_of order pins) 0 = p"
  using assms by (intro lowest_pin_eq) (auto simp: values_of_ran ran_def)

section \<open>Contiguity\<close>

text \<open>The retained entries carry consecutive sequence numbers that end just below \<^verbatim>\<open>nextSeq\<close>.\<close>

definition journal_inv :: "journal \<Rightarrow> bool" where
  "journal_inv j \<longleftrightarrow> int (length (j_entries j)) < j_nextSeq j \<and>
     (\<forall>i < length (j_entries j). je_Sequence (j_entries j ! i) = j_nextSeq j - int (length (j_entries j)) + int i)"

lemma newJournal_inv: "journal_inv (newJournal m a)"
  by (simp add: journal_inv_def newJournal_def)

lemma journal_inv_drop: "journal_inv j \<Longrightarrow> journal_inv (j\<lparr>j_entries := drop n (j_entries j)\<rparr>)"
  by (cases "n \<le> length (j_entries j)") (auto simp: journal_inv_def of_nat_diff)

lemma journal_inv_snoc:
  assumes "journal_inv j" and "je_Sequence e = j_nextSeq j"
  shows "journal_inv (j\<lparr>j_nextSeq := j_nextSeq j + 1, j_entries := j_entries j @ [e]\<rparr>)"
  using assms by (auto simp: journal_inv_def nth_append less_Suc_eq)

lemma j_append_state:
  "snd (j_append order now a old new pos j) =
     pruneLocked order (now 1)
       (j\<lparr>j_nextSeq := j_nextSeq j + 1, j_entries := j_entries j @ [new_entry now a old new pos j]\<rparr>)"
  by (simp add: j_append_def Let_def)

lemma j_append_entries:
  "\<exists>n. j_entries (snd (j_append order now a old new pos j)) =
     drop n (j_entries j @ [new_entry now a old new pos j])"
  using pruned_drop [of order "now 1" "j\<lparr>j_nextSeq := j_nextSeq j + 1,
    j_entries := j_entries j @ [new_entry now a old new pos j]\<rparr>"]
  by (simp add: j_append_state pruneLocked_def)

lemma j_append_frame [frame_simps]:
  "j_nextSeq (snd (j_append order now a old new pos j)) = j_nextSeq j + 1"
  "j_pins (snd (j_append order now a old new pos j)) = j_pins j"
  "j_maxEntries (snd (j_append order now a old new pos j)) = j_maxEntries j"
  "j_maxAge (snd (j_append order now a old new pos j)) = j_maxAge j"
  by (simp_all add: j_append_state pruneLocked_def)

lemma new_entry_Sequence [simp]: "je_Sequence (new_entry now a old new pos j) = j_nextSeq j"
  by (simp add: new_entry_def)

lemma j_append_inv: "journal_inv j \<Longrightarrow> journal_inv (snd (j_append order now a old new pos j))"
  using pruned_drop journal_inv_drop journal_inv_snoc [of j "new_entry now a old new pos j"]
  by (metis j_append_state new_entry_Sequence pruneLocked_def)

lemma journal_inv_backfill: "journal_inv j \<Longrightarrow> journal_inv (backfillNilPositions pos j)"
  by (auto simp: journal_inv_def backfillNilPositions_def)

lemma journal_inv_pins [simp]:
  "journal_inv (j_pin c seq j) = journal_inv j" "journal_inv (j_unpin c j) = journal_inv j"
  by (simp_all add: journal_inv_def j_pin_def j_unpin_def)

lemma journal_inv_hd:
  "journal_inv j \<Longrightarrow> j_entries j \<noteq> [] \<Longrightarrow> je_Sequence (hd (j_entries j)) = j_nextSeq j - int (length (j_entries j))"
  by (cases "j_entries j") (auto simp: journal_inv_def)

lemma journal_inv_sorted:
  "journal_inv j \<Longrightarrow> i \<le> k \<Longrightarrow> k < length (j_entries j) \<Longrightarrow>
   je_Sequence (j_entries j ! i) \<le> je_Sequence (j_entries j ! k)"
  by (simp add: journal_inv_def)

lemma filter_take_drop:
  assumes "\<forall>i < length xs. P (xs ! i) \<longleftrightarrow> n \<le> i"
  shows "filter P xs = drop n xs"
proof -
  have "filter P (take n xs) = []"
    using assms by (auto simp: filter_empty_conv in_set_conv_nth)
  moreover have "filter P (drop n xs) = drop n xs"
    using assms by (intro filter_True) (auto simp: in_set_conv_nth)
  ultimately show ?thesis by (metis append_take_drop_id filter_append append_Nil)
qed

lemma entriesSince_drop:
  assumes "journal_inv j"
  shows "entriesSince s j = drop (nat (s + 1 - (j_nextSeq j - int (length (j_entries j))))) (j_entries j)"
  unfolding entriesSince_def using assms by (intro filter_take_drop) (auto simp: journal_inv_def)

section \<open>Pins\<close>

lemma age_prune_pinned:
  assumes "0 < p" and "p \<le> s"
  shows "filter (\<lambda>e. s \<le> je_Sequence e) (age_prune a now p es) = filter (\<lambda>e. s \<le> je_Sequence e) es"
proof -
  have "filter (\<lambda>e. s \<le> je_Sequence e) (prune_by_age c p es) = filter (\<lambda>e. s \<le> je_Sequence e) es" for c
    using assms by (induction es) auto
  then show ?thesis by (simp add: age_prune_def)
qed

lemma prune_to_pin_pinned:
  "filter (\<lambda>e. p \<le> je_Sequence e) (prune_to_pin m p es) = filter (\<lambda>e. p \<le> je_Sequence e) es"
  by (induction es) auto

text \<open>\<open>oldest_pinned\<close>: the journal is at its size limit and nothing is left before the pin.\<close>

definition oldest_pinned :: "int \<Rightarrow> journal \<Rightarrow> bool" where
  "oldest_pinned p j \<longleftrightarrow> 0 < j_maxEntries j \<and> j_maxEntries j \<le> int (length (j_entries j)) \<and> p \<le> oldestSequence j"

lemma pruned_keeps_pinned:
  assumes "lowest_pin (values_of order (j_pins j)) 0 = p" and "0 < p"
    and "0 < j_maxEntries j \<Longrightarrow> j_maxEntries j < int (length (j_entries j)) \<Longrightarrow> je_Sequence (hd (j_entries j)) < p"
  shows "filter (\<lambda>e. p \<le> je_Sequence e) (pruned order now j) = filter (\<lambda>e. p \<le> je_Sequence e) (j_entries j)"
  using assms by (auto simp: pruned_def Let_def countdown_cases age_prune_pinned prune_to_pin_pinned)

lemma pruned_drops_pinned:
  assumes "lowest_pin (values_of order (j_pins j)) 0 = p" and "0 < p"
    and "0 < j_maxEntries j" and "j_maxEntries j < int (length (j_entries j))" and "p \<le> je_Sequence (hd (j_entries j))"
  shows "length (pruned order now j) < length (j_entries j)"
proof -
  let ?n = "nat (int (length (j_entries j)) - j_maxEntries j)"
  have "pruned order now j = age_prune (j_maxAge j) now p (drop ?n (j_entries j))"
    using assms by (auto simp: pruned_def Let_def countdown_cases)
  moreover obtain m where "age_prune (j_maxAge j) now p (drop ?n (j_entries j)) = drop m (drop ?n (j_entries j))"
    using age_prune_drop by blast
  ultimately have "length (pruned order now j) \<le> length (j_entries j) - ?n" by simp
  moreover have "0 < ?n" "j_entries j \<noteq> []" using assms(3,4) by auto
  ultimately show ?thesis by (metis diff_less length_greater_0_conv le_less_trans)
qed

section \<open>History\<close>

text \<open>\<open>journal_hist H n j\<close>: of all changes \<open>H\<close> ever appended, the journal retains those from the
  \<open>n\<close>-th on.  Positions, which are backfilled later, are not part of a change.\<close>

type_synonym change = "int \<times> ChangeAction \<times> row option \<times> row option"

definition je_change :: "JournalEntry \<Rightarrow> change" where
  "je_change e = (je_Sequence e, je_Action e, je_OldValues e, je_NewValues e)"

definition journal_hist :: "change list \<Rightarrow> nat \<Rightarrow> journal \<Rightarrow> bool" where
  "journal_hist H n j \<longleftrightarrow> n \<le> length H \<and> map je_change (j_entries j) = drop n H \<and>
     j_nextSeq j = int (length H) + 1 \<and> (\<forall>i < length H. fst (H ! i) = int i + 1)"

lemma journal_hist_new: "journal_hist [] 0 (newJournal m a)"
  by (simp add: journal_hist_def newJournal_def)

lemma journal_hist_append:
  assumes "journal_hist H n j"
  shows "\<exists>n'. journal_hist (H @ [(j_nextSeq j, a, old, new)]) n' (snd (j_append order now a old new pos j))"
proof -
  obtain m where m: "j_entries (snd (j_append order now a old new pos j)) =
      drop m (j_entries j @ [new_entry now a old new pos j])"
    using j_append_entries by blast
  have "map je_change (j_entries j @ [new_entry now a old new pos j]) = drop n (H @ [(j_nextSeq j, a, old, new)])"
    using assms by (simp add: journal_hist_def je_change_def new_entry_def)
  then have "map je_change (j_entries (snd (j_append order now a old new pos j))) =
      drop (m + n) (H @ [(j_nextSeq j, a, old, new)])"
    by (simp only: m drop_map [symmetric] drop_drop)
  also have "\<dots> = drop (min (m + n) (length H + 1)) (H @ [(j_nextSeq j, a, old, new)])"
    by (simp add: min_def)
  finally show ?thesis
    using assms
    by (intro exI [of _ "min (m + n) (length H + 1)"]) (auto simp: journal_hist_def frame_simps nth_append less_Suc_eq)
qed

lemma journal_hist_backfill: "journal_hist H n j \<Longrightarrow> journal_hist H n (backfillNilPositions pos j)"
proof -
  have "je_change \<circ> (\<lambda>e. if je_Position e = PosNil then e\<lparr>je_Position := pos\<rparr> else e) = je_change"
    by (auto simp: fun_eq_iff je_change_def)
  then show "journal_hist H n j \<Longrightarrow> journal_hist H n (backfillNilPositions pos j)"
    by (simp add: journal_hist_def backfillNilPositions_def)
qed

lemma journal_hist_pins [simp]:
  "journal_hist H n (j_pin c seq j) = journal_hist H n j" "journal_hist H n (j_unpin c j) = journal_hist H n j"
  by (simp_all add: journal_hist_def j_pin_def j_unpin_def)

lemma journal_hist_inv: assumes "journal_hist H n j" shows "journal_inv j"
proof -
  have len: "length (j_entries j) = length H - n"
    using assms by (metis journal_hist_def length_drop length_map)
  have "je_Sequence (j_entries j ! i) = fst (drop n H ! i)" if "i < length (j_entries j)" for i
    using assms that by (metis journal_hist_def nth_map je_change_def fst_conv)
  with assms len show ?thesis by (auto simp: journal_inv_def journal_hist_def)
qed

lemma journal_hist_since:
  assumes "journal_hist H n j" and "n \<le> s"
  shows "map je_change (entriesSince (int s) j) = drop s H"
proof -
  have len: "length (j_entries j) = length H - n"
    using assms by (metis journal_hist_def length_drop length_map)
  have "entriesSince (int s) j = drop (s - n) (j_entries j)"
    using assms len entriesSince_drop [OF journal_hist_inv [OF assms(1)]]
    by (auto simp: journal_hist_def intro!: arg_cong [where f = "\<lambda>m. drop m _"])
  then show ?thesis using assms by (simp add: journal_hist_def drop_map [symmetric])
qed

lemma journal_hist_oldest:
  assumes "journal_hist H n j" and "j_entries j \<noteq> []"
  shows "oldestSequence j = int n + 1"
proof -
  have len: "length (j_entries j) = length H - n"
    using assms by (metis journal_hist_def length_drop length_map)
  have "oldestSequence j = je_Sequence (hd (j_entries j))"
    using assms(2) by (cases "j_entries j") (auto simp: oldestSequence_def)
  with assms len show ?thesis
    using journal_inv_hd [OF journal_hist_inv [OF assms(1)] assms(2)] by (simp add: journal_hist_def of_nat_diff)
qed

section \<open>Resuming at a position\<close>

lemma resume_loop_split:
  "(\<forall>e \<in> set A. je_Position e \<noteq> PosNil \<and> cmp (je_Position e) pos \<le> 0) \<Longrightarrow>
   (\<forall>e \<in> set B. \<not> (je_Position e \<noteq> PosNil \<and> cmp (je_Position e) pos \<le> 0)) \<Longrightarrow>
   resume_loop cmp pos (A @ B) seq = (if A = [] then seq else je_Sequence (last A))"
proof (induction A arbitrary: seq)
  case Nil
  then show ?case by (induction B) auto
qed auto

lemma entriesSince_last:
  assumes "journal_inv j" and "j_entries j = A @ B" and "A \<noteq> []"
  shows "entriesSince (je_Sequence (last A)) j = B"
proof -
  have "last A = j_entries j ! (length A - 1)" using assms(2,3) by (simp add: last_conv_nth nth_append)
  moreover have "0 < length A" "length A - 1 < length (j_entries j)"
    using assms(2,3) by (simp, cases A) auto
  ultimately have "je_Sequence (last A) = j_nextSeq j - int (length (j_entries j)) + int (length A - 1)"
    using assms(1) unfolding journal_inv_def by metis
  then have "je_Sequence (last A) + 1 - (j_nextSeq j - int (length (j_entries j))) = int (length A)"
    using \<open>0 < length A\<close> by (simp add: of_nat_diff)
  then show ?thesis using entriesSince_drop [OF assms(1)] assms(2) by simp
qed

definition position_sorted :: "(position \<Rightarrow> position \<Rightarrow> int) \<Rightarrow> (position \<Rightarrow> bool) \<Rightarrow> JournalEntry list \<Rightarrow> bool" where
  "position_sorted cmp valid es \<longleftrightarrow>
     list_all (\<lambda>e. valid (je_Position e)) es \<and> sorted_wrt (\<lambda>e e'. cmp (je_Position e) (je_Position e') \<le> 0) es"

context position_order
begin

lemma resume_exact:
  assumes inv: "journal_inv j" and sorted: "position_sorted cmp valid (j_entries j)"
    and pos: "valid pos" and res: "resumeSeqForPosition cmp pos j = (seq, True)"
  shows "entriesSince seq j = filter (\<lambda>e. 0 < cmp (je_Position e) pos) (j_entries j)"
proof (cases "j_entries j")
  case Nil
  then show ?thesis by (simp add: entriesSince_def)
next
  case (Cons e0 es0)
  define P where "P = (\<lambda>e :: JournalEntry. cmp (je_Position e) pos \<le> 0)"
  let ?es = "j_entries j" and ?A = "takeWhile P (j_entries j)" and ?B = "dropWhile P (j_entries j)"
  have val: "valid (je_Position e)" if "e \<in> set ?es" for e
    using sorted that by (auto simp: position_sorted_def list_all_iff)
  have nn: "je_Position e \<noteq> PosNil" if "e \<in> set ?es" for e using val [OF that] valid_not_nil by blast
  have notB: "\<not> P e" if "e \<in> set ?B" for e
  proof (cases ?B)
    case Nil
    show ?thesis using that unfolding Nil by simp
  next
    case (Cons b bs)
    have "sorted_wrt (\<lambda>e e'. cmp (je_Position e) (je_Position e') \<le> 0) (?A @ ?B)"
      using sorted by (simp add: position_sorted_def)
    then have "e = b \<or> cmp (je_Position b) (je_Position e) \<le> 0"
      using that Cons by (auto simp: sorted_wrt_append)
    moreover have "\<not> P b" using Cons by (simp add: dropWhile_eq_Cons_conv)
    moreover have "b \<in> set ?es" "e \<in> set ?es"
      using Cons that set_dropWhileD [of _ P ?es] by (metis list.set_intros(1), blast)
    ultimately show ?thesis using cmp_trans [OF val val pos] by (auto simp: P_def)
  qed
  have A: "\<forall>e \<in> set ?A. je_Position e \<noteq> PosNil \<and> cmp (je_Position e) pos \<le> 0"
    using nn by (auto simp: P_def dest: set_takeWhileD)
  have B: "\<forall>e \<in> set ?B. \<not> (je_Position e \<noteq> PosNil \<and> cmp (je_Position e) pos \<le> 0)"
    using notB unfolding P_def by blast
  have "P e0" using res Cons nn [of e0] by (auto simp: resumeSeqForPosition_def P_def split: if_splits)
  then have ne: "?A \<noteq> []" using Cons by simp
  have "seq = resume_loop cmp pos (?A @ ?B) (je_Sequence e0 - 1)"
    using res Cons \<open>P e0\<close> by (auto simp: resumeSeqForPosition_def P_def split: if_splits)
  then have "seq = je_Sequence (last ?A)" using resume_loop_split [where cmp = cmp and pos = pos, OF A B] ne by simp
  then have "entriesSince seq j = ?B" using entriesSince_last [OF inv _ ne] by simp
  moreover have "filter (\<lambda>e. \<not> P e) (?A @ ?B) = ?B"
  proof -
    have "filter (\<lambda>e. \<not> P e) ?A = []" by (auto simp: filter_empty_conv dest: set_takeWhileD)
    moreover have "filter (\<lambda>e. \<not> P e) ?B = ?B" using notB by (intro filter_True) blast
    ultimately show ?thesis by (simp only: filter_append append_Nil)
  qed
  ultimately show ?thesis by (simp add: P_def not_le)
qed

lemma resume_uncovered:
  assumes "position_sorted cmp valid (j_entries j)" and "valid pos"
  shows "snd (resumeSeqForPosition cmp pos j) = False \<longleftrightarrow>
    j_entries j \<noteq> [] \<and> (\<forall>e \<in> set (j_entries j). 0 < cmp (je_Position e) pos)"
proof (cases "j_entries j")
  case (Cons e es)
  have val: "valid (je_Position e')" if "e' \<in> set (e # es)" for e'
    using assms that Cons by (auto simp: position_sorted_def list_all_iff)
  have "0 < cmp (je_Position e') pos" if "e' \<in> set es" "0 < cmp (je_Position e) pos" for e'
  proof (rule ccontr)
    assume "\<not> 0 < cmp (je_Position e') pos"
    moreover have "cmp (je_Position e) (je_Position e') \<le> 0"
      using assms(1) Cons that(1) by (auto simp: position_sorted_def)
    ultimately have "cmp (je_Position e) pos \<le> 0"
      using cmp_trans [of "je_Position e" "je_Position e'" pos] val that(1) assms(2) by simp
    with that(2) show False by simp
  qed
  then show ?thesis using Cons val [of e] valid_not_nil by (auto simp: resumeSeqForPosition_def)
qed (simp add: resumeSeqForPosition_def)

end

section \<open>Properties\<close>

text \<open>C19: Exactly when a pin protects the journal.  Take a contiguous journal whose lowest pin \<open>p\<close> is
  positive and not in the future.  Appending an entry keeps every entry at or after \<open>p\<close> if and
  only if the journal is below its size limit or still has an entry before \<open>p\<close>: once the oldest
  retained entry is the pinned one, the next append prunes it.\<close>
theorem pin_respected_iff:
  assumes inv: "journal_inv j" and order: "iter_order order (j_pins j)" and pin: "j_pins j c = Some p"
    and low: "\<forall>q \<in> ran (j_pins j). p \<le> q" and pos: "0 < p" and past: "p \<le> j_nextSeq j"
  shows "entriesSince (p - 1) (snd (j_append order now a old new position j)) =
      entriesSince (p - 1) j @ [new_entry now a old new position j] \<longleftrightarrow>
    \<not> oldest_pinned p j"
proof -
  let ?e = "new_entry now a old new position j"
  let ?j = "j\<lparr>j_nextSeq := j_nextSeq j + 1, j_entries := j_entries j @ [?e]\<rparr>"
  have low: "lowest_pin (values_of order (j_pins ?j)) 0 = p"
    using lowest_pin_pins [OF order pos pin low] by simp
  have since: "entriesSince (p - 1) j' = filter (\<lambda>e. p \<le> je_Sequence e) (j_entries j')" for j'
    by (auto simp: entriesSince_def intro!: filter_cong)
  have full: "j_entries j \<noteq> []" if "0 < j_maxEntries j" "j_maxEntries j < int (length (j_entries ?j))"
    using that by auto
  have old: "oldestSequence j = je_Sequence (hd (j_entries j))" if "j_entries j \<noteq> []"
    using that by (cases "j_entries j") (auto simp: oldestSequence_def)
  show ?thesis
  proof (cases "oldest_pinned p j")
    case False
    have "filter (\<lambda>e. p \<le> je_Sequence e) (pruned order (now 1) ?j) = filter (\<lambda>e. p \<le> je_Sequence e) (j_entries ?j)"
      using low pos False full old by (intro pruned_keeps_pinned) (auto simp: oldest_pinned_def)
    with False past show ?thesis by (simp add: since j_append_state pruneLocked_def)
  next
    case True
    then have ne: "j_entries j \<noteq> []" by (auto simp: oldest_pinned_def)
    then have hd: "p \<le> je_Sequence (hd (j_entries ?j))" using True old by (auto simp: oldest_pinned_def)
    have "length (pruned order (now 1) ?j) < length (j_entries ?j)"
      using low pos _ _ hd by (rule pruned_drops_pinned) (use True in \<open>auto simp: oldest_pinned_def\<close>)
    moreover have "entriesSince (p - 1) (snd (j_append order now a old new position j)) =
        filter (\<lambda>e. p \<le> je_Sequence e) (pruned order (now 1) ?j)"
      unfolding since by (simp add: j_append_state pruneLocked_def)
    ultimately have short: "length (entriesSince (p - 1) (snd (j_append order now a old new position j))) < length (j_entries ?j)"
      by (metis le_less_trans length_filter_le)
    have "entriesSince (p - 1) j = j_entries j"
      unfolding since using journal_inv_sorted [OF inv, of 0] hd ne
      by (intro filter_True) (auto simp: in_set_conv_nth hd_conv_nth nth_append, fastforce)
    with short have "entriesSince (p - 1) (snd (j_append order now a old new position j)) \<noteq> entriesSince (p - 1) j @ [?e]"
      by auto
    with True show ?thesis by simp
  qed
qed

definition ex_journal :: "int \<Rightarrow> journal" where
  "ex_journal maxEntries =
     j_pin ''c'' 2 (snd (j_append [] (\<lambda>_. 0) ActionInsert None (Some Map.empty) (PosLSN 20)
       (snd (j_append [] (\<lambda>_. 0) ActionInsert None (Some Map.empty) (PosLSN 10) (newJournal maxEntries 0)))))"

lemma ex_journal_inv: "journal_inv (ex_journal m)"
  by (simp add: ex_journal_def j_append_inv newJournal_inv)

theorem pin_respected_iff_witness:
  "\<not> oldest_pinned 2 (ex_journal 5) \<and>
   entriesSince 1 (snd (j_append [''c''] (\<lambda>_. 0) ActionTruncate None None (PosLSN 30) (ex_journal 5))) =
     entriesSince 1 (ex_journal 5) @ [new_entry (\<lambda>_. 0) ActionTruncate None None (PosLSN 30) (ex_journal 5)]"
proof -
  have pins: "j_pins (ex_journal 5) = [''c'' \<mapsto> 2]"
    by (simp add: ex_journal_def j_pin_def frame_simps newJournal_def)
  have "j_nextSeq (ex_journal 5) = 3" by (simp add: ex_journal_def j_pin_def frame_simps newJournal_def)
  moreover have "\<not> oldest_pinned 2 (ex_journal 5)"
    by (simp add: oldest_pinned_def ex_journal_def j_pin_def j_append_def Let_def pruneLocked_def pruned_def
        age_prune_def newJournal_def)
  ultimately show ?thesis
    using pin_respected_iff [OF ex_journal_inv, of "[''c'']" 5 "''c''" 2] pins by (auto simp: iter_order_def)
qed

text \<open>C20: Resuming by position is exact for PostgreSQL positions.  Over a contiguous journal whose
  entries carry non-decreasing LSNs, the mapping of a client's last LSN reports uncovered exactly
  when every retained entry is newer; otherwise the entries after the returned sequence number are
  exactly the retained entries that are strictly newer than the client's LSN.\<close>
theorem resume_at_LSN:
  assumes "journal_inv j" and "position_sorted CompareLSN (\<lambda>p. \<exists>l. p = PosLSN l) (j_entries j)"
    and "resumeSeqForPosition CompareLSN (PosLSN l) j = (seq, covered)"
  shows "(\<not> covered \<longleftrightarrow> j_entries j \<noteq> [] \<and> (\<forall>e \<in> set (j_entries j). 0 < CompareLSN (je_Position e) (PosLSN l))) \<and>
    (covered \<longrightarrow> entriesSince seq j = filter (\<lambda>e. 0 < CompareLSN (je_Position e) (PosLSN l)) (j_entries j))"
  using pg_order.resume_exact [OF assms(1,2), of "PosLSN l" seq] pg_order.resume_uncovered [OF assms(2), of "PosLSN l"]
    assms(3) by auto

theorem resume_at_LSN_witness:
  "resumeSeqForPosition CompareLSN (PosLSN 15) (ex_journal 5) = (1, True) \<and>
   entriesSince 1 (ex_journal 5) = filter (\<lambda>e. 0 < CompareLSN (je_Position e) (PosLSN 15)) (j_entries (ex_journal 5))"
proof -
  have entries: "map je_Position (j_entries (ex_journal 5)) = [PosLSN 10, PosLSN 20]"
    by (simp add: ex_journal_def j_pin_def j_append_def Let_def pruneLocked_def pruned_def age_prune_def
        newJournal_def new_entry_def)
  have sorted: "position_sorted CompareLSN (\<lambda>p. \<exists>l. p = PosLSN l) (j_entries (ex_journal 5))"
    using entries by (auto simp: position_sorted_def CompareLSN_def map_eq_Cons_conv)
  have res: "resumeSeqForPosition CompareLSN (PosLSN 15) (ex_journal 5) = (1, True)"
    by (simp add: resumeSeqForPosition_def CompareLSN_def ex_journal_def j_pin_def j_append_def Let_def
        pruneLocked_def pruned_def age_prune_def newJournal_def new_entry_def)
  show ?thesis using resume_at_LSN [OF ex_journal_inv sorted res] res by simp
qed

end
