(* ===== verification/Fanout_Clients.thy ===== *)
theory Fanout_Clients
  imports Core_Types
begin

text \<open>
  The registry of connected replication clients (\<^verbatim>\<open>target/fanout/clients.go\<close>).  Each registration
  makes a disconnect channel; \<open>cr_chans\<close> numbers them and \<open>cr_closed\<close> holds the closed ones, so that
  closing a channel twice, which panics in Go, can be stated.
\<close>

section \<open>Model\<close>

record ClientInfo =
  ci_ID :: string
  ci_CurrentSequence :: int
  ci_ConnectedAt :: int
  ci_State :: string
  ci_BufferDepth :: int

record clientState =
  cs_id :: string
  cs_currentSequence :: int
  cs_connectedAt :: int
  cs_state :: string
  cs_bufferDepth :: int
  cs_sendCh :: nat

record clientRegistry =
  cr_clients :: "string \<rightharpoonup> clientState"
  cr_maxClients :: int
  cr_chans :: nat
  cr_closed :: "nat set"

definition newClientRegistry :: "int \<Rightarrow> clientRegistry" where
  "newClientRegistry maxClients =
     \<lparr>cr_clients = Map.empty, cr_maxClients = maxClients, cr_chans = 0, cr_closed = {}\<rparr>"

definition cr_register :: "int \<Rightarrow> string \<Rightarrow> clientRegistry \<Rightarrow> bool \<times> clientRegistry" where
  "cr_register now clientID r =
     (if 0 < cr_maxClients r \<and> cr_maxClients r \<le> int (card (dom (cr_clients r))) then (False, r)
      else (True, r\<lparr>cr_clients := (cr_clients r)(clientID \<mapsto>
              \<lparr>cs_id = clientID, cs_currentSequence = 0, cs_connectedAt = now, cs_state = ''catching_up'',
               cs_bufferDepth = 0, cs_sendCh = cr_chans r\<rparr>),
             cr_chans := cr_chans r + 1\<rparr>))"

definition cr_unregister :: "string \<Rightarrow> clientRegistry \<Rightarrow> clientRegistry" where
  "cr_unregister clientID r =
     (case cr_clients r clientID of
        Some cs \<Rightarrow> r\<lparr>cr_closed := insert (cs_sendCh cs) (cr_closed r), cr_clients := (cr_clients r)(clientID := None)\<rparr>
      | None \<Rightarrow> r)"

definition with_client :: "(clientState \<Rightarrow> clientState) \<Rightarrow> string \<Rightarrow> clientRegistry \<Rightarrow> clientRegistry" where
  "with_client f clientID r =
     (case cr_clients r clientID of
        Some cs \<Rightarrow> r\<lparr>cr_clients := (cr_clients r)(clientID \<mapsto> f cs)\<rparr>
      | None \<Rightarrow> r)"

definition cr_updateSequence :: "string \<Rightarrow> int \<Rightarrow> clientRegistry \<Rightarrow> clientRegistry" where
  "cr_updateSequence clientID seq = with_client (\<lambda>cs. cs\<lparr>cs_currentSequence := seq\<rparr>) clientID"

definition cr_setState :: "string \<Rightarrow> string \<Rightarrow> clientRegistry \<Rightarrow> clientRegistry" where
  "cr_setState clientID state = with_client (\<lambda>cs. cs\<lparr>cs_state := state\<rparr>) clientID"

definition cr_setBufferDepth :: "string \<Rightarrow> int \<Rightarrow> clientRegistry \<Rightarrow> clientRegistry" where
  "cr_setBufferDepth clientID depth = with_client (\<lambda>cs. cs\<lparr>cs_bufferDepth := depth\<rparr>) clientID"

definition cr_count :: "clientRegistry \<Rightarrow> nat" where
  "cr_count r = card (dom (cr_clients r))"

definition client_info :: "clientState \<Rightarrow> ClientInfo" where
  "client_info cs =
     \<lparr>ci_ID = cs_id cs, ci_CurrentSequence = cs_currentSequence cs, ci_ConnectedAt = cs_connectedAt cs,
      ci_State = cs_state cs, ci_BufferDepth = cs_bufferDepth cs\<rparr>"

definition cr_list :: "string list \<Rightarrow> clientRegistry \<Rightarrow> ClientInfo list" where
  "cr_list order r = map client_info (values_of order (cr_clients r))"

definition cr_get :: "string \<Rightarrow> clientRegistry \<Rightarrow> ClientInfo option" where
  "cr_get clientID r = map_option client_info (cr_clients r clientID)"

fun disconnect_loop :: "string list \<Rightarrow> clientRegistry \<Rightarrow> clientRegistry" where
  "disconnect_loop [] r = r"
| "disconnect_loop (clientID # ids) r = disconnect_loop ids (cr_unregister clientID r)"

definition cr_disconnectAll :: "string list \<Rightarrow> clientRegistry \<Rightarrow> clientRegistry" where
  "cr_disconnectAll order r = disconnect_loop order r"

section \<open>Invariant\<close>

text \<open>The limit holds, and every registered client has an open channel of its own: no close panics.\<close>

definition chans_inv :: "clientRegistry \<Rightarrow> bool" where
  "chans_inv r \<longleftrightarrow>
     (\<forall>c cs. cr_clients r c = Some cs \<longrightarrow> cs_id cs = c \<and> cs_sendCh cs < cr_chans r \<and> cs_sendCh cs \<notin> cr_closed r) \<and>
     (\<forall>c c' cs cs'. cr_clients r c = Some cs \<longrightarrow> cr_clients r c' = Some cs' \<longrightarrow> cs_sendCh cs = cs_sendCh cs' \<longrightarrow> c = c') \<and>
     (\<forall>ch \<in> cr_closed r. ch < cr_chans r)"

definition registry_inv :: "clientRegistry \<Rightarrow> bool" where
  "registry_inv r \<longleftrightarrow>
     finite (dom (cr_clients r)) \<and>
     (0 < cr_maxClients r \<longrightarrow> int (card (dom (cr_clients r))) \<le> cr_maxClients r) \<and> chans_inv r"

inductive registry_step :: "clientRegistry \<Rightarrow> clientRegistry \<Rightarrow> bool" where
  "registry_step r (snd (cr_register now c r))"
| "registry_step r (cr_unregister c r)"
| "registry_step r (cr_updateSequence c seq r)"
| "registry_step r (cr_setState c st r)"
| "registry_step r (cr_setBufferDepth c d r)"
| "iter_order order (cr_clients r) \<Longrightarrow> registry_step r (cr_disconnectAll order r)"

lemma chans_inv_register: "chans_inv r \<Longrightarrow> chans_inv (snd (cr_register now c r))"
proof (cases "0 < cr_maxClients r \<and> cr_maxClients r \<le> int (card (dom (cr_clients r)))")
  case False
  assume inv: "chans_inv r"
  let ?r = "snd (cr_register now c r)"
  have upd: "cr_clients ?r c' = Some cs \<Longrightarrow>
      (if c' = c then cs_id cs = c \<and> cs_sendCh cs = cr_chans r else cr_clients r c' = Some cs)" for c' cs
    using False by (auto simp: cr_register_def split: if_splits)
  have old: "cr_clients r c' = Some cs \<Longrightarrow> cs_id cs = c' \<and> cs_sendCh cs < cr_chans r \<and> cs_sendCh cs \<notin> cr_closed r" for c' cs
    using inv by (simp add: chans_inv_def)
  have rest: "cr_chans ?r = Suc (cr_chans r)" "cr_closed ?r = cr_closed r"
    using False by (simp_all add: cr_register_def)
  have closed: "ch \<in> cr_closed r \<Longrightarrow> ch < cr_chans r" for ch using inv by (simp add: chans_inv_def)
  have one: "cs_id cs = c' \<and> cs_sendCh cs < Suc (cr_chans r) \<and> cs_sendCh cs \<notin> cr_closed r"
    if "cr_clients ?r c' = Some cs" for c' cs
    using upd [OF that] old [of c' cs] closed [of "cs_sendCh cs"] by (auto split: if_splits)
  moreover have "c1 = c2" if "cr_clients ?r c1 = Some cs1" "cr_clients ?r c2 = Some cs2" "cs_sendCh cs1 = cs_sendCh cs2"
    for c1 c2 cs1 cs2
    using upd [OF that(1)] upd [OF that(2)] that(3) old [of c1 cs1] old [of c2 cs2] inv
    by (auto simp: chans_inv_def split: if_splits)
  ultimately show ?thesis unfolding chans_inv_def rest using closed by (meson less_SucI)
qed (simp add: cr_register_def)

lemma cr_register_inv:
  assumes "registry_inv r"
  shows "registry_inv (snd (cr_register now c r))"
proof -
  have fin: "finite (dom (cr_clients r))" and ch: "chans_inv (snd (cr_register now c r))"
    using assms by (simp_all add: registry_inv_def chans_inv_register)
  have "int (card (dom ((cr_clients r)(c \<mapsto> cs)))) \<le> int (card (dom (cr_clients r))) + 1" for cs
    unfolding card_dom_upd [OF fin] by simp
  then have "0 < cr_maxClients r \<Longrightarrow>
      int (card (dom (cr_clients (snd (cr_register now c r))))) \<le> cr_maxClients r"
    using assms by (auto simp: registry_inv_def cr_register_def simp del: dom_fun_upd) (smt (verit))
  then show ?thesis using fin ch by (auto simp: registry_inv_def cr_register_def)
qed

lemma chans_inv_unregister: "chans_inv r \<Longrightarrow> chans_inv (cr_unregister c r)"
proof (cases "cr_clients r c")
  case (Some cs)
  assume inv: "chans_inv r"
  let ?r = "cr_unregister c r"
  have rest: "cr_chans ?r = cr_chans r" "cr_closed ?r = insert (cs_sendCh cs) (cr_closed r)"
    using Some by (simp_all add: cr_unregister_def)
  have sub: "cr_clients ?r c' = Some cs' \<Longrightarrow> c' \<noteq> c \<and> cr_clients r c' = Some cs'" for c' cs'
    using Some by (auto simp: cr_unregister_def split: if_splits)
  show ?thesis unfolding chans_inv_def rest
  proof (intro conjI allI impI ballI)
    fix c' cs' assume "cr_clients ?r c' = Some cs'"
    with sub have c': "c' \<noteq> c" "cr_clients r c' = Some cs'" by blast+
    with inv Some show "cs_id cs' = c'" "cs_sendCh cs' < cr_chans r" "cs_sendCh cs' \<notin> insert (cs_sendCh cs) (cr_closed r)"
      unfolding chans_inv_def by blast+
  next
    fix c1 c2 cs1 cs2
    assume "cr_clients ?r c1 = Some cs1" "cr_clients ?r c2 = Some cs2" "cs_sendCh cs1 = cs_sendCh cs2"
    with sub inv show "c1 = c2" unfolding chans_inv_def by blast
  next
    fix ch assume "ch \<in> insert (cs_sendCh cs) (cr_closed r)"
    with inv Some show "ch < cr_chans r" unfolding chans_inv_def by blast
  qed
qed (simp add: cr_unregister_def)

lemma cr_unregister_inv:
  assumes "registry_inv r"
  shows "registry_inv (cr_unregister c r)"
proof (cases "cr_clients r c")
  case (Some cs)
  have "card (dom (cr_clients r) - {c}) \<le> card (dom (cr_clients r))"
    using assms by (simp add: registry_inv_def card_Diff1_le)
  moreover have "chans_inv (cr_unregister c r)" using assms by (simp add: registry_inv_def chans_inv_unregister)
  ultimately show ?thesis
    using assms Some unfolding registry_inv_def
    by (simp add: cr_unregister_def) (meson of_nat_le_iff order_trans)
qed (use assms in \<open>simp add: cr_unregister_def\<close>)

lemma with_client_inv:
  assumes "registry_inv r" and id: "\<And>cs. cs_id (f cs) = cs_id cs" and ch: "\<And>cs. cs_sendCh (f cs) = cs_sendCh cs"
  shows "registry_inv (with_client f c r)"
proof (cases "cr_clients r c")
  case (Some cs)
  then have dom: "dom ((cr_clients r)(c \<mapsto> f cs)) = dom (cr_clients r)" by auto
  have "chans_inv (r\<lparr>cr_clients := (cr_clients r)(c \<mapsto> f cs)\<rparr>)"
  proof -
    have inv: "chans_inv r" using assms(1) by (simp add: registry_inv_def)
    have old: "\<exists>cs''. cr_clients r c' = Some cs'' \<and> cs_id cs'' = cs_id cs' \<and> cs_sendCh cs'' = cs_sendCh cs'"
      if "((cr_clients r)(c \<mapsto> f cs)) c' = Some cs'" for c' cs'
      using that Some id [of cs] ch [of cs] by (auto split: if_splits)
    have one: "cs_id cs' = c' \<and> cs_sendCh cs' < cr_chans r \<and> cs_sendCh cs' \<notin> cr_closed r"
      if "((cr_clients r)(c \<mapsto> f cs)) c' = Some cs'" for c' cs'
      using old [OF that] inv unfolding chans_inv_def by metis
    have two: "c1 = c2"
      if "((cr_clients r)(c \<mapsto> f cs)) c1 = Some cs1" "((cr_clients r)(c \<mapsto> f cs)) c2 = Some cs2"
        "cs_sendCh cs1 = cs_sendCh cs2" for c1 c2 cs1 cs2
    proof -
      note same = that
      obtain d1 d2 where "cr_clients r c1 = Some d1" "cr_clients r c2 = Some d2" "cs_sendCh d1 = cs_sendCh d2"
        using old [OF same(1)] old [OF same(2)] same(3) by auto
      with inv show ?thesis unfolding chans_inv_def by blast
    qed
    have "\<forall>ch \<in> cr_closed r. ch < cr_chans r" using inv unfolding chans_inv_def by blast
    with one two show ?thesis
      unfolding chans_inv_def by (simp del: fun_upd_apply)
  qed
  with assms(1) dom Some show ?thesis
    by (simp add: registry_inv_def with_client_def del: dom_fun_upd)
qed (use assms(1) in \<open>simp add: with_client_def\<close>)

lemma disconnect_loop_inv: "registry_inv r \<Longrightarrow> registry_inv (disconnect_loop ids r)"
  by (induction ids arbitrary: r) (simp_all add: cr_unregister_inv)

lemma registry_step_inv: "registry_step r r' \<Longrightarrow> registry_inv r \<Longrightarrow> registry_inv r'"
  by (induction rule: registry_step.induct)
    (simp_all add: cr_register_inv cr_unregister_inv cr_updateSequence_def cr_setState_def cr_setBufferDepth_def
      with_client_inv cr_disconnectAll_def disconnect_loop_inv)

lemma newClientRegistry_inv: "0 \<le> m \<Longrightarrow> registry_inv (newClientRegistry m)"
  by (simp add: registry_inv_def chans_inv_def newClientRegistry_def)

section \<open>Properties\<close>

text \<open>The client limit is never exceeded and no disconnect channel is closed twice: in every
  registry reached from a new one with a positive limit, the number of clients is at most the limit,
  and each registered client has a channel of its own that is still open.\<close>
theorem client_limit:
  assumes "registry_step\<^sup>*\<^sup>* (newClientRegistry m) r" and "0 < m"
  shows "int (cr_count r) \<le> m \<and> (\<forall>c cs. cr_clients r c = Some cs \<longrightarrow> cs_sendCh cs \<notin> cr_closed r)"
proof -
  have "registry_inv r \<and> cr_maxClients r = m"
    using assms
  proof (induction rule: rtranclp_induct)
    case base
    then show ?case by (simp add: newClientRegistry_inv) (simp add: newClientRegistry_def)
  next
    case (step r r')
    have "cr_maxClients (disconnect_loop ids r) = cr_maxClients r" for ids r
      by (induction ids arbitrary: r) (auto simp: cr_unregister_def split: option.split)
    with step.hyps(2) have "cr_maxClients r' = cr_maxClients r"
      by cases (auto simp: cr_register_def cr_unregister_def cr_updateSequence_def cr_setState_def
          cr_setBufferDepth_def with_client_def cr_disconnectAll_def split: option.split)
    with step show ?case using registry_step_inv by auto
  qed
  with assms(2) show ?thesis by (auto simp: registry_inv_def chans_inv_def cr_count_def)
qed

end
