(* ===== verification/Fanout_Target.thy ===== *)
theory Fanout_Target
  imports Sync_Target Fanout_Journal Fanout_Clients
begin

text \<open>
  The fan-out target (\<^verbatim>\<open>target/fanout/fanout.go\<close>): the rows in memory, the journal, the client
  registry, retained snapshots and the drain state.  The operations that append to the journal take
  \<open>po\<close>, which gives the order in which the runtime iterates over a pin map.  The facts show that
  the journal explains the store: replaying it rebuilds the rows, so a client that starts from the
  store at some sequence number and applies the entries after it converges.
\<close>

section \<open>State and options\<close>

record fanout_config =
  maxJournalEntries :: int
  maxJournalAge :: int
  snapshotInterval :: int
  snapshotKeepCount :: int
  snapshotMaxAge :: int
  cfg_maxClients :: int
  clientBufferSize :: int
  clientBufferPolicy :: string
  heartbeatInterval :: int

record Snapshot =
  snap_ID :: string
  snap_Sequence :: int
  snap_RowCount :: int
  snap_Rows :: "row list"
  snap_CreatedAt :: int

datatype drain_chan = NilChan | OpenChan | ClosedChan

record Target =
  ft_cfg :: fanout_config
  ft_store :: "string \<rightharpoonup> row"
  ft_j :: journal
  ft_clients :: clientRegistry
  ft_ready :: bool
  ft_table :: TableIdentifier
  ft_cols :: "ColumnDefinition list"
  ft_snapshots :: "Snapshot list"
  ft_curPos :: position
  drainCh :: drain_chan
  draining :: bool
  drainReason :: string
  drainDeadline :: int

type_synonym pin_order = "(string \<rightharpoonup> int) \<Rightarrow> string list"

definition JournalMaxEntries :: "int \<Rightarrow> fanout_config \<Rightarrow> fanout_config" where
  "JournalMaxEntries n c = c\<lparr>maxJournalEntries := n\<rparr>"

definition JournalMaxAge :: "int \<Rightarrow> fanout_config \<Rightarrow> fanout_config" where
  "JournalMaxAge d c = c\<lparr>maxJournalAge := d\<rparr>"

definition SnapshotInterval :: "int \<Rightarrow> fanout_config \<Rightarrow> fanout_config" where
  "SnapshotInterval d c = c\<lparr>snapshotInterval := d\<rparr>"

definition SnapshotKeepCount :: "int \<Rightarrow> fanout_config \<Rightarrow> fanout_config" where
  "SnapshotKeepCount n c = c\<lparr>snapshotKeepCount := n\<rparr>"

definition SnapshotMaxAge :: "int \<Rightarrow> fanout_config \<Rightarrow> fanout_config" where
  "SnapshotMaxAge d c = c\<lparr>snapshotMaxAge := d\<rparr>"

definition MaxClients :: "int \<Rightarrow> fanout_config \<Rightarrow> fanout_config" where
  "MaxClients n c = c\<lparr>cfg_maxClients := n\<rparr>"

definition ClientBufferSize :: "int \<Rightarrow> fanout_config \<Rightarrow> fanout_config" where
  "ClientBufferSize n c = c\<lparr>clientBufferSize := n\<rparr>"

definition ClientBufferPolicy :: "string \<Rightarrow> fanout_config \<Rightarrow> fanout_config" where
  "ClientBufferPolicy p c = c\<lparr>clientBufferPolicy := p\<rparr>"

definition HeartbeatInterval :: "int \<Rightarrow> fanout_config \<Rightarrow> fanout_config" where
  "HeartbeatInterval d c = c\<lparr>heartbeatInterval := d\<rparr>"

text \<open>Durations are in nanoseconds: 24 hours and 5 seconds.\<close>

definition fanout_New :: "(fanout_config \<Rightarrow> fanout_config) list \<Rightarrow> Target" where
  "fanout_New opts =
     (let cfg = foldl (\<lambda>c opt. opt c)
            \<lparr>maxJournalEntries = 100000, maxJournalAge = 86400000000000, snapshotInterval = 0,
             snapshotKeepCount = 0, snapshotMaxAge = 0, cfg_maxClients = 0, clientBufferSize = 0,
             clientBufferPolicy = [], heartbeatInterval = 5000000000\<rparr> opts
      in \<lparr>ft_cfg = cfg, ft_store = Map.empty, ft_j = newJournal (maxJournalEntries cfg) (maxJournalAge cfg),
          ft_clients = newClientRegistry (cfg_maxClients cfg), ft_ready = False, ft_table = Table [] [],
          ft_cols = [], ft_snapshots = [], ft_curPos = PosNil, drainCh = NilChan, draining = False,
          drainReason = [], drainDeadline = 0\<rparr>)"

section \<open>Keys\<close>

fun join_nul :: "string list \<Rightarrow> string" where
  "join_nul [] = []"
| "join_nul [p] = p"
| "join_nul (p # q # ps) = p @ CHR 0x00 # join_nul (q # ps)"

definition fanout_key :: "ColumnDefinition list \<Rightarrow> row \<Rightarrow> string" where
  "fanout_key cols r =
     (let parts = map (\<lambda>c. Sprint_v (row_get r (Name c))) (filter PrimaryKey cols) in
      if length parts = 0 then (case r ''id'' of Some v \<Rightarrow> Sprint_v v | None \<Rightarrow> join_nul parts)
      else join_nul parts)"

section \<open>Positions and draining\<close>

definition SetChangePosition :: "position \<Rightarrow> Target \<Rightarrow> Target" where
  "SetChangePosition pos t = t\<lparr>ft_curPos := pos\<rparr>"

definition Drain :: "string \<Rightarrow> int \<Rightarrow> Target \<Rightarrow> Target" where
  "Drain reason deadline t =
     (if draining t then t
      else t\<lparr>draining := True, drainReason := reason, drainDeadline := deadline, drainCh := ClosedChan\<rparr>)"

definition Draining :: "Target \<Rightarrow> drain_chan \<times> Target" where
  "Draining t =
     (let t = (if drainCh t = NilChan then t\<lparr>drainCh := OpenChan\<rparr> else t) in (drainCh t, t))"

definition DrainInfo :: "Target \<Rightarrow> string \<times> int \<times> bool" where
  "DrainInfo t = (drainReason t, drainDeadline t, draining t)"

definition IsDraining :: "Target \<Rightarrow> bool" where
  "IsDraining t = draining t"

section \<open>The SyncTarget methods\<close>

definition fanout_OnInit :: "TableIdentifier \<Rightarrow> ColumnDefinition list \<Rightarrow> Target call" where
  "fanout_OnInit table columns t = (None, t\<lparr>ft_table := table, ft_cols := columns\<rparr>)"

definition journalled ::
    "pin_order \<Rightarrow> clock \<Rightarrow> ChangeAction \<Rightarrow> row option \<Rightarrow> row option \<Rightarrow> position \<Rightarrow> Target \<Rightarrow> Target" where
  "journalled po now a old new pos t =
     t\<lparr>ft_j := snd (j_append (po (j_pins (ft_j t))) now a old new pos (ft_j t))\<rparr>"

definition fanout_OnBaselineRow :: "pin_order \<Rightarrow> clock \<Rightarrow> TableIdentifier \<Rightarrow> row \<Rightarrow> Target call" where
  "fanout_OnBaselineRow po now tbl r t =
     (let key = fanout_key (ft_cols t) r;
          t = t\<lparr>ft_store := (ft_store t)(key \<mapsto> r)\<rparr>
      in (None, journalled po now ActionInsert None (Some r) PosNil t))"

definition fanout_OnBaselineComplete :: "TableIdentifier \<Rightarrow> Target call" where
  "fanout_OnBaselineComplete tbl t =
     (let t = t\<lparr>ft_ready := True\<rparr> in (None, t\<lparr>ft_j := backfillNilPositions (ft_curPos t) (ft_j t)\<rparr>))"

definition fanout_OnInsert :: "pin_order \<Rightarrow> clock \<Rightarrow> TableIdentifier \<Rightarrow> row \<Rightarrow> Target call" where
  "fanout_OnInsert po now tbl r t =
     (let key = fanout_key (ft_cols t) r;
          t = t\<lparr>ft_store := (ft_store t)(key \<mapsto> r)\<rparr>
      in (None, journalled po now ActionInsert None (Some r) (ft_curPos t) t))"

definition fanout_OnUpdate :: "pin_order \<Rightarrow> clock \<Rightarrow> TableIdentifier \<Rightarrow> row \<Rightarrow> row \<Rightarrow> Target call" where
  "fanout_OnUpdate po now tbl r ident t =
     (let key = fanout_key (ft_cols t) r;
          old = ft_store t key;
          t = t\<lparr>ft_store := (ft_store t)(key \<mapsto> r)\<rparr>
      in (None, journalled po now ActionUpdate old (Some r) (ft_curPos t) t))"

definition fanout_OnDelete :: "pin_order \<Rightarrow> clock \<Rightarrow> TableIdentifier \<Rightarrow> row \<Rightarrow> Target call" where
  "fanout_OnDelete po now tbl ident t =
     (let key = fanout_key (ft_cols t) ident;
          old = ft_store t key;
          t = t\<lparr>ft_store := (ft_store t)(key := None)\<rparr>
      in (None, journalled po now ActionDelete old None (ft_curPos t) t))"

definition fanout_OnTruncate :: "pin_order \<Rightarrow> clock \<Rightarrow> TableIdentifier \<Rightarrow> Target call" where
  "fanout_OnTruncate po now tbl t =
     (let t = t\<lparr>ft_store := Map.empty\<rparr>
      in (None, journalled po now ActionTruncate None None (ft_curPos t) t))"

definition fanout_OnSchemaChange ::
    "pin_order \<Rightarrow> clock \<Rightarrow> TableIdentifier \<Rightarrow> ColumnDefinition list \<Rightarrow> ColumnDefinition list \<Rightarrow> Target \<Rightarrow>
     (SchemaChangeAction \<times> string) \<times> Target" where
  "fanout_OnSchemaChange po now tbl oldColumns newColumns t =
     (let t = t\<lparr>ft_cols := newColumns\<rparr>
      in ((SchemaReBaseline, []), journalled po now ActionTruncate None None (ft_curPos t) t))"

definition fanout_ExportSnapshot :: "string list \<Rightarrow> Target \<Rightarrow> goerror + row list" where
  "fanout_ExportSnapshot order t = Inr (values_of order (ft_store t))"

definition fanout_RestoreSnapshot :: "TableSnapshotInfo \<Rightarrow> row list \<Rightarrow> Target call" where
  "fanout_RestoreSnapshot info rs t =
     (None, t\<lparr>ft_store := foldl (\<lambda>m r. m(fanout_key (ft_cols t) r \<mapsto> r)) Map.empty rs, ft_ready := True\<rparr>)"

definition fanout_OnClose :: "TableIdentifier \<Rightarrow> Target call" where
  "fanout_OnClose tbl t = (None, t\<lparr>ft_ready := False\<rparr>)"

section \<open>Queries, snapshots and clients\<close>

definition fanout_Count :: "Target \<Rightarrow> nat" where
  "fanout_Count t = card (dom (ft_store t))"

definition Columns :: "Target \<Rightarrow> ColumnDefinition list" where
  "Columns t = ft_cols t"

definition fanout_IsReady :: "Target \<Rightarrow> bool" where
  "fanout_IsReady t = ft_ready t"

definition JournalSequence :: "Target \<Rightarrow> int" where
  "JournalSequence t = currentSequence (ft_j t)"

definition JournalOldestSequence :: "Target \<Rightarrow> int" where
  "JournalOldestSequence t = oldestSequence (ft_j t)"

definition JournalLen :: "Target \<Rightarrow> nat" where
  "JournalLen t = j_len (ft_j t)"

definition JournalEntriesSince :: "int \<Rightarrow> Target \<Rightarrow> JournalEntry list" where
  "JournalEntriesSince afterSeq t = entriesSince afterSeq (ft_j t)"

definition ResumeSequenceForPosition :: "position \<Rightarrow> (position \<Rightarrow> position \<Rightarrow> int) \<Rightarrow> Target \<Rightarrow> int \<times> bool" where
  "ResumeSequenceForPosition pos cmp t = resumeSeqForPosition cmp pos (ft_j t)"

fun older_cut :: "int \<Rightarrow> Snapshot list \<Rightarrow> Snapshot list" where
  "older_cut cutoff [] = []"
| "older_cut cutoff (s # ss) = (if snap_CreatedAt s < cutoff then [] else s # older_cut cutoff ss)"

definition pruneSnapshots :: "int \<Rightarrow> Target \<Rightarrow> Target" where
  "pruneSnapshots now t =
     (let keep = snapshotKeepCount (ft_cfg t);
          snaps = (if 0 < keep \<and> keep < int (length (ft_snapshots t)) then take (nat keep) (ft_snapshots t)
                   else ft_snapshots t);
          maxAge = snapshotMaxAge (ft_cfg t)
      in t\<lparr>ft_snapshots := (if 0 < maxAge then older_cut (now - maxAge) snaps else snaps)\<rparr>)"

definition TakeSnapshot :: "string list \<Rightarrow> clock \<Rightarrow> Target \<Rightarrow> Snapshot \<times> Target" where
  "TakeSnapshot order now t =
     (let rows = values_of order (ft_store t);
          snap = \<lparr>snap_ID = ''fanout-'' @ Itoa (currentSequence (ft_j t)) @ ''-'' @ Itoa (now 0 div 1000000),
                  snap_Sequence = currentSequence (ft_j t), snap_RowCount = int (length rows), snap_Rows = rows,
                  snap_CreatedAt = now 1\<rparr>;
          t = t\<lparr>ft_snapshots := [snap] @ ft_snapshots t\<rparr>
      in (snap, pruneSnapshots (now 2) t))"

definition ListSnapshots :: "Target \<Rightarrow> Snapshot list" where
  "ListSnapshots t = ft_snapshots t"

definition LatestSnapshot :: "Target \<Rightarrow> Snapshot option" where
  "LatestSnapshot t = (case ft_snapshots t of [] \<Rightarrow> None | s # _ \<Rightarrow> Some s)"

text \<open>One tick of the snapshot scheduler.\<close>

definition snapshot_tick :: "string list \<Rightarrow> clock \<Rightarrow> Target \<Rightarrow> Target" where
  "snapshot_tick order now t =
     (if snapshotInterval (ft_cfg t) \<le> 0 then t
      else if fanout_IsReady t then snd (TakeSnapshot order now t) else t)"

definition RegisterClient :: "int \<Rightarrow> string \<Rightarrow> Target \<Rightarrow> bool \<times> Target" where
  "RegisterClient now clientID t =
     (let (ok, r) = cr_register now clientID (ft_clients t) in (ok, t\<lparr>ft_clients := r\<rparr>))"

definition UnregisterClient :: "string \<Rightarrow> Target \<Rightarrow> Target" where
  "UnregisterClient clientID t = t\<lparr>ft_clients := cr_unregister clientID (ft_clients t)\<rparr>"

definition UpdateClientSequence :: "string \<Rightarrow> int \<Rightarrow> Target \<Rightarrow> Target" where
  "UpdateClientSequence clientID seq t = t\<lparr>ft_clients := cr_updateSequence clientID seq (ft_clients t)\<rparr>"

definition SetClientState :: "string \<Rightarrow> string \<Rightarrow> Target \<Rightarrow> Target" where
  "SetClientState clientID state t = t\<lparr>ft_clients := cr_setState clientID state (ft_clients t)\<rparr>"

definition ConnectedClients :: "Target \<Rightarrow> nat" where
  "ConnectedClients t = cr_count (ft_clients t)"

definition ClientList :: "string list \<Rightarrow> Target \<Rightarrow> ClientInfo list" where
  "ClientList order t = cr_list order (ft_clients t)"

definition PinJournal :: "string \<Rightarrow> int \<Rightarrow> Target \<Rightarrow> Target" where
  "PinJournal clientID seq t = t\<lparr>ft_j := j_pin clientID seq (ft_j t)\<rparr>"

definition UnpinJournal :: "string \<Rightarrow> Target \<Rightarrow> Target" where
  "UnpinJournal clientID t = t\<lparr>ft_j := j_unpin clientID (ft_j t)\<rparr>"

definition fanout_vt :: "pin_order \<Rightarrow> Target SyncTarget" where
  "fanout_vt po =
     \<lparr>t_OnInit = fanout_OnInit, t_OnBaselineRow = fanout_OnBaselineRow po,
      t_OnBaselineComplete = fanout_OnBaselineComplete, t_OnInsert = fanout_OnInsert po,
      t_OnUpdate = fanout_OnUpdate po, t_OnDelete = fanout_OnDelete po, t_OnTruncate = fanout_OnTruncate po,
      t_IsDurable = (\<lambda>_. True), t_OnSchemaChange = fanout_OnSchemaChange po,
      t_ExportSnapshot = fanout_ExportSnapshot, t_RestoreSnapshot = fanout_RestoreSnapshot,
      t_SupportsConsistentSnapshot = False, t_OnClose = fanout_OnClose,
      t_SetChangePosition = Some SetChangePosition, t_Count = Some fanout_Count, t_All = None\<rparr>"

section \<open>The store implements a keyed table\<close>

lemma journalled_frame [frame_simps]:
  "ft_store (journalled po now a old new pos t) = ft_store t" "ft_cols (journalled po now a old new pos t) = ft_cols t"
  "ft_curPos (journalled po now a old new pos t) = ft_curPos t" "ft_cfg (journalled po now a old new pos t) = ft_cfg t"
  by (simp_all add: journalled_def)

lemma foldl_table_put: "foldl (\<lambda>m r. m(key r \<mapsto> r)) m rs = table_put key rs m"
  by (induction rs arbitrary: m) auto

definition ft_keyed :: "ColumnDefinition list \<Rightarrow> Target \<Rightarrow> bool" where
  "ft_keyed cols t \<longleftrightarrow> ft_cols t = cols \<and> keyed (fanout_key cols) (ft_store t)"

lemmas fanout_ops = fanout_OnBaselineRow_def fanout_OnBaselineComplete_def fanout_OnInsert_def
  fanout_OnUpdate_def fanout_OnDelete_def fanout_OnTruncate_def fanout_ExportSnapshot_def
  fanout_RestoreSnapshot_def SetChangePosition_def fanout_Count_def

interpretation fanout: keyed_target "fanout_vt po" "fanout_key cols" ft_store "ft_keyed cols" for po cols
  by unfold_locales (auto simp: fanout_vt_def ft_keyed_def fanout_ops Let_def frame_simps foldl_table_put)

section \<open>The journal explains the store\<close>

text \<open>What a replica does with a change: it stores the new row of an insert or update under its
  key, removes the key of the old row of a delete, and drops everything on a truncate.\<close>

fun apply_change :: "(row \<Rightarrow> string) \<Rightarrow> (string \<rightharpoonup> row) \<Rightarrow> change \<Rightarrow> (string \<rightharpoonup> row)" where
  "apply_change key m (seq, ActionInsert, old, new) = m(key (nilrow new) \<mapsto> nilrow new)"
| "apply_change key m (seq, ActionUpdate, old, new) = m(key (nilrow new) \<mapsto> nilrow new)"
| "apply_change key m (seq, ActionDelete, old, new) = (case old of None \<Rightarrow> m | Some r \<Rightarrow> m(key r := None))"
| "apply_change key m (seq, ActionTruncate, old, new) = Map.empty"

definition replay_changes :: "ColumnDefinition list \<Rightarrow> (string \<rightharpoonup> row) \<Rightarrow> JournalEntry list \<Rightarrow> (string \<rightharpoonup> row)" where
  "replay_changes cols m es = foldl (apply_change (fanout_key cols)) m (map je_change es)"

definition fanout_hist :: "(string \<rightharpoonup> row) \<Rightarrow> change list \<Rightarrow> Target \<Rightarrow> bool" where
  "fanout_hist B H t \<longleftrightarrow> (\<exists>n. journal_hist H n (ft_j t)) \<and> keyed (fanout_key (ft_cols t)) (ft_store t) \<and>
     ft_store t = foldl (apply_change (fanout_key (ft_cols t))) B H"

text \<open>The calls between a baseline or restore and the next schema change.\<close>

inductive fanout_step :: "Target \<Rightarrow> Target \<Rightarrow> bool" where
  position: "fanout_step t (SetChangePosition pos t)"
| baseline: "fanout_step t (snd (fanout_OnBaselineRow po now tbl r t))"
| complete: "fanout_step t (snd (fanout_OnBaselineComplete tbl t))"
| ins: "fanout_step t (snd (fanout_OnInsert po now tbl r t))"
| upd: "fanout_step t (snd (fanout_OnUpdate po now tbl r ident t))"
| delete: "fanout_step t (snd (fanout_OnDelete po now tbl ident t))"
| truncate: "fanout_step t (snd (fanout_OnTruncate po now tbl t))"
| snapshot: "fanout_step t (snd (TakeSnapshot order now t))"
| tick: "fanout_step t (snapshot_tick order now t)"
| register: "fanout_step t (snd (RegisterClient n c t))"
| unregister: "fanout_step t (UnregisterClient c t)"
| sequence: "fanout_step t (UpdateClientSequence c seq t)"
| state: "fanout_step t (SetClientState c st t)"
| pin: "fanout_step t (PinJournal c seq t)"
| unpin: "fanout_step t (UnpinJournal c t)"
| drain: "fanout_step t (Drain reason deadline t)"
| draining: "fanout_step t (snd (Draining t))"
| close: "fanout_step t (snd (fanout_OnClose tbl t))"

inductive fanout_reach :: "Target \<Rightarrow> bool" where
  init: "fanout_reach (snd (fanout_OnInit tbl cols (fanout_New opts)))"
| restored: "fanout_reach (snd (fanout_RestoreSnapshot info rs (snd (fanout_OnInit tbl cols (fanout_New opts)))))"
| step: "fanout_reach t \<Longrightarrow> fanout_step t t' \<Longrightarrow> fanout_reach t'"

lemma fanout_hist_journalled:
  assumes "fanout_hist B H t"
    and "st = apply_change (fanout_key (ft_cols t)) (ft_store t) (j_nextSeq (ft_j t), a, old, new)"
    and "keyed (fanout_key (ft_cols t)) st"
  shows "\<exists>L. fanout_hist B (H @ L) (journalled po now a old new pos (t\<lparr>ft_store := st\<rparr>))"
proof -
  obtain n where "journal_hist H n (ft_j t)" using assms(1) by (auto simp: fanout_hist_def)
  then obtain n' where "journal_hist (H @ [(j_nextSeq (ft_j t), a, old, new)]) n'
      (snd (j_append (po (j_pins (ft_j t))) now a old new pos (ft_j t)))"
    using journal_hist_append by blast
  with assms show ?thesis
    by (intro exI [of _ "[(j_nextSeq (ft_j t), a, old, new)]"]) (auto simp: fanout_hist_def journalled_def)
qed

lemma fanout_hist_store_only:
  assumes "fanout_hist B H t" and "ft_cols t' = ft_cols t" and "ft_store t' = ft_store t"
    and "\<And>n. journal_hist H n (ft_j t) \<Longrightarrow> journal_hist H n (ft_j t')"
  shows "\<exists>L. fanout_hist B (H @ L) t'"
  using assms by (intro exI [of _ "[]"]) (auto simp: fanout_hist_def)

lemma TakeSnapshot_frame [frame_simps]:
  "ft_cols (snd (TakeSnapshot order now t)) = ft_cols t" "ft_store (snd (TakeSnapshot order now t)) = ft_store t"
  "ft_j (snd (TakeSnapshot order now t)) = ft_j t"
  by (simp_all add: TakeSnapshot_def pruneSnapshots_def Let_def)

lemma fanout_step_frame:
  assumes "fanout_step t t'"
  shows "ft_cols t' = ft_cols t"
  using assms
  by cases (auto simp: fanout_ops frame_simps Let_def snapshot_tick_def RegisterClient_def UnregisterClient_def
      UpdateClientSequence_def SetClientState_def PinJournal_def UnpinJournal_def Drain_def Draining_def
      fanout_OnClose_def split: prod.split)

lemmas fanout_quiet = frame_simps Let_def snapshot_tick_def RegisterClient_def UnregisterClient_def
  UpdateClientSequence_def SetClientState_def PinJournal_def UnpinJournal_def Drain_def Draining_def
  fanout_OnClose_def SetChangePosition_def fanout_OnBaselineComplete_def journal_hist_backfill

lemma fanout_step_hist:
  assumes "fanout_step t t'" and "fanout_hist B H t"
  shows "\<exists>L. fanout_hist B (H @ L) t'"
proof -
  have keyed: "keyed (fanout_key (ft_cols t)) (ft_store t)" using assms(2) unfolding fanout_hist_def by blast
  show ?thesis
    using assms(1)
  proof cases
    case (baseline po now tbl r)
    then show ?thesis
      by (auto simp: fanout_OnBaselineRow_def Let_def keyed intro!: fanout_hist_journalled [OF assms(2)])
  next
    case (ins po now tbl r)
    then show ?thesis
      by (auto simp: fanout_OnInsert_def Let_def keyed intro!: fanout_hist_journalled [OF assms(2)])
  next
    case (upd po now tbl r ident)
    then show ?thesis
      by (auto simp: fanout_OnUpdate_def Let_def keyed intro!: fanout_hist_journalled [OF assms(2)])
  next
    case (delete po now tbl ident)
    have "(ft_store t)(fanout_key (ft_cols t) ident := None) =
        apply_change (fanout_key (ft_cols t)) (ft_store t)
          (j_nextSeq (ft_j t), ActionDelete, ft_store t (fanout_key (ft_cols t) ident), None)"
      using keyed by (auto split: option.split dest: keyedD)
    from fanout_hist_journalled [OF assms(2) this, of po now "ft_curPos t"] delete keyed show ?thesis
      by (simp add: fanout_OnDelete_def Let_def del: apply_change.simps)
  next
    case (truncate po now tbl)
    then show ?thesis
      by (auto simp: fanout_OnTruncate_def Let_def intro!: fanout_hist_journalled [OF assms(2)])
  qed (rule fanout_hist_store_only [OF assms(2)]; simp add: fanout_quiet split: prod.split)+
qed

lemma fanout_reach_hist: "fanout_reach t \<Longrightarrow> \<exists>B H. fanout_hist B H t"
proof (induction rule: fanout_reach.induct)
  case (init tbl cols opts)
  have "fanout_hist Map.empty [] (snd (fanout_OnInit tbl cols (fanout_New opts)))"
    using journal_hist_new by (auto simp: fanout_hist_def fanout_OnInit_def fanout_New_def Let_def)
  then show ?case by blast
next
  case (restored info rs tbl cols opts)
  let ?t = "snd (fanout_RestoreSnapshot info rs (snd (fanout_OnInit tbl cols (fanout_New opts))))"
  have "fanout_hist (ft_store ?t) [] ?t"
    using journal_hist_new
    by (auto simp: fanout_hist_def fanout_OnInit_def fanout_RestoreSnapshot_def fanout_New_def Let_def foldl_table_put)
  then show ?case by blast
next
  case (step t t')
  then show ?case using fanout_step_hist by blast
qed

lemma fanout_steps_hist:
  assumes "fanout_step\<^sup>*\<^sup>* t t'" and "fanout_hist B H t"
  shows "\<exists>L. fanout_hist B (H @ L) t' \<and> ft_cols t' = ft_cols t"
  using assms(1)
proof (induction rule: rtranclp_induct)
  case base
  then show ?case using assms(2) by (intro exI [of _ "[]"]) simp
next
  case (step u u')
  then show ?case using fanout_step_hist fanout_step_frame by (metis append.assoc)
qed

text \<open>\<open>covers s t\<close>: the journal still holds every change after sequence number \<open>s\<close>, as the server
  tests it: the oldest retained entry is not newer than the next one the client needs.\<close>

definition covers :: "int \<Rightarrow> Target \<Rightarrow> bool" where
  "covers s t \<longleftrightarrow> s = JournalSequence t \<or> (0 < JournalLen t \<and> JournalOldestSequence t \<le> s + 1)"

lemma fanout_hist_sequence: "fanout_hist B H t \<Longrightarrow> JournalSequence t = int (length H)"
  by (auto simp: fanout_hist_def journal_hist_def JournalSequence_def currentSequence_def)

lemma fanout_hist_since:
  assumes "fanout_hist B (H @ L) t" and "covers (int (length H)) t"
  shows "map je_change (JournalEntriesSince (int (length H)) t) = L"
proof -
  obtain n where n: "journal_hist (H @ L) n (ft_j t)" using assms(1) by (auto simp: fanout_hist_def)
  show ?thesis
  proof (cases "L = []")
    case True
    with n have "map je_change (entriesSince (int (length H)) (ft_j t)) = []"
      using entriesSince_drop [OF journal_hist_inv [OF n], of "int (length H)"] by (simp add: journal_hist_def)
    with True show ?thesis by (simp add: JournalEntriesSince_def)
  next
    case False
    then have "int (length H) \<noteq> JournalSequence t" using fanout_hist_sequence [OF assms(1)] by simp
    with assms(2) have "j_entries (ft_j t) \<noteq> []" "oldestSequence (ft_j t) \<le> int (length H) + 1"
      by (auto simp: covers_def JournalLen_def j_len_def JournalOldestSequence_def)
    then have "n \<le> length H" using journal_hist_oldest [OF n] by simp
    then show ?thesis using journal_hist_since [OF n] by (simp add: JournalEntriesSince_def)
  qed
qed

lemma fanout_catch_up:
  assumes "fanout_reach t" and "fanout_step\<^sup>*\<^sup>* t t'" and "covers (JournalSequence t) t'"
  shows "replay_changes (ft_cols t) (ft_store t) (JournalEntriesSince (JournalSequence t) t') = ft_store t'"
proof -
  obtain B H where H: "fanout_hist B H t" using assms(1) fanout_reach_hist by blast
  with assms(2) obtain L where L: "fanout_hist B (H @ L) t'" "ft_cols t' = ft_cols t"
    using fanout_steps_hist by blast
  have "map je_change (JournalEntriesSince (JournalSequence t) t') = L"
    using fanout_hist_since [OF L(1)] assms(3) fanout_hist_sequence [OF H] by simp
  with H L show ?thesis by (simp add: replay_changes_def fanout_hist_def)
qed

lemma fanout_reach_keyed: "fanout_reach t \<Longrightarrow> keyed (fanout_key (ft_cols t)) (ft_store t)"
  using fanout_reach_hist unfolding fanout_hist_def by blast

section \<open>Properties\<close>


definition ex_ft :: Target where
  "ex_ft = snd (fanout_OnInit (Table ''s'' ''t'') [] (fanout_New []))"

definition ex_ft1 :: Target where
  "ex_ft1 = snd (fanout_OnInsert (\<lambda>_. []) (\<lambda>_. 0) (Table ''s'' ''t'') [''id'' \<mapsto> VInt64 1] ex_ft)"

lemmas ex_ft_defs = ex_ft_def ex_ft1_def fanout_OnInit_def fanout_New_def fanout_OnInsert_def journalled_def
  j_append_def pruneLocked_def pruned_def age_prune_def newJournal_def new_entry_def Let_def

lemma ex_ft_reach: "fanout_reach ex_ft"
  unfolding ex_ft_def by (rule fanout_reach.init)

lemma ex_ft1_covers: "covers 0 ex_ft1 \<and> 0 < JournalLen ex_ft1"
  by (simp add: covers_def JournalLen_def j_len_def JournalOldestSequence_def oldestSequence_def ex_ft_defs)




text \<open>C35: A schema change makes replicas diverge from a non-empty target: the journal gets a TRUNCATE
  marker, so a client that was up to date and applies the new entries ends up empty, while the
  target keeps all its rows.\<close>
theorem fanout_schema_change_diverges:
  assumes "fanout_reach t" and "fanout_OnSchemaChange po now tbl old new t = (resp, t')"
    and "covers (JournalSequence t) t'"
  shows "ft_store t' = ft_store t \<and>
    replay_changes cols (ft_store t) (JournalEntriesSince (JournalSequence t) t') = Map.empty"
proof -
  obtain B H n where H: "fanout_hist B H t" "journal_hist H n (ft_j t)"
    using fanout_reach_hist [OF assms(1)] by (auto simp: fanout_hist_def)
  let ?c = "(j_nextSeq (ft_j t), ActionTruncate, None, None) :: change"
  have t': "ft_j t' = snd (j_append (po (j_pins (ft_j t))) now ActionTruncate None None (ft_curPos t) (ft_j t))"
      "ft_store t' = ft_store t"
    using assms(2) by (auto simp: fanout_OnSchemaChange_def journalled_def Let_def)
  then obtain n' where n': "journal_hist (H @ [?c]) n' (ft_j t')" using journal_hist_append [OF H(2)] by metis
  have seq: "JournalSequence t = int (length H)" using H(1) by (rule fanout_hist_sequence)
  have "n' \<le> length H"
    using assms(3) journal_hist_oldest [OF n'] n' seq
    by (auto simp: covers_def JournalSequence_def currentSequence_def JournalLen_def j_len_def
        JournalOldestSequence_def journal_hist_def)
  then have "map je_change (JournalEntriesSince (JournalSequence t) t') = [?c]"
    using journal_hist_since [OF n'] seq by (simp add: JournalEntriesSince_def)
  then show ?thesis using t'(2) by (simp add: replay_changes_def)
qed

theorem fanout_schema_change_diverges_witness:
  "ft_store ex_ft1 \<noteq> Map.empty \<and>
   replay_changes [] (ft_store ex_ft1)
     (JournalEntriesSince (JournalSequence ex_ft1)
       (snd (fanout_OnSchemaChange (\<lambda>_. []) (\<lambda>_. 0) (Table ''s'' ''t'') [] [] ex_ft1))) = Map.empty"
proof -
  let ?t' = "snd (fanout_OnSchemaChange (\<lambda>_. []) (\<lambda>_. 0) (Table ''s'' ''t'') [] [] ex_ft1)"
  have reach: "fanout_reach ex_ft1"
    unfolding ex_ft1_def by (rule fanout_reach.step [OF ex_ft_reach]) (rule fanout_step.ins)
  have "covers (JournalSequence ex_ft1) ?t'"
    by (simp add: covers_def JournalLen_def j_len_def JournalOldestSequence_def oldestSequence_def
        JournalSequence_def currentSequence_def fanout_OnSchemaChange_def ex_ft_defs)
  moreover have "ft_store ex_ft1 \<noteq> Map.empty" by (simp add: ex_ft_defs)
  ultimately show ?thesis using fanout_schema_change_diverges [OF reach surjective_pairing] by simp
qed

text \<open>C36: An update that changes the primary key leaves the old row behind in a fan-out target: the
  identity is not used, so afterwards the target serves both the old row and the new one.\<close>
theorem fanout_rekey_keeps_old:
  assumes "ft_store t (fanout_key (ft_cols t) ident) = Some old"
    and "fanout_key (ft_cols t) r \<noteq> fanout_key (ft_cols t) ident"
    and "fanout_OnUpdate po now tbl r ident t = (err, t')"
  shows "ft_store t' (fanout_key (ft_cols t) ident) = Some old \<and> ft_store t' (fanout_key (ft_cols t) r) = Some r"
  using assms by (auto simp: fanout_OnUpdate_def Let_def frame_simps)

theorem fanout_rekey_keeps_old_witness:
  "ft_store (snd (fanout_OnUpdate (\<lambda>_. []) (\<lambda>_. 0) (Table ''s'' ''t'') [''id'' \<mapsto> VInt64 2] [''id'' \<mapsto> VInt64 1] ex_ft1)) ''1'' =
     Some [''id'' \<mapsto> VInt64 1]"
proof -
  have keys: "fanout_key [] [''id'' \<mapsto> VInt64 1] = ''1''" "fanout_key [] [''id'' \<mapsto> VInt64 2] = ''2''"
    by (code_simp, code_simp)
  have cols: "ft_cols ex_ft1 = []" by (simp add: ex_ft_defs)
  have "ft_store ex_ft1 (fanout_key (ft_cols ex_ft1) [''id'' \<mapsto> VInt64 1]) = Some [''id'' \<mapsto> VInt64 1]"
    by (simp add: ex_ft_defs)
  from fanout_rekey_keeps_old [OF this _ surjective_pairing, of "[''id'' \<mapsto> VInt64 2]"] show ?thesis
    by (simp add: cols keys)
qed

end
