(* ===== verification/Engine_State.thy ===== *)
theory Engine_State
  imports Sync_Target Ack_Tracker Readiness_Tracker
begin

text \<open>
  The configuration and the state of the engine (\<^verbatim>\<open>engineConfig\<close>, \<^verbatim>\<open>pipelineConfig\<close>,
  \<^verbatim>\<open>resolvedPipeline\<close> and \<^verbatim>\<open>coreEngine\<close> of \<^verbatim>\<open>engine.go\<close>).  \<open>'t\<close> is the state of a target and \<open>'s\<close> a source; nil sources and targets
  are \<open>None\<close>.  A filter maps a table and a row to a boolean, a transform to a row or nil.  Snapshot
  store, serializer and dead-letter store are external; the configuration records whether one is
  set.  The observer is a log of its calls, without the duration arguments, and the log also records
  the engine's calls of \<^verbatim>\<open>Stream\<close>, \<^verbatim>\<open>Ack\<close>, \<^verbatim>\<open>Pause\<close>, \<^verbatim>\<open>Resume\<close> and \<^verbatim>\<open>Close\<close> on a source.
\<close>

section \<open>Configuration\<close>

type_synonym filter_fn = "TableIdentifier \<Rightarrow> row \<Rightarrow> bool"
type_synonym transform_fn = "TableIdentifier \<Rightarrow> row \<Rightarrow> row option"

record 't pipelineConfig =
  pc_sourceID :: string
  pc_table :: TableIdentifier
  pc_target :: "'t option"
  pc_filters :: "filter_fn list"
  pc_transforms :: "transform_fn list"
  pc_bufferSize :: int
  pc_bufferPolicy :: BufferPolicy
  pc_errorPolicy :: ErrorPolicyKind
  pc_maxRetries :: int
  pc_ttlFunc :: "(row \<Rightarrow> int) option"
  pc_ttlScanInterval :: int
  pc_validationAction :: ValidationAction
  pc_validationInterval :: int

record ('t, 's) engineConfig =
  cfg_sources :: "string \<rightharpoonup> 's option"
  cfg_pipelines :: "'t pipelineConfig list"
  cfg_snapshotStore :: bool
  cfg_snapshotSerializer :: bool
  cfg_snapshotSchedule :: int
  cfg_snapshotOnShutdown :: bool
  cfg_snapshotRetention :: int
  cfg_shutdownTimeout :: int
  cfg_deadLetterStore :: bool

section \<open>The engine\<close>

record 't resolvedPipeline =
  p_id :: string
  p_sourceID :: string
  p_table :: TableIdentifier
  p_target :: 't
  p_filters :: "filter_fn list"
  p_transforms :: "transform_fn list"
  p_bufferSize :: int
  p_bufferPolicy :: BufferPolicy
  p_errorPolicy :: ErrorPolicyKind
  p_maxRetries :: int
  p_ttlFunc :: "(row \<Rightarrow> int) option"
  p_ttlScanInterval :: int
  p_validationAction :: ValidationAction
  p_validationInterval :: int
  p_state :: PipelineState
  p_expectedRows :: int

datatype obs =
    OnSourceConnected string
  | OnSourceDisconnected string string
  | OnPipelineStateChanged string PipelineState PipelineState
  | OnBaselineStarted string TableIdentifier
  | OnBaselineCompleted string TableIdentifier int
  | OnValidationResult string TableIdentifier int int bool
  | OnChangeReceived string TableIdentifier ChangeAction position
  | OnChangeApplied string TableIdentifier ChangeAction
  | OnChangeError string TableIdentifier ChangeAction goerror
  | OnAckAdvanced string position
  | OnBufferDepthChanged string nat nat
  | OnBufferPolicyTriggered string BufferPolicy
  | OnDeadLetterWritten string ChangeEvent goerror
  | OnRowExpired string TableIdentifier string
  | OnSnapshotStarted string
  | OnSnapshotCompleted string nat int
  | OnSnapshotFailed string string
  | OnSnapshotRestoreStarted string
  | OnSnapshotRestoreCompleted string
  | OnReBaselineTriggered string
  | CallAck string position
  | CallStream string position
  | CallPause string
  | CallResume string
  | CallClose string

record ('t, 's) coreEngine =
  e_sources :: "string \<rightharpoonup> 's option"
  e_pipelines :: "'t resolvedPipeline list"
  e_log :: "obs list"
  e_readiness :: "nat ReadinessTracker"
  e_ackTracker :: AckTracker
  e_snapshotStore :: bool
  e_snapshotSerializer :: bool
  e_snapshotSchedule :: int
  e_snapshotOnShutdown :: bool
  e_snapshotRetention :: int
  e_shutdownTimeout :: int
  e_deadLetterStore :: bool
  e_schemas :: "TableIdentifier \<rightharpoonup> ColumnDefinition list"
  e_started :: bool
  e_stopped :: bool
  e_cancelled :: bool

end
