(* ===== verification/Engine_Config.thy ===== *)
theory Engine_Config
  imports Engine_State
begin

text \<open>
  Options, validation and construction of the engine (\<^verbatim>\<open>WithSource\<close> to \<^verbatim>\<open>generatePipelineID\<close> of
  \<^verbatim>\<open>engine.go\<close>).  \<open>typeName\<close> gives the name that \<^verbatim>\<open>reflect.TypeOf\<close> prints for a target,
  \<open>compare\<close> a source's \<^verbatim>\<open>ComparePositions\<close>.
\<close>

section \<open>Options\<close>

definition WithSource :: "string \<Rightarrow> 's option \<Rightarrow> ('t, 's) engineConfig \<Rightarrow> ('t, 's) engineConfig" where
  "WithSource i source c = c\<lparr>cfg_sources := (cfg_sources c)(i \<mapsto> source)\<rparr>"

definition WithPipeline ::
    "string \<Rightarrow> TableIdentifier \<Rightarrow> 't option \<Rightarrow> ('t pipelineConfig \<Rightarrow> 't pipelineConfig) list \<Rightarrow>
     ('t, 's) engineConfig \<Rightarrow> ('t, 's) engineConfig" where
  "WithPipeline sourceID table target opts c =
     (let pc = foldl (\<lambda>pc opt. opt pc)
            \<lparr>pc_sourceID = sourceID, pc_table = table, pc_target = target, pc_filters = [], pc_transforms = [],
             pc_bufferSize = 10000, pc_bufferPolicy = BufferBlock, pc_errorPolicy = ErrorIsolate, pc_maxRetries = 5,
             pc_ttlFunc = None, pc_ttlScanInterval = 0, pc_validationAction = ValidationWarn,
             pc_validationInterval = 0\<rparr> opts
      in c\<lparr>cfg_pipelines := cfg_pipelines c @ [pc]\<rparr>)"

definition PipelineFilterOpt :: "filter_fn \<Rightarrow> 't pipelineConfig \<Rightarrow> 't pipelineConfig" where
  "PipelineFilterOpt f c = c\<lparr>pc_filters := pc_filters c @ [f]\<rparr>"

definition PipelineTransformOpt :: "transform_fn \<Rightarrow> 't pipelineConfig \<Rightarrow> 't pipelineConfig" where
  "PipelineTransformOpt t c = c\<lparr>pc_transforms := pc_transforms c @ [t]\<rparr>"

definition BufferSize :: "int \<Rightarrow> 't pipelineConfig \<Rightarrow> 't pipelineConfig" where
  "BufferSize n c = c\<lparr>pc_bufferSize := n\<rparr>"

definition BufferPolicyOpt :: "BufferPolicy \<Rightarrow> 't pipelineConfig \<Rightarrow> 't pipelineConfig" where
  "BufferPolicyOpt p c = c\<lparr>pc_bufferPolicy := p\<rparr>"

definition ErrorPolicyOpt :: "ErrorPolicyKind \<Rightarrow> 't pipelineConfig \<Rightarrow> 't pipelineConfig" where
  "ErrorPolicyOpt p c = c\<lparr>pc_errorPolicy := p\<rparr>"

definition MaxRetries :: "int \<Rightarrow> 't pipelineConfig \<Rightarrow> 't pipelineConfig" where
  "MaxRetries n c = c\<lparr>pc_maxRetries := n\<rparr>"

definition WithTTL :: "(row \<Rightarrow> int) \<Rightarrow> 't pipelineConfig \<Rightarrow> 't pipelineConfig" where
  "WithTTL fn c = c\<lparr>pc_ttlFunc := Some fn\<rparr>"

definition WithTTLScanInterval :: "int \<Rightarrow> 't pipelineConfig \<Rightarrow> 't pipelineConfig" where
  "WithTTLScanInterval d c = c\<lparr>pc_ttlScanInterval := d\<rparr>"

definition WithValidationAction :: "ValidationAction \<Rightarrow> 't pipelineConfig \<Rightarrow> 't pipelineConfig" where
  "WithValidationAction a c = c\<lparr>pc_validationAction := a\<rparr>"

definition WithValidationInterval :: "int \<Rightarrow> 't pipelineConfig \<Rightarrow> 't pipelineConfig" where
  "WithValidationInterval d c = c\<lparr>pc_validationInterval := d\<rparr>"

definition WithSnapshotStore :: "bool \<Rightarrow> ('t, 's) engineConfig \<Rightarrow> ('t, 's) engineConfig" where
  "WithSnapshotStore s c = c\<lparr>cfg_snapshotStore := s\<rparr>"

definition WithSnapshotSerializer :: "bool \<Rightarrow> ('t, 's) engineConfig \<Rightarrow> ('t, 's) engineConfig" where
  "WithSnapshotSerializer s c = c\<lparr>cfg_snapshotSerializer := s\<rparr>"

definition WithSnapshotSchedule :: "int \<Rightarrow> ('t, 's) engineConfig \<Rightarrow> ('t, 's) engineConfig" where
  "WithSnapshotSchedule d c = c\<lparr>cfg_snapshotSchedule := d\<rparr>"

definition WithSnapshotRetention :: "int \<Rightarrow> ('t, 's) engineConfig \<Rightarrow> ('t, 's) engineConfig" where
  "WithSnapshotRetention keep c = c\<lparr>cfg_snapshotRetention := keep\<rparr>"

definition WithSnapshotOnShutdown :: "bool \<Rightarrow> ('t, 's) engineConfig \<Rightarrow> ('t, 's) engineConfig" where
  "WithSnapshotOnShutdown enabled c = c\<lparr>cfg_snapshotOnShutdown := enabled\<rparr>"

definition WithShutdownTimeout :: "int \<Rightarrow> ('t, 's) engineConfig \<Rightarrow> ('t, 's) engineConfig" where
  "WithShutdownTimeout d c = c\<lparr>cfg_shutdownTimeout := d\<rparr>"

definition WithDeadLetterStore :: "bool \<Rightarrow> ('t, 's) engineConfig \<Rightarrow> ('t, 's) engineConfig" where
  "WithDeadLetterStore s c = c\<lparr>cfg_deadLetterStore := s\<rparr>"

section \<open>Validation\<close>

text \<open>One constructor per error message; pipeline errors carry the pipeline's index.\<close>

datatype config_error =
    NoSource | EmptySourceID | NilSource string | NoPipeline
  | PipelineEmptySource nat | PipelineUnknownSource nat string | PipelineEmptyTable nat
  | PipelineNilTarget nat | PipelineBufferSize nat int | PipelineMaxRetries nat int
  | PipelineDuplicate nat string | NegativeSchedule | MissingSerializer

definition generatePipelineID :: "('t \<Rightarrow> string) \<Rightarrow> string \<Rightarrow> TableIdentifier \<Rightarrow> 't \<Rightarrow> string" where
  "generatePipelineID typeName sourceID table target =
     sourceID @ '':'' @ TableIdentifier_String table @ '':'' @ typeName target"

definition source_errors :: "string \<Rightarrow> 's option \<Rightarrow> config_error list" where
  "source_errors i src =
     (if i = [] then [EmptySourceID] else []) @ (if src = None then [NilSource i] else [])"

definition pipeline_errors ::
    "('t \<Rightarrow> string) \<Rightarrow> (string \<rightharpoonup> 's option) \<Rightarrow> nat \<Rightarrow> string set \<Rightarrow> 't pipelineConfig \<Rightarrow> config_error list" where
  "pipeline_errors typeName sources i seen pc =
     (if pc_sourceID pc = [] then [PipelineEmptySource i]
      else if sources (pc_sourceID pc) = None then [PipelineUnknownSource i (pc_sourceID pc)] else []) @
     (if Tbl (pc_table pc) = [] then [PipelineEmptyTable i] else []) @
     (if pc_target pc = None then [PipelineNilTarget i] else []) @
     (if pc_bufferSize pc \<le> 0 then [PipelineBufferSize i (pc_bufferSize pc)] else []) @
     (if pc_maxRetries pc < 0 then [PipelineMaxRetries i (pc_maxRetries pc)] else []) @
     (case pc_target pc of
        None \<Rightarrow> []
      | Some t \<Rightarrow>
          let pid = generatePipelineID typeName (pc_sourceID pc) (pc_table pc) t
          in if pid \<in> seen then [PipelineDuplicate i pid] else [])"

definition pc_seen :: "('t \<Rightarrow> string) \<Rightarrow> 't pipelineConfig \<Rightarrow> string set" where
  "pc_seen typeName pc =
     (case pc_target pc of
        None \<Rightarrow> {}
      | Some t \<Rightarrow> {generatePipelineID typeName (pc_sourceID pc) (pc_table pc) t})"

fun validate_pipelines ::
    "('t \<Rightarrow> string) \<Rightarrow> (string \<rightharpoonup> 's option) \<Rightarrow> nat \<Rightarrow> string set \<Rightarrow> 't pipelineConfig list \<Rightarrow> config_error list" where
  "validate_pipelines typeName sources i seen [] = []"
| "validate_pipelines typeName sources i seen (pc # pcs) =
     pipeline_errors typeName sources i seen pc @
     validate_pipelines typeName sources (i + 1) (seen \<union> pc_seen typeName pc) pcs"

definition validateConfig :: "('t \<Rightarrow> string) \<Rightarrow> string list \<Rightarrow> ('t, 's) engineConfig \<Rightarrow> config_error list" where
  "validateConfig typeName order cfg =
     (if dom (cfg_sources cfg) = {} then [NoSource] else []) @
     concat (map (\<lambda>i. case cfg_sources cfg i of None \<Rightarrow> [] | Some src \<Rightarrow> source_errors i src) order) @
     (if length (cfg_pipelines cfg) = 0 then [NoPipeline] else []) @
     validate_pipelines typeName (cfg_sources cfg) 0 {} (cfg_pipelines cfg) @
     (if cfg_snapshotSchedule cfg < 0 then [NegativeSchedule] else []) @
     (if cfg_snapshotStore cfg \<and> \<not> cfg_snapshotSerializer cfg then [MissingSerializer] else [])"

section \<open>Construction\<close>

definition resolve :: "('t \<Rightarrow> string) \<Rightarrow> 't pipelineConfig \<Rightarrow> 't \<Rightarrow> 't resolvedPipeline" where
  "resolve typeName pc t =
     \<lparr>p_id = generatePipelineID typeName (pc_sourceID pc) (pc_table pc) t,
      p_sourceID = pc_sourceID pc, p_table = pc_table pc, p_target = t, p_filters = pc_filters pc,
      p_transforms = pc_transforms pc, p_bufferSize = pc_bufferSize pc, p_bufferPolicy = pc_bufferPolicy pc,
      p_errorPolicy = pc_errorPolicy pc, p_maxRetries = pc_maxRetries pc, p_ttlFunc = pc_ttlFunc pc,
      p_ttlScanInterval = pc_ttlScanInterval pc, p_validationAction = pc_validationAction pc,
      p_validationInterval = pc_validationInterval pc, p_state = PipelineInitializing, p_expectedRows = 0\<rparr>"

fun resolve_all :: "('t \<Rightarrow> string) \<Rightarrow> 't pipelineConfig list \<Rightarrow> 't resolvedPipeline list" where
  "resolve_all typeName [] = []"
| "resolve_all typeName (pc # pcs) =
     (case pc_target pc of
        None \<Rightarrow> resolve_all typeName pcs
      | Some t \<Rightarrow> resolve typeName pc t # resolve_all typeName pcs)"

definition register_all ::
    "('s \<Rightarrow> position \<Rightarrow> position \<Rightarrow> int) \<Rightarrow> (string \<rightharpoonup> 's option) \<Rightarrow> 't resolvedPipeline list \<Rightarrow> AckTracker" where
  "register_all compare sources ps =
     foldl (\<lambda>a p. case sources (p_sourceID p) of
                    Some (Some src) \<Rightarrow> RegisterPipeline a (p_id p) (p_sourceID p) (Some (compare src))
                  | _ \<Rightarrow> a) NewAckTracker ps"

definition empty_config :: "('t, 's) engineConfig" where
  "empty_config =
     \<lparr>cfg_sources = Map.empty, cfg_pipelines = [], cfg_snapshotStore = False, cfg_snapshotSerializer = False,
      cfg_snapshotSchedule = 0, cfg_snapshotOnShutdown = False, cfg_snapshotRetention = 0,
      cfg_shutdownTimeout = 0, cfg_deadLetterStore = False\<rparr>"

definition NewEngine ::
    "('t \<Rightarrow> string) \<Rightarrow> ('s \<Rightarrow> position \<Rightarrow> position \<Rightarrow> int) \<Rightarrow> string list \<Rightarrow>
     (('t, 's) engineConfig \<Rightarrow> ('t, 's) engineConfig) list \<Rightarrow> config_error list + ('t, 's) coreEngine" where
  "NewEngine typeName compare order opts =
     (let cfg = foldl (\<lambda>c opt. opt c) empty_config opts;
          errs = validateConfig typeName order cfg
      in if 0 < length errs then Inl errs
         else
           let pipelines = resolve_all typeName (cfg_pipelines cfg)
           in Inr \<lparr>e_sources = cfg_sources cfg, e_pipelines = pipelines, e_log = [],
                   e_readiness = NewReadinessTracker (map p_id pipelines),
                   e_ackTracker = register_all compare (cfg_sources cfg) pipelines,
                   e_snapshotStore = cfg_snapshotStore cfg, e_snapshotSerializer = cfg_snapshotSerializer cfg,
                   e_snapshotSchedule = cfg_snapshotSchedule cfg,
                   e_snapshotOnShutdown = cfg_snapshotOnShutdown cfg,
                   e_snapshotRetention = cfg_snapshotRetention cfg, e_shutdownTimeout = cfg_shutdownTimeout cfg,
                   e_deadLetterStore = cfg_deadLetterStore cfg, e_schemas = Map.empty, e_started = False,
                   e_stopped = False, e_cancelled = False\<rparr>)"

section \<open>What validation accepts\<close>

definition pc_id :: "('t \<Rightarrow> string) \<Rightarrow> 't pipelineConfig \<Rightarrow> string" where
  "pc_id typeName pc =
     (case pc_target pc of None \<Rightarrow> [] | Some t \<Rightarrow> generatePipelineID typeName (pc_sourceID pc) (pc_table pc) t)"

definition pc_ok :: "(string \<rightharpoonup> 's option) \<Rightarrow> 't pipelineConfig \<Rightarrow> bool" where
  "pc_ok sources pc \<longleftrightarrow> pc_sourceID pc \<noteq> [] \<and> sources (pc_sourceID pc) \<noteq> None \<and> Tbl (pc_table pc) \<noteq> [] \<and>
     pc_target pc \<noteq> None \<and> 0 < pc_bufferSize pc \<and> 0 \<le> pc_maxRetries pc"

definition config_ok :: "('t \<Rightarrow> string) \<Rightarrow> ('t, 's) engineConfig \<Rightarrow> bool" where
  "config_ok typeName cfg \<longleftrightarrow>
     dom (cfg_sources cfg) \<noteq> {} \<and> (\<forall>i src. cfg_sources cfg i = Some src \<longrightarrow> i \<noteq> [] \<and> src \<noteq> None) \<and>
     cfg_pipelines cfg \<noteq> [] \<and> (\<forall>pc \<in> set (cfg_pipelines cfg). pc_ok (cfg_sources cfg) pc) \<and>
     distinct (map (pc_id typeName) (cfg_pipelines cfg)) \<and>
     0 \<le> cfg_snapshotSchedule cfg \<and> (cfg_snapshotStore cfg \<longrightarrow> cfg_snapshotSerializer cfg)"

lemma pipeline_errors_Nil:
  "pipeline_errors typeName sources i seen pc = [] \<longleftrightarrow> pc_ok sources pc \<and> pc_id typeName pc \<notin> seen"
  by (auto simp: pipeline_errors_def pc_ok_def pc_id_def Let_def split: option.split)

lemma validate_pipelines_Nil:
  "validate_pipelines typeName sources i seen pcs = [] \<longleftrightarrow>
     (\<forall>pc \<in> set pcs. pc_ok sources pc) \<and> distinct (map (pc_id typeName) pcs) \<and>
     pc_id typeName ` set pcs \<inter> seen = {}"
proof (induction pcs arbitrary: i seen)
  case (Cons pc pcs)
  have "pc_ok sources pc \<Longrightarrow> pc_seen typeName pc = {pc_id typeName pc}"
    by (auto simp: pc_ok_def pc_seen_def pc_id_def)
  then show ?case
    by (cases "pc_ok sources pc") (simp_all add: Cons.IH pipeline_errors_Nil, blast)
qed simp

lemma validateConfig_Nil:
  assumes "iter_order order (cfg_sources cfg)"
  shows "validateConfig typeName order cfg = [] \<longleftrightarrow> config_ok typeName cfg"
proof -
  have one: "(case cfg_sources cfg i of None \<Rightarrow> [] | Some src \<Rightarrow> source_errors i src) = [] \<longleftrightarrow>
      (\<forall>src. cfg_sources cfg i = Some src \<longrightarrow> i \<noteq> [] \<and> src \<noteq> None)" for i
    by (cases "cfg_sources cfg i") (simp_all add: source_errors_def)
  have srcs: "concat (map (\<lambda>i. case cfg_sources cfg i of None \<Rightarrow> [] | Some src \<Rightarrow> source_errors i src) order) = [] \<longleftrightarrow>
      (\<forall>i src. cfg_sources cfg i = Some src \<longrightarrow> i \<noteq> [] \<and> src \<noteq> None)"
    unfolding concat_eq_Nil_conv set_map ball_simps(9) one using iter_order_set [OF assms] by blast
  have single: "(if c then [x] else []) = [] \<longleftrightarrow> \<not> c" for c and x :: config_error
    by simp
  show ?thesis
    unfolding validateConfig_def config_ok_def append_is_Nil_conv validate_pipelines_Nil srcs single
      length_0_conv not_less Int_empty_right
    by blast
qed

section \<open>The engine that results\<close>

definition engine_wf :: "('t, 's) coreEngine \<Rightarrow> bool" where
  "engine_wf e \<longleftrightarrow>
     distinct (map p_id (e_pipelines e)) \<and>
     (\<forall>p \<in> set (e_pipelines e). 0 < p_bufferSize p \<and> 0 \<le> p_maxRetries p \<and>
        (\<exists>src. e_sources e (p_sourceID p) = Some (Some src))) \<and>
     (\<forall>pid sid. pipelineSource (e_ackTracker e) pid = Some sid \<longleftrightarrow>
        (\<exists>p \<in> set (e_pipelines e). p_id p = pid \<and> p_sourceID p = sid)) \<and>
     (\<forall>p \<in> set (e_pipelines e). comparators (e_ackTracker e) (p_sourceID p) \<noteq> None) \<and>
     dom (ready (e_readiness e)) = p_id ` set (e_pipelines e) \<and> ready_inv (e_readiness e)"

lemma resolve_all_map:
  "\<forall>pc \<in> set pcs. pc_target pc \<noteq> None \<Longrightarrow> map p_id (resolve_all typeName pcs) = map (pc_id typeName) pcs"
proof (induction pcs)
  case (Cons pc pcs)
  then obtain t where "pc_target pc = Some t" by auto
  with Cons show ?case by (simp add: resolve_def pc_id_def)
qed simp

lemma resolve_all_mem:
  "p \<in> set (resolve_all typeName pcs) \<Longrightarrow> \<exists>pc \<in> set pcs. \<exists>t. pc_target pc = Some t \<and> p = resolve typeName pc t"
  by (induction pcs) (auto split: option.splits)

lemma resolve_all_Nil: "pcs \<noteq> [] \<Longrightarrow> \<forall>pc \<in> set pcs. pc_target pc \<noteq> None \<Longrightarrow> resolve_all typeName pcs \<noteq> []"
proof (cases pcs)
  case (Cons pc pcs')
  assume "\<forall>pc \<in> set pcs. pc_target pc \<noteq> None"
  with Cons obtain t where "pc_target pc = Some t" by auto
  with Cons show ?thesis by simp
qed simp

lemma register_all_snoc:
  "register_all compare sources (ps @ [p]) =
     (case sources (p_sourceID p) of
        Some (Some src) \<Rightarrow> RegisterPipeline (register_all compare sources ps) (p_id p) (p_sourceID p) (Some (compare src))
      | _ \<Rightarrow> register_all compare sources ps)"
  unfolding register_all_def by simp

lemma register_all_sources:
  assumes "\<forall>p \<in> set ps. \<exists>src. sources (p_sourceID p) = Some (Some src)" and "distinct (map p_id ps)"
  shows "(pipelineSource (register_all compare sources ps) pid = Some sid \<longleftrightarrow>
      (\<exists>p \<in> set ps. p_id p = pid \<and> p_sourceID p = sid)) \<and>
    (\<forall>p \<in> set ps. comparators (register_all compare sources ps) (p_sourceID p) \<noteq> None)"
  using assms
proof (induction ps rule: rev_induct)
  case Nil
  then show ?case by (simp add: register_all_def NewAckTracker_def)
next
  case (snoc p ps)
  let ?R = "register_all compare sources ps" and ?R' = "register_all compare sources (ps @ [p])"
  obtain src where src: "sources (p_sourceID p) = Some (Some src)" using snoc.prems(1) by auto
  have IH: "(pipelineSource ?R pid = Some sid \<longleftrightarrow> (\<exists>p \<in> set ps. p_id p = pid \<and> p_sourceID p = sid)) \<and>
      (\<forall>p \<in> set ps. comparators ?R (p_sourceID p) \<noteq> None)"
    using snoc.prems by (intro snoc.IH) auto
  have upd: "pipelineSource ?R' = (pipelineSource ?R)(p_id p \<mapsto> p_sourceID p)"
      "comparators ?R' = (comparators ?R)(p_sourceID p \<mapsto> compare src)"
    by (simp_all add: register_all_snoc RegisterPipeline_def src)
  have fresh: "p_id p \<notin> p_id ` set ps" using snoc.prems(2) by simp
  have "pipelineSource ?R' pid = Some sid \<longleftrightarrow> (\<exists>q \<in> set (ps @ [p]). p_id q = pid \<and> p_sourceID q = sid)"
  proof (cases "pid = p_id p")
    case True
    with fresh have "\<forall>q \<in> set ps. p_id q \<noteq> pid" by (metis imageI)
    with True show ?thesis by (auto simp: upd)
  qed (use IH in \<open>auto simp: upd\<close>)
  moreover have "\<forall>q \<in> set (ps @ [p]). comparators ?R' (p_sourceID q) \<noteq> None"
    using IH by (simp add: upd)
  ultimately show ?case by blast
qed

lemma NewEngine_wf:
  assumes "iter_order order (cfg_sources (foldl (\<lambda>c opt. opt c) empty_config opts))"
    and "NewEngine typeName compare order opts = Inr e"
  shows "engine_wf e \<and> (\<forall>p \<in> set (e_pipelines e). p_state p = PipelineInitializing) \<and> e_pipelines e \<noteq> []"
proof -
  define cfg where "cfg = foldl (\<lambda>c opt. opt c) empty_config opts"
  have ok: "config_ok typeName cfg"
    using assms validateConfig_Nil [of order cfg typeName]
    by (auto simp: NewEngine_def cfg_def Let_def split: if_splits)
  let ?ps = "resolve_all typeName (cfg_pipelines cfg)"
  have e: "e_pipelines e = ?ps" "e_sources e = cfg_sources cfg"
      "e_ackTracker e = register_all compare (cfg_sources cfg) ?ps" "e_readiness e = NewReadinessTracker (map p_id ?ps)"
    using assms(2) by (auto simp: NewEngine_def cfg_def Let_def split: if_splits)
  have tgt: "\<forall>pc \<in> set (cfg_pipelines cfg). pc_target pc \<noteq> None"
    using ok by (auto simp: config_ok_def pc_ok_def)
  have dist: "distinct (map p_id ?ps)"
    using ok by (simp add: resolve_all_map [OF tgt] config_ok_def)
  have src: "\<exists>src. cfg_sources cfg (pc_sourceID pc) = Some (Some src)" if "pc \<in> set (cfg_pipelines cfg)" for pc
    using ok that unfolding config_ok_def pc_ok_def by (metis not_None_eq)
  then have srcs: "\<forall>p \<in> set ?ps. \<exists>src. cfg_sources cfg (p_sourceID p) = Some (Some src)"
    using resolve_all_mem by (fastforce simp: resolve_def)
  have "\<forall>p \<in> set ?ps. 0 < p_bufferSize p \<and> 0 \<le> p_maxRetries p \<and> p_state p = PipelineInitializing"
    using ok resolve_all_mem unfolding config_ok_def pc_ok_def by (fastforce simp: resolve_def)
  moreover have "dom (ready (NewReadinessTracker (map p_id ?ps) :: nat ReadinessTracker)) = p_id ` set ?ps"
    by (auto simp: NewReadinessTracker_ready split: if_splits)
  moreover have "?ps \<noteq> []" using ok resolve_all_Nil [OF _ tgt] unfolding config_ok_def by blast
  ultimately show ?thesis
    using dist srcs register_all_sources [OF srcs dist] ready_inv_New by (simp add: engine_wf_def e)
qed

section \<open>Properties\<close>

text \<open>C23: Construction accepts exactly the well-formed configurations: in every iteration order of the
  source map, \<^verbatim>\<open>NewEngine\<close> fails with a non-empty error list if and only if some check is violated
  (a nil or unnamed source, no pipeline, an unknown source, an empty table, a nil target, a
  non-positive buffer, a negative retry count, two equal pipeline ids, a negative schedule, a
  store without serializer); otherwise every pipeline starts INITIALIZING under a unique id, is
  registered for acknowledgement with its source, and is tracked for readiness.\<close>
theorem NewEngine_accepts:
  assumes "iter_order order (cfg_sources (foldl (\<lambda>c opt. opt c) empty_config opts))"
  shows "(case NewEngine typeName compare order opts of
      Inl errs \<Rightarrow> errs \<noteq> [] \<and> \<not> config_ok typeName (foldl (\<lambda>c opt. opt c) empty_config opts)
    | Inr e \<Rightarrow> config_ok typeName (foldl (\<lambda>c opt. opt c) empty_config opts) \<and> engine_wf e \<and>
        (\<forall>p \<in> set (e_pipelines e). p_state p = PipelineInitializing) \<and>
        map p_id (e_pipelines e) = map (pc_id typeName) (cfg_pipelines (foldl (\<lambda>c opt. opt c) empty_config opts)))"
proof (cases "NewEngine typeName compare order opts")
  case (Inl errs)
  then show ?thesis
    using validateConfig_Nil [OF assms, of typeName] by (auto simp: NewEngine_def Let_def split: if_splits)
next
  case (Inr e)
  let ?cfg = "foldl (\<lambda>c opt. opt c) empty_config opts"
  have ok: "config_ok typeName ?cfg" and ps: "e_pipelines e = resolve_all typeName (cfg_pipelines ?cfg)"
    using Inr validateConfig_Nil [OF assms, of typeName] by (auto simp: NewEngine_def Let_def split: if_splits)
  have "map p_id (e_pipelines e) = map (pc_id typeName) (cfg_pipelines ?cfg)"
    unfolding ps by (rule resolve_all_map) (use ok in \<open>auto simp: config_ok_def pc_ok_def\<close>)
  with Inr ok show ?thesis using NewEngine_wf [OF assms Inr] by simp
qed

definition ex_opts :: "((nat, nat) engineConfig \<Rightarrow> (nat, nat) engineConfig) list" where
  "ex_opts = [WithSource ''pg'' (Some 0), WithPipeline ''pg'' (Table ''public'' ''t'') (Some 7) [MaxRetries 2]]"

theorem NewEngine_accepts_witness:
  "\<exists>e. NewEngine (\<lambda>_. ''memory.IndexedTarget'') (\<lambda>_ _ _. 0) [''pg''] ex_opts = Inr e \<and> engine_wf e \<and>
     map p_id (e_pipelines e) = [''pg:public.t:memory.IndexedTarget'']"
proof -
  let ?n = "NewEngine (\<lambda>_ :: nat. ''memory.IndexedTarget'') (\<lambda>(_ :: nat) _ _. 0) [''pg''] ex_opts"
  have order: "iter_order [''pg''] (cfg_sources (foldl (\<lambda>c opt. opt c) empty_config ex_opts))"
    by (simp add: iter_order_def ex_opts_def empty_config_def WithSource_def WithPipeline_def Let_def)
  have "\<exists>e. ?n = Inr e"
    by (simp add: NewEngine_def validateConfig_def ex_opts_def empty_config_def WithSource_def WithPipeline_def
        MaxRetries_def source_errors_def pipeline_errors_def Table_def Let_def)
  then obtain e where e: "?n = Inr e" by blast
  have ids: "map (pc_id (\<lambda>_. ''memory.IndexedTarget'')) (cfg_pipelines (foldl (\<lambda>c opt. opt c) empty_config ex_opts)) =
      [''pg:public.t:memory.IndexedTarget'']"
    by (simp add: ex_opts_def empty_config_def WithSource_def WithPipeline_def MaxRetries_def pc_id_def
        generatePipelineID_def TableIdentifier_String_def Table_def Let_def)
  show ?thesis
    using NewEngine_accepts [OF order, of "\<lambda>_. ''memory.IndexedTarget''" "\<lambda>_ _ _. 0"] e ids by simp
qed

end
