(* ===== verification/Engine_Pipeline.thy ===== *)
theory Engine_Pipeline
  imports Engine_State Change_Buffer
begin

text \<open>
  One pipeline of the engine: filters, transforms and expiry, the application of a change to a
  target, retries and error policies, the dispatcher that puts changes and heartbeats into the
  pipelines' buffers and one iteration of a pipeline's consumer (\<^verbatim>\<open>tablesForPipelines\<close> to
  \<^verbatim>\<open>transitionPipelines\<close> of \<^verbatim>\<open>engine.go\<close>).  \<open>vt\<close> holds the methods of the targets.  A target
  call receives the readings of the clock that follow the engine's own; what the runtime and the
  collaborators decide during a call is the argument \<open>env\<close>.
\<close>

section \<open>Filters, transforms and expiry\<close>

fun run_filters :: "filter_fn list \<Rightarrow> TableIdentifier \<Rightarrow> row option \<Rightarrow> bool" where
  "run_filters [] table r = True"
| "run_filters (f # fs) table r = (if \<not> f table (nilrow r) then False else run_filters fs table r)"

definition applyFilters :: "'t resolvedPipeline \<Rightarrow> TableIdentifier \<Rightarrow> row option \<Rightarrow> bool" where
  "applyFilters p table r = run_filters (p_filters p) table r"

fun run_transforms :: "transform_fn list \<Rightarrow> TableIdentifier \<Rightarrow> row option \<Rightarrow> row option" where
  "run_transforms [] table r = r"
| "run_transforms (t # ts) table r =
     (case t table (nilrow r) of None \<Rightarrow> None | Some r' \<Rightarrow> run_transforms ts table (Some r'))"

definition applyFiltersAndTransforms ::
    "'t resolvedPipeline \<Rightarrow> TableIdentifier \<Rightarrow> row option \<Rightarrow> row option" where
  "applyFiltersAndTransforms p table r =
     (if \<not> run_filters (p_filters p) table r then None else run_transforms (p_transforms p) table r)"

definition isRowExpired :: "'t resolvedPipeline \<Rightarrow> int \<Rightarrow> row \<Rightarrow> bool" where
  "isRowExpired p now r =
     (case p_ttlFunc p of None \<Rightarrow> False | Some ttl \<Rightarrow> let expiry = ttl r in expiry \<noteq> 0 \<and> expiry < now)"

section \<open>Applying one change\<close>

definition set_position :: "'t SyncTarget \<Rightarrow> position \<Rightarrow> 't resolvedPipeline \<Rightarrow> 't resolvedPipeline" where
  "set_position vt pos p =
     (case t_SetChangePosition vt of None \<Rightarrow> p | Some f \<Rightarrow> p\<lparr>p_target := f pos (p_target p)\<rparr>)"

definition call_target :: "'t call \<Rightarrow> 't resolvedPipeline \<Rightarrow> goerror option \<times> 't resolvedPipeline" where
  "call_target f p = (case f (p_target p) of (err, t) \<Rightarrow> (err, p\<lparr>p_target := t\<rparr>))"

text \<open>The update of \<^verbatim>\<open>expectedRows\<close> after a call that succeeded.\<close>

definition on_success ::
    "('t resolvedPipeline \<Rightarrow> 't resolvedPipeline) \<Rightarrow> goerror option \<times> 't resolvedPipeline \<Rightarrow>
     goerror option \<times> 't resolvedPipeline" where
  "on_success f r = (case r of (None, p) \<Rightarrow> (None, f p) | (Some err, p) \<Rightarrow> (Some err, p))"

definition add_rows :: "int \<Rightarrow> 't resolvedPipeline \<Rightarrow> 't resolvedPipeline" where
  "add_rows n p = p\<lparr>p_expectedRows := p_expectedRows p + n\<rparr>"

definition later :: "clock \<Rightarrow> clock" where
  "later now = (\<lambda>i. now (i + 1))"

definition applyChangeToTarget ::
    "'t SyncTarget \<Rightarrow> clock \<Rightarrow> 't resolvedPipeline \<Rightarrow> ChangeEvent \<Rightarrow> goerror option \<times> 't resolvedPipeline" where
  "applyChangeToTarget vt now p event =
     (let p = set_position vt (ev_Position event) p; table = ev_Table event in
      case ev_Action event of
        ActionInsert \<Rightarrow>
          (case applyFiltersAndTransforms p table (ev_NewValues event) of
             None \<Rightarrow> (None, p)
           | Some r \<Rightarrow>
               if isRowExpired p (now 0) r then (None, p)
               else on_success (add_rows 1) (call_target (t_OnInsert vt (later now) table r) p))
      | ActionUpdate \<Rightarrow>
          (case applyFiltersAndTransforms p table (ev_NewValues event) of
             None \<Rightarrow> (None, p)
           | Some r \<Rightarrow>
               if isRowExpired p (now 0) r
               then on_success (add_rows (- 1))
                      (call_target (t_OnDelete vt (later now) table (nilrow (ev_OldValues event))) p)
               else call_target (t_OnUpdate vt (later now) table r (nilrow (ev_OldValues event))) p)
      | ActionDelete \<Rightarrow>
          if \<not> applyFilters p table (ev_OldValues event) then (None, p)
          else on_success (add_rows (- 1))
                 (call_target (t_OnDelete vt now table (nilrow (ev_OldValues event))) p)
      | ActionTruncate \<Rightarrow>
          on_success (\<lambda>p. p\<lparr>p_expectedRows := 0\<rparr>) (call_target (t_OnTruncate vt now table) p))"

text \<open>Everything of a pipeline but its target and its row count is fixed while a change is applied.\<close>

definition same_setup :: "'t resolvedPipeline \<Rightarrow> 't resolvedPipeline \<Rightarrow> bool" where
  "same_setup p q \<longleftrightarrow>
     p_id q = p_id p \<and> p_sourceID q = p_sourceID p \<and> p_table q = p_table p \<and>
     p_filters q = p_filters p \<and> p_transforms q = p_transforms p \<and> p_bufferSize q = p_bufferSize p \<and>
     p_bufferPolicy q = p_bufferPolicy p \<and> p_errorPolicy q = p_errorPolicy p \<and> p_maxRetries q = p_maxRetries p \<and>
     p_ttlFunc q = p_ttlFunc p \<and> p_ttlScanInterval q = p_ttlScanInterval p \<and> p_validationAction q = p_validationAction p \<and>
     p_validationInterval q = p_validationInterval p \<and> p_state q = p_state p"

lemma same_setup_refl [simp, intro]: "same_setup p p"
  by (simp add: same_setup_def)

lemma same_setup_trans [trans]: "same_setup p q \<Longrightarrow> same_setup q r \<Longrightarrow> same_setup p r"
  by (simp add: same_setup_def)

lemma set_position_config [simp]: "same_setup p (set_position vt pos p)"
  by (simp add: set_position_def same_setup_def split: option.split)

lemma call_target_config: "call_target f p = (err, q) \<Longrightarrow> same_setup p q"
  by (auto simp: call_target_def same_setup_def split: prod.splits)

lemma on_success_config:
  assumes "on_success g (call_target f p) = (err, q)" and "\<And>p. same_setup p (g p)"
  shows "same_setup p q"
proof -
  obtain err' p' where c: "call_target f p = (err', p')" by fastforce
  then have "same_setup p p'" by (rule call_target_config)
  with assms c show ?thesis
    by (cases err') (auto simp: on_success_def intro: same_setup_trans)
qed

lemma add_rows_config [simp]: "same_setup p (add_rows n p)"
  by (simp add: add_rows_def same_setup_def)

lemma reset_rows_config [simp]: "same_setup p (p\<lparr>p_expectedRows := n\<rparr>)"
  by (simp add: same_setup_def)

lemma applyChangeToTarget_config:
  assumes "applyChangeToTarget vt now p event = (err, q)"
  shows "same_setup p q"
proof -
  have "same_setup (set_position vt (ev_Position event) p) q"
    using assms unfolding applyChangeToTarget_def Let_def
    by (cases "ev_Action event")
      (auto split: option.splits if_splits dest: on_success_config call_target_config)
  then show ?thesis using same_setup_trans set_position_config by blast
qed

lemma applyChangeToTarget_maxRetries:
  "applyChangeToTarget vt now p event = (err, q) \<Longrightarrow> p_maxRetries q = p_maxRetries p"
  by (auto dest: applyChangeToTarget_config simp: same_setup_def)

section \<open>Decisions of the environment\<close>

text \<open>
  What is decided outside the engine during one call: the clock readings of each attempt to apply
  a change, whether the context is found cancelled before a retry, the results of the dead-letter
  store and of \<^verbatim>\<open>source.Ack\<close>, the order in which the ACK tracker's map is iterated, and, for a
  send into a buffer, whether the context is done and which ready case the \<^verbatim>\<open>select\<close> picks.
\<close>

record call_env =
  env_now :: "int \<Rightarrow> clock"
  env_retryDone :: "int \<Rightarrow> bool"
  env_deadLetter :: "goerror option"
  env_ackOrder :: "string list"
  env_ack :: "goerror option"
  env_ctxDone :: bool
  env_pickDone :: bool

section \<open>Retries\<close>

text \<open>Durations are in nanoseconds.  The loop also returns what it tells the observer and the
  delays it waited.\<close>

definition maxBackoff :: int where
  "maxBackoff = 5000000000"

function retryLoop ::
    "'t SyncTarget \<Rightarrow> call_env \<Rightarrow> ChangeEvent \<Rightarrow> int \<Rightarrow> int \<Rightarrow> goerror \<Rightarrow> 't resolvedPipeline \<Rightarrow>
     goerror option \<times> obs list \<times> int list \<times> 't resolvedPipeline" where
  "retryLoop vt env event attempt backoff lastErr p =
     (if p_maxRetries p < attempt then (Some lastErr, [], [], p)
      else if env_retryDone env attempt then (Some CtxErr, [], [backoff], p)
      else case applyChangeToTarget vt (env_now env attempt) p event of
             (None, p') \<Rightarrow> (None, [], [backoff], p')
           | (Some err, p') \<Rightarrow>
               (case retryLoop vt env event (attempt + 1)
                       (if backoff * 2 > maxBackoff then maxBackoff else backoff * 2) err p' of
                  (res, os, ds, p'') \<Rightarrow>
                    (res, OnChangeError (p_id p) (ev_Table event) (ev_Action event) err # os, backoff # ds, p'')))"
  by pat_completeness auto
termination
  by (relation "measure (\<lambda>(vt, env, event, attempt, backoff, lastErr, p). nat (p_maxRetries p + 1 - attempt))")
    (auto dest!: applyChangeToTarget_maxRetries [OF sym])

declare retryLoop.simps [simp del]

definition retryChange ::
    "'t SyncTarget \<Rightarrow> call_env \<Rightarrow> 't resolvedPipeline \<Rightarrow> ChangeEvent \<Rightarrow> goerror \<Rightarrow>
     goerror option \<times> obs list \<times> int list \<times> 't resolvedPipeline" where
  "retryChange vt env p event lastErr = retryLoop vt env event 1 100000000 lastErr p"

section \<open>States and error policies\<close>

definition observe :: "obs \<Rightarrow> ('t, 's) coreEngine \<Rightarrow> ('t, 's) coreEngine" where
  "observe ob e = e\<lparr>e_log := e_log e @ [ob]\<rparr>"

definition set_pipeline :: "nat \<Rightarrow> 't resolvedPipeline \<Rightarrow> ('t, 's) coreEngine \<Rightarrow> ('t, 's) coreEngine" where
  "set_pipeline idx p e = e\<lparr>e_pipelines := (e_pipelines e)[idx := p]\<rparr>"

abbreviation pipeline :: "('t, 's) coreEngine \<Rightarrow> nat \<Rightarrow> 't resolvedPipeline" where
  "pipeline e idx \<equiv> e_pipelines e ! idx"

abbreviation loadState :: "('t, 's) coreEngine \<Rightarrow> nat \<Rightarrow> PipelineState" where
  "loadState e idx \<equiv> p_state (pipeline e idx)"

definition transitionPipeline :: "nat \<Rightarrow> PipelineState \<Rightarrow> ('t, 's) coreEngine \<Rightarrow> ('t, 's) coreEngine" where
  "transitionPipeline idx newState e =
     (let p = pipeline e idx; old = p_state p in
      if old = newState then e
      else observe (OnPipelineStateChanged (p_id p) old newState) (set_pipeline idx (p\<lparr>p_state := newState\<rparr>) e))"

fun transitionPipelines :: "nat list \<Rightarrow> PipelineState \<Rightarrow> ('t, 's) coreEngine \<Rightarrow> ('t, 's) coreEngine" where
  "transitionPipelines [] newState e = e"
| "transitionPipelines (idx # idxs) newState e =
     (if loadState e idx = PipelineError \<or> loadState e idx = PipelineStopped
      then transitionPipelines idxs newState e
      else transitionPipelines idxs newState (transitionPipeline idx newState e))"

definition skipPipeline :: "nat \<Rightarrow> ('t, 's) coreEngine \<Rightarrow> ('t, 's) coreEngine" where
  "skipPipeline idx e = e\<lparr>e_ackTracker := Skip (e_ackTracker e) (p_id (pipeline e idx))\<rparr>"

text \<open>The loops of the two stop policies; \<open>applies\<close> is the part of the guard in which they differ.\<close>

fun stopLoop :: "('t resolvedPipeline \<Rightarrow> bool) \<Rightarrow> nat list \<Rightarrow> ('t, 's) coreEngine \<Rightarrow> ('t, 's) coreEngine" where
  "stopLoop applies [] e = e"
| "stopLoop applies (idx # idxs) e =
     (if applies (pipeline e idx) \<and> loadState e idx \<noteq> PipelineError \<and> loadState e idx \<noteq> PipelineStopped
      then stopLoop applies idxs (skipPipeline idx (transitionPipeline idx PipelineError e))
      else stopLoop applies idxs e)"

text \<open>\<^verbatim>\<open>e.cancel\<close> is set from \<^verbatim>\<open>Start\<close> on.\<close>

definition cancelEngine :: "('t, 's) coreEngine \<Rightarrow> ('t, 's) coreEngine" where
  "cancelEngine e = (if e_started e then e\<lparr>e_cancelled := True\<rparr> else e)"

definition applyErrorPolicy ::
    "nat \<Rightarrow> string \<Rightarrow> nat list \<Rightarrow> ('t, 's) coreEngine \<Rightarrow> bool \<times> ('t, 's) coreEngine" where
  "applyErrorPolicy failedIdx sourceID pipelineIdxs e =
     (case p_errorPolicy (pipeline e failedIdx) of
        ErrorIsolate \<Rightarrow> (False, skipPipeline failedIdx (transitionPipeline failedIdx PipelineError e))
      | ErrorStopSource \<Rightarrow> (False, stopLoop (\<lambda>pp. p_sourceID pp = sourceID) pipelineIdxs e)
      | ErrorStopAll \<Rightarrow>
          let e = stopLoop (\<lambda>pp. True) [0..<length (e_pipelines e)] e
          in (True, cancelEngine e))"

text \<open>The block that asks the ACK tracker and acknowledges; it occurs in the consumer, in
  \<^verbatim>\<open>runBaseline\<close> and in \<^verbatim>\<open>Stop\<close>.\<close>

definition advanceAck :: "string list \<Rightarrow> goerror option \<Rightarrow> string \<Rightarrow> ('t, 's) coreEngine \<Rightarrow> ('t, 's) coreEngine" where
  "advanceAck order ackErr sourceID e =
     (case AckPosition (e_ackTracker e) sourceID order of
        ((pos, advanced), a) \<Rightarrow>
          let e = e\<lparr>e_ackTracker := a\<rparr> in
          if \<not> advanced then e
          else let e = observe (CallAck sourceID pos) e
               in if ackErr = None then observe (OnAckAdvanced sourceID pos) e else e)"

definition confirmPipeline :: "nat \<Rightarrow> position \<Rightarrow> ('t, 's) coreEngine \<Rightarrow> ('t, 's) coreEngine" where
  "confirmPipeline idx pos e = e\<lparr>e_ackTracker := Confirm (e_ackTracker e) (p_id (pipeline e idx)) pos\<rparr>"

section \<open>Baseline rows\<close>

fun tablesLoop :: "TableIdentifier list \<Rightarrow> nat list \<Rightarrow> ('t, 's) coreEngine \<Rightarrow> TableIdentifier list" where
  "tablesLoop tables [] e = tables"
| "tablesLoop tables (idx # idxs) e =
     (let t = p_table (pipeline e idx) in
      if t \<in> set tables then tablesLoop tables idxs e else tablesLoop (tables @ [t]) idxs e)"

definition tablesForPipelines :: "nat list \<Rightarrow> ('t, 's) coreEngine \<Rightarrow> TableIdentifier list" where
  "tablesForPipelines pipelineIdxs e = tablesLoop [] pipelineIdxs e"

fun dispatchBaselineRow ::
    "'t SyncTarget \<Rightarrow> clock \<Rightarrow> nat list \<Rightarrow> TableIdentifier \<Rightarrow> row option \<Rightarrow> ('t, 's) coreEngine \<Rightarrow> ('t, 's) coreEngine" where
  "dispatchBaselineRow vt now [] table r e = e"
| "dispatchBaselineRow vt now (idx # idxs) table r e =
     (let p = pipeline e idx in
      if p_table p \<noteq> table \<or> p_state p \<noteq> PipelineBaselining then dispatchBaselineRow vt now idxs table r e
      else case applyFiltersAndTransforms p table r of
             None \<Rightarrow> dispatchBaselineRow vt now idxs table r e
           | Some r' \<Rightarrow>
               if isRowExpired p (now 0) r' then dispatchBaselineRow vt now idxs table r e
               else (case call_target (t_OnBaselineRow vt (later now) table r') p of
                       (Some err, p') \<Rightarrow>
                         dispatchBaselineRow vt now idxs table r
                           (transitionPipeline idx PipelineError (set_pipeline idx p' e))
                     | (None, p') \<Rightarrow>
                         dispatchBaselineRow vt now idxs table r (set_pipeline idx (add_rows 1 p') e)))"

section \<open>The dispatcher\<close>

text \<open>A buffer item is an event or a heartbeat, as its flag \<^verbatim>\<open>isHeartbeat\<close> says.\<close>

datatype pipelineItem = ItemEvent ChangeEvent | ItemHeartbeat position

type_synonym buffers = "nat \<rightharpoonup> pipelineItem ChangeBuffer"

text \<open>What one iteration of the dispatch loop does next.\<close>

datatype dispatch_next = NextPipeline | DispatchReturns "goerror option"

definition ctx_Err :: "call_env \<Rightarrow> goerror option" where
  "ctx_Err env = (if env_ctxDone env then Some CtxErr else None)"

definition dispatchOne ::
    "call_env \<Rightarrow> string \<Rightarrow> nat list \<Rightarrow> ChangeEvent \<Rightarrow> nat \<Rightarrow> buffers \<Rightarrow> ('t, 's) coreEngine \<Rightarrow>
     (dispatch_next \<times> buffers \<times> ('t, 's) coreEngine) outcome" where
  "dispatchOne env sourceID pipelineIdxs event idx buffers e =
     (let p = pipeline e idx; item = ItemEvent event;
          sent = (\<lambda>b e. Returns (NextPipeline, buffers(idx \<mapsto> b),
                                 observe (OnBufferDepthChanged (p_id p) (Len b) (Cap b)) e))
      in case buffers idx of
           None \<Rightarrow> Returns (NextPipeline, buffers, e)
         | Some buf \<Rightarrow>
             if p_table p \<noteq> ev_Table event \<or> p_state p \<noteq> PipelineStreaming then Returns (NextPipeline, buffers, e)
             else case p_bufferPolicy p of
                    BufferBlock \<Rightarrow>
                      (case SendCtx buf (env_ctxDone env) (env_pickDone env) item of
                         Blocked \<Rightarrow> Blocked | Panic \<Rightarrow> Panic
                       | Returns (buf', ok) \<Rightarrow>
                           if \<not> ok then Returns (DispatchReturns (ctx_Err env), buffers, e) else sent buf' e)
                  | BufferDropOldest \<Rightarrow>
                      (case SendDropOldest buf item of
                         Blocked \<Rightarrow> Blocked | Panic \<Rightarrow> Panic
                       | Returns (buf', dropped) \<Rightarrow>
                           sent buf' (if dropped \<noteq> None then observe (OnBufferPolicyTriggered (p_id p) BufferDropOldest) e
                                      else e))
                  | BufferError \<Rightarrow>
                      (case TrySend buf item of
                         Blocked \<Rightarrow> Blocked | Panic \<Rightarrow> Panic
                       | Returns (buf', ok) \<Rightarrow>
                           if ok then sent buf' e
                           else case applyErrorPolicy idx sourceID pipelineIdxs
                                       (observe (OnBufferPolicyTriggered (p_id p) BufferError) e) of
                                  (stopAll, e') \<Rightarrow>
                                    if stopAll
                                    then Returns (DispatchReturns (Some (Err ''engine stopped due to buffer overflow error policy'')),
                                                  buffers, e')
                                    else Returns (NextPipeline, buffers, e')))"

definition dispatchHeartbeatOne ::
    "call_env \<Rightarrow> position \<Rightarrow> nat \<Rightarrow> buffers \<Rightarrow> ('t, 's) coreEngine \<Rightarrow>
     (dispatch_next \<times> buffers \<times> ('t, 's) coreEngine) outcome" where
  "dispatchHeartbeatOne env pos idx buffers e =
     (case buffers idx of
        None \<Rightarrow> Returns (NextPipeline, buffers, e)
      | Some buf \<Rightarrow>
          if loadState e idx \<noteq> PipelineStreaming then Returns (NextPipeline, buffers, e)
          else case SendCtx buf (env_ctxDone env) (env_pickDone env) (ItemHeartbeat pos) of
                 Blocked \<Rightarrow> Blocked | Panic \<Rightarrow> Panic
               | Returns (buf', ok) \<Rightarrow>
                   if \<not> ok then Returns (DispatchReturns (ctx_Err env), buffers, e)
                   else Returns (NextPipeline, buffers(idx \<mapsto> buf'), e))"

text \<open>The loops over the pipelines, run without a consumer in between; \<open>envs\<close> are the decisions of
  the iterations.\<close>

fun dispatchLoop ::
    "(call_env \<Rightarrow> nat \<Rightarrow> buffers \<Rightarrow> ('t, 's) coreEngine \<Rightarrow> (dispatch_next \<times> buffers \<times> ('t, 's) coreEngine) outcome) \<Rightarrow>
     (nat \<Rightarrow> call_env) \<Rightarrow> nat list \<Rightarrow> buffers \<Rightarrow> ('t, 's) coreEngine \<Rightarrow>
     (goerror option \<times> buffers \<times> ('t, 's) coreEngine) outcome" where
  "dispatchLoop one envs [] buffers e = Returns (None, buffers, e)"
| "dispatchLoop one envs (idx # idxs) buffers e =
     (case one (envs idx) idx buffers e of
        Blocked \<Rightarrow> Blocked
      | Panic \<Rightarrow> Panic
      | Returns (DispatchReturns err, buffers', e') \<Rightarrow> Returns (err, buffers', e')
      | Returns (NextPipeline, buffers', e') \<Rightarrow> dispatchLoop one envs idxs buffers' e')"

definition dispatchToBuffers ::
    "(nat \<Rightarrow> call_env) \<Rightarrow> string \<Rightarrow> nat list \<Rightarrow> ChangeEvent \<Rightarrow> buffers \<Rightarrow> ('t, 's) coreEngine \<Rightarrow>
     (goerror option \<times> buffers \<times> ('t, 's) coreEngine) outcome" where
  "dispatchToBuffers envs sourceID pipelineIdxs event buffers e =
     dispatchLoop (\<lambda>env. dispatchOne env sourceID pipelineIdxs event) envs pipelineIdxs buffers e"

definition dispatchHeartbeatToBuffers ::
    "(nat \<Rightarrow> call_env) \<Rightarrow> nat list \<Rightarrow> position \<Rightarrow> buffers \<Rightarrow> ('t, 's) coreEngine \<Rightarrow>
     (goerror option \<times> buffers \<times> ('t, 's) coreEngine) outcome" where
  "dispatchHeartbeatToBuffers envs pipelineIdxs pos buffers e =
     dispatchLoop (\<lambda>env. dispatchHeartbeatOne env pos) envs pipelineIdxs buffers e"

section \<open>The consumer\<close>

text \<open>Applying an event with its retries; the first attempt has number 0.\<close>

definition processChange ::
    "'t SyncTarget \<Rightarrow> call_env \<Rightarrow> nat \<Rightarrow> ChangeEvent \<Rightarrow> ('t, 's) coreEngine \<Rightarrow> goerror option \<times> ('t, 's) coreEngine" where
  "processChange vt env idx event e =
     (let p = pipeline e idx;
          e = observe (OnChangeReceived (p_id p) (ev_Table event) (ev_Action event) (ev_Position event)) e
      in case applyChangeToTarget vt (env_now env 0) p event of
           (None, p') \<Rightarrow> (None, set_pipeline idx p' e)
         | (Some err, p') \<Rightarrow>
             (case retryChange vt env p' event err of
                (res, os, ds, p'') \<Rightarrow>
                  (res, (set_pipeline idx p'' e)
                     \<lparr>e_log := e_log e @ OnChangeError (p_id p) (ev_Table event) (ev_Action event) err # os\<rparr>)))"

datatype consumer_next = ConsumerContinues | ConsumerExits

text \<open>One iteration of the loop of \<^verbatim>\<open>runPipelineConsumer\<close> after the receive.\<close>

definition consumeItem ::
    "'t SyncTarget \<Rightarrow> call_env \<Rightarrow> string \<Rightarrow> nat \<Rightarrow> nat list \<Rightarrow> pipelineItem ChangeBuffer \<Rightarrow> pipelineItem \<Rightarrow>
     ('t, 's) coreEngine \<Rightarrow> consumer_next \<times> ('t, 's) coreEngine" where
  "consumeItem vt env sourceID pipelineIdx pipelineIdxs buf item e =
     (let p = pipeline e pipelineIdx;
          e = observe (OnBufferDepthChanged (p_id p) (Len buf) (Cap buf)) e;
          ack = advanceAck (env_ackOrder env) (env_ack env) sourceID
      in if p_state p \<noteq> PipelineStreaming then (ConsumerContinues, e)
         else case item of
           ItemHeartbeat pos \<Rightarrow>
             if t_IsDurable vt (p_target p) then (ConsumerContinues, ack (confirmPipeline pipelineIdx pos e))
             else (ConsumerContinues, e)
         | ItemEvent event \<Rightarrow>
             (case processChange vt env pipelineIdx event e of
                (Some err, e) \<Rightarrow>
                  let e = (if e_deadLetterStore e \<and> env_deadLetter env = None
                           then observe (OnDeadLetterWritten (p_id p) event err) e else e)
                  in (case applyErrorPolicy pipelineIdx sourceID pipelineIdxs e of
                        (stopAll, e) \<Rightarrow>
                          if stopAll \<or> p_errorPolicy p = ErrorStopSource then (ConsumerExits, e)
                          else (ConsumerContinues, e))
              | (None, e) \<Rightarrow>
                  let e = observe (OnChangeApplied (p_id p) (ev_Table event) (ev_Action event)) e;
                      e = (if t_IsDurable vt (p_target (pipeline e pipelineIdx))
                           then confirmPipeline pipelineIdx (ev_Position event) e else e)
                  in (ConsumerContinues, ack e)))"

section \<open>Facts on retries\<close>

definition backoff_at :: "nat \<Rightarrow> int" where
  "backoff_at i = min (100000000 * 2 ^ i) maxBackoff"

lemma backoff_at_0: "backoff_at 0 = 100000000"
  by (simp add: backoff_at_def maxBackoff_def)

lemma backoff_at_Suc: "(if backoff_at i * 2 > maxBackoff then maxBackoff else backoff_at i * 2) = backoff_at (Suc i)"
  by (auto simp: backoff_at_def maxBackoff_def min_def)

definition retry_outcome ::
    "call_env \<Rightarrow> int \<Rightarrow> nat \<Rightarrow> goerror option \<times> obs list \<times> int list \<times> 't resolvedPipeline \<Rightarrow> bool" where
  "retry_outcome env maxRetries k r =
     (case r of (res, os, ds, p') \<Rightarrow>
        ds = map backoff_at [k..<k + length ds] \<and>
        (int (length ds) = max 0 (maxRetries - int k) \<and> length os = length ds \<and> res \<noteq> None \<or>
         int (length ds) \<le> maxRetries - int k \<and> length ds = Suc (length os) \<and>
         (res = None \<or> env_retryDone env (int (k + length ds)) \<and> res = Some CtxErr)))"

lemma retryLoop_outcome:
  "retry_outcome env (p_maxRetries p) k (retryLoop vt env event (int k + 1) (backoff_at k) err p)"
proof (induction "nat (p_maxRetries p - int k)" arbitrary: k err p rule: less_induct)
  case less
  show ?case
  proof (cases "p_maxRetries p < int k + 1 \<or> env_retryDone env (int k + 1)")
    case True
    then show ?thesis
      by (subst retryLoop.simps) (auto simp: retry_outcome_def add.commute)
  next
    case False
    obtain res p' where a: "applyChangeToTarget vt (env_now env (int k + 1)) p event = (res, p')" by fastforce
    show ?thesis
    proof (cases res)
      case None
      with a False show ?thesis by (subst retryLoop.simps) (simp add: retry_outcome_def)
    next
      case (Some err')
      obtain rs os ds q where
        r: "retryLoop vt env event (int k + 1 + 1) (backoff_at (Suc k)) err' p' = (rs, os, ds, q)" by (metis prod_cases4)
      have max: "p_maxRetries p' = p_maxRetries p" using a by (rule applyChangeToTarget_maxRetries)
      have "retry_outcome env (p_maxRetries p') (Suc k) (retryLoop vt env event (int (Suc k) + 1) (backoff_at (Suc k)) err' p')"
        by (rule less) (use False max in auto)
      then have "retry_outcome env (p_maxRetries p) (Suc k) (rs, os, ds, q)"
        using r max by (simp add: add.commute)
      moreover have "retryLoop vt env event (int k + 1) (backoff_at k) err p =
          (rs, OnChangeError (p_id p) (ev_Table event) (ev_Action event) err' # os, backoff_at k # ds, q)"
        using False a Some r by (subst retryLoop.simps) (simp add: backoff_at_Suc)
      moreover have "[k..<k + Suc (length ds)] = k # [Suc k..<Suc k + length ds]"
        by (simp add: upt_rec)
      ultimately show ?thesis using False by (auto simp: retry_outcome_def algebra_simps simp del: upt_Suc)
    qed
  qed
qed

lemma retryChange_config: "retryChange vt env p event err = (res, os, ds, q) \<Longrightarrow> same_setup p q"
proof -
  have "retryLoop vt env event n b err p = (res, os, ds, q) \<Longrightarrow> same_setup p q" for n b
  proof (induction vt env event n b err p arbitrary: os ds rule: retryLoop.induct)
    case (1 vt env event n b err p)
    show ?case
    proof (cases "p_maxRetries p < n \<or> env_retryDone env n")
      case True
      with 1(2) show ?thesis by (subst (asm) retryLoop.simps) (auto split: if_splits)
    next
      case False
      obtain r p' where a: "applyChangeToTarget vt (env_now env n) p event = (r, p')" by fastforce
      then have pp: "same_setup p p'" by (rule applyChangeToTarget_config)
      show ?thesis
      proof (cases r)
        case None
        with 1(2) False a pp show ?thesis by (subst (asm) retryLoop.simps) auto
      next
        case (Some err')
        with 1(2) False a obtain os' ds' where
          "retryLoop vt env event (n + 1) (if b * 2 > maxBackoff then maxBackoff else b * 2) err' p' = (res, os', ds', q)"
          by (subst (asm) retryLoop.simps) (auto split: prod.splits)
        with 1(1) False a Some have "same_setup p' q" by metis
        with pp show ?thesis by (rule same_setup_trans)
      qed
    qed
  qed
  moreover assume "retryChange vt env p event err = (res, os, ds, q)"
  ultimately show ?thesis by (simp add: retryChange_def)
qed

section \<open>Facts on states and policies\<close>

lemma observe_frame [simp]:
  "e_pipelines (observe ob e) = e_pipelines e" "e_ackTracker (observe ob e) = e_ackTracker e"
  "e_log (observe ob e) = e_log e @ [ob]" "e_started (observe ob e) = e_started e"
  "e_readiness (observe ob e) = e_readiness e" "e_sources (observe ob e) = e_sources e"
  "e_cancelled (observe ob e) = e_cancelled e" "e_stopped (observe ob e) = e_stopped e"
  "e_deadLetterStore (observe ob e) = e_deadLetterStore e"
  by (simp_all add: observe_def)

lemma set_pipeline_frame [simp]:
  "e_pipelines (set_pipeline idx p e) = (e_pipelines e)[idx := p]"
  "e_ackTracker (set_pipeline idx p e) = e_ackTracker e"
  "e_log (set_pipeline idx p e) = e_log e" "e_started (set_pipeline idx p e) = e_started e"
  "e_readiness (set_pipeline idx p e) = e_readiness e" "e_sources (set_pipeline idx p e) = e_sources e"
  "e_cancelled (set_pipeline idx p e) = e_cancelled e" "e_stopped (set_pipeline idx p e) = e_stopped e"
  by (simp_all add: set_pipeline_def)

lemma transitionPipeline_frame [simp]:
  "e_pipelines (transitionPipeline idx s e) = (e_pipelines e)[idx := (pipeline e idx)\<lparr>p_state := s\<rparr>]"
  "e_ackTracker (transitionPipeline idx s e) = e_ackTracker e"
  "e_started (transitionPipeline idx s e) = e_started e"
  "e_readiness (transitionPipeline idx s e) = e_readiness e"
  "e_sources (transitionPipeline idx s e) = e_sources e"
  "e_cancelled (transitionPipeline idx s e) = e_cancelled e"
  "e_stopped (transitionPipeline idx s e) = e_stopped e"
  by (auto simp: transitionPipeline_def Let_def)

lemma skipPipeline_frame [simp]:
  "e_pipelines (skipPipeline idx e) = e_pipelines e" "e_log (skipPipeline idx e) = e_log e"
  "e_ackTracker (skipPipeline idx e) = Skip (e_ackTracker e) (p_id (pipeline e idx))"
  "e_started (skipPipeline idx e) = e_started e" "e_readiness (skipPipeline idx e) = e_readiness e"
  by (simp_all add: skipPipeline_def)

lemma cancelEngine_frame [simp]:
  "e_pipelines (cancelEngine e) = e_pipelines e" "e_log (cancelEngine e) = e_log e"
  "e_ackTracker (cancelEngine e) = e_ackTracker e" "e_readiness (cancelEngine e) = e_readiness e"
  by (simp_all add: cancelEngine_def)

lemma is_skipped_Skip [simp]: "is_skipped (Skip a pid) q \<longleftrightarrow> q = pid \<or> is_skipped a q"
  by (auto simp: Skip_def is_skipped_def)

lemma Skip_frame [simp]:
  "pipelineSource (Skip a pid) = pipelineSource a" "positions (Skip a pid) = positions a"
  "lastAcked (Skip a pid) = lastAcked a" "comparators (Skip a pid) = comparators a"
  by (simp_all add: Skip_def)

text \<open>Log entries that are not acknowledgements.\<close>

fun is_ack :: "obs \<Rightarrow> bool" where
  "is_ack (CallAck sid pos) = True"
| "is_ack ob = False"

lemma transitionPipeline_acks [simp]:
  "filter is_ack (e_log (transitionPipeline idx s e)) = filter is_ack (e_log e)"
  by (simp add: transitionPipeline_def Let_def)

text \<open>Which pipelines a stop loop stops.\<close>

definition stops :: "('t resolvedPipeline \<Rightarrow> bool) \<Rightarrow> nat list \<Rightarrow> ('t, 's) coreEngine \<Rightarrow> nat \<Rightarrow> bool" where
  "stops applies idxs e i \<longleftrightarrow> i \<in> set idxs \<and> applies (pipeline e i) \<and>
     loadState e i \<noteq> PipelineError \<and> loadState e i \<noteq> PipelineStopped"

lemma stopLoop_length [simp]: "length (e_pipelines (stopLoop applies idxs e)) = length (e_pipelines e)"
  by (induction idxs arbitrary: e) auto

lemma stopLoop_started [simp]: "e_started (stopLoop applies idxs e) = e_started e"
  by (induction idxs arbitrary: e) auto

lemma stopLoop_acks [simp]: "filter is_ack (e_log (stopLoop applies idxs e)) = filter is_ack (e_log e)"
  by (induction idxs arbitrary: e) auto

lemma stopLoop_tracker:
  "pipelineSource (e_ackTracker (stopLoop applies idxs e)) = pipelineSource (e_ackTracker e)"
  "positions (e_ackTracker (stopLoop applies idxs e)) = positions (e_ackTracker e)"
  "lastAcked (e_ackTracker (stopLoop applies idxs e)) = lastAcked (e_ackTracker e)"
  "comparators (e_ackTracker (stopLoop applies idxs e)) = comparators (e_ackTracker e)"
  by (induction idxs arbitrary: e) auto

lemma stopLoop_effect:
  assumes "\<forall>i \<in> set idxs. i < length (e_pipelines e)" and "\<And>p s. applies (p\<lparr>p_state := s\<rparr>) = applies p"
  shows "pipeline (stopLoop applies idxs e) i =
      (if stops applies idxs e i then (pipeline e i)\<lparr>p_state := PipelineError\<rparr> else pipeline e i) \<and>
    (is_skipped (e_ackTracker (stopLoop applies idxs e)) pid \<longleftrightarrow>
       is_skipped (e_ackTracker e) pid \<or> (\<exists>j. stops applies idxs e j \<and> p_id (pipeline e j) = pid))"
  using assms(1)
proof (induction idxs arbitrary: e)
  case Nil
  then show ?case by (simp add: stops_def)
next
  case (Cons k idxs)
  show ?case
  proof (cases "stops applies (k # idxs) e k")
    case False
    then have "stopLoop applies (k # idxs) e = stopLoop applies idxs e"
      and "stops applies (k # idxs) e = stops applies idxs e"
      by (auto simp: stops_def fun_eq_iff)
    with Cons show ?thesis by simp
  next
    case True
    let ?e = "skipPipeline k (transitionPipeline k PipelineError e)"
    have k: "k < length (e_pipelines e)" using Cons.prems by simp
    have st: "stops applies idxs ?e j \<longleftrightarrow> stops applies (k # idxs) e j \<and> j \<noteq> k" for j
      using k assms(2) by (cases "j = k") (auto simp: stops_def)
    have loop: "stopLoop applies (k # idxs) e = stopLoop applies idxs ?e"
      using True by (simp add: stops_def)
    show ?thesis
    proof (intro conjI)
      show "pipeline (stopLoop applies (k # idxs) e) i =
          (if stops applies (k # idxs) e i then (pipeline e i)\<lparr>p_state := PipelineError\<rparr> else pipeline e i)"
        unfolding loop using Cons.IH [of ?e] Cons.prems True k by (auto simp: st nth_list_update)
      have "(\<exists>j. stops applies idxs ?e j \<and> p_id (pipeline ?e j) = pid) \<or> pid = p_id (pipeline e k) \<longleftrightarrow>
          (\<exists>j. stops applies (k # idxs) e j \<and> p_id (pipeline e j) = pid)"
        unfolding st using True k by (auto simp: nth_list_update split: if_splits)
      moreover have "is_skipped (e_ackTracker ?e) pid \<longleftrightarrow> pid = p_id (pipeline e k) \<or> is_skipped (e_ackTracker e) pid"
        using k by simp
      ultimately show "is_skipped (e_ackTracker (stopLoop applies (k # idxs) e)) pid \<longleftrightarrow>
          is_skipped (e_ackTracker e) pid \<or> (\<exists>j. stops applies (k # idxs) e j \<and> p_id (pipeline e j) = pid)"
        unfolding loop using Cons.IH [of ?e] Cons.prems by auto
    qed
  qed
qed

text \<open>Which pipelines an error policy puts into the error state when pipeline \<open>k\<close> fails.\<close>

definition fails :: "ErrorPolicyKind \<Rightarrow> nat \<Rightarrow> string \<Rightarrow> nat list \<Rightarrow> ('t, 's) coreEngine \<Rightarrow> nat \<Rightarrow> bool" where
  "fails pol k sid idxs e =
     (case pol of
        ErrorIsolate \<Rightarrow> (\<lambda>i. i = k)
      | ErrorStopSource \<Rightarrow> stops (\<lambda>pp. p_sourceID pp = sid) idxs e
      | ErrorStopAll \<Rightarrow> stops (\<lambda>pp. True) [0..<length (e_pipelines e)] e)"

lemma applyErrorPolicy_effect:
  assumes "k < length (e_pipelines e)" and "\<forall>i \<in> set idxs. i < length (e_pipelines e)"
    and "applyErrorPolicy k sid idxs e = (stop, e')"
  shows "pipeline e' i = (if fails (p_errorPolicy (pipeline e k)) k sid idxs e i
      then (pipeline e i)\<lparr>p_state := PipelineError\<rparr> else pipeline e i)"
    and "is_skipped (e_ackTracker e') pid \<longleftrightarrow> is_skipped (e_ackTracker e) pid \<or>
      (\<exists>j. fails (p_errorPolicy (pipeline e k)) k sid idxs e j \<and> p_id (pipeline e j) = pid)"
proof -
  have source: "pipeline (stopLoop (\<lambda>pp. p_sourceID pp = sid) idxs e) i =
        (if stops (\<lambda>pp. p_sourceID pp = sid) idxs e i then (pipeline e i)\<lparr>p_state := PipelineError\<rparr> else pipeline e i) \<and>
      (is_skipped (e_ackTracker (stopLoop (\<lambda>pp. p_sourceID pp = sid) idxs e)) pid \<longleftrightarrow> is_skipped (e_ackTracker e) pid \<or>
        (\<exists>j. stops (\<lambda>pp. p_sourceID pp = sid) idxs e j \<and> p_id (pipeline e j) = pid))"
    by (rule stopLoop_effect) (use assms(2) in auto)
  have all: "pipeline (stopLoop (\<lambda>pp. True) [0..<length (e_pipelines e)] e) i =
        (if stops (\<lambda>pp. True) [0..<length (e_pipelines e)] e i then (pipeline e i)\<lparr>p_state := PipelineError\<rparr> else pipeline e i) \<and>
      (is_skipped (e_ackTracker (stopLoop (\<lambda>pp. True) [0..<length (e_pipelines e)] e)) pid \<longleftrightarrow>
        is_skipped (e_ackTracker e) pid \<or>
        (\<exists>j. stops (\<lambda>pp. True) [0..<length (e_pipelines e)] e j \<and> p_id (pipeline e j) = pid))"
    by (rule stopLoop_effect) auto
  show "pipeline e' i = (if fails (p_errorPolicy (pipeline e k)) k sid idxs e i
      then (pipeline e i)\<lparr>p_state := PipelineError\<rparr> else pipeline e i)"
  proof (cases "p_errorPolicy (pipeline e k)")
    case ErrorIsolate
    with assms show ?thesis by (auto simp: applyErrorPolicy_def fails_def nth_list_update)
  qed (use assms(3) source all in \<open>auto simp add: applyErrorPolicy_def fails_def Let_def split del: if_split\<close>)
  show "is_skipped (e_ackTracker e') pid \<longleftrightarrow> is_skipped (e_ackTracker e) pid \<or>
      (\<exists>j. fails (p_errorPolicy (pipeline e k)) k sid idxs e j \<and> p_id (pipeline e j) = pid)"
  proof (cases "p_errorPolicy (pipeline e k)")
    case ErrorIsolate
    with assms show ?thesis by (auto simp: applyErrorPolicy_def fails_def)
  qed (use assms(3) source all in \<open>auto simp add: applyErrorPolicy_def fails_def Let_def split del: if_split\<close>)
qed

lemma applyErrorPolicy_frame:
  assumes "applyErrorPolicy k sid idxs e = (stop, e')"
  shows "length (e_pipelines e') = length (e_pipelines e)"
    "pipelineSource (e_ackTracker e') = pipelineSource (e_ackTracker e)"
    "positions (e_ackTracker e') = positions (e_ackTracker e)"
    "lastAcked (e_ackTracker e') = lastAcked (e_ackTracker e)"
    "comparators (e_ackTracker e') = comparators (e_ackTracker e)"
    "filter is_ack (e_log e') = filter is_ack (e_log e)"
    "stop \<longleftrightarrow> p_errorPolicy (pipeline e k) = ErrorStopAll"
  using assms
  by (cases "p_errorPolicy (pipeline e k)", auto simp: applyErrorPolicy_def Let_def stopLoop_tracker)+

lemma fails_self:
  assumes "k < length (e_pipelines e)" and "k \<in> set idxs" and "p_sourceID (pipeline e k) = sid"
    and "loadState e k \<noteq> PipelineError" and "loadState e k \<noteq> PipelineStopped"
  shows "fails pol k sid idxs e k"
  using assms by (cases pol) (auto simp: fails_def stops_def)

section \<open>Facts on the consumer\<close>

lemma retryLoop_acks: "retryLoop vt env event n b err p = (res, os, ds, q) \<Longrightarrow> filter is_ack os = []"
proof (induction vt env event n b err p arbitrary: os ds rule: retryLoop.induct)
  case (1 vt env event n b err p)
  obtain r p' where a: "applyChangeToTarget vt (env_now env n) p event = (r, p')" by fastforce
  show ?case
  proof (cases "p_maxRetries p < n \<or> env_retryDone env n \<or> r = None")
    case True
    with 1(2) a show ?thesis by (subst (asm) retryLoop.simps) (auto split: if_splits)
  next
    case False
    then obtain err' where "r = Some err'" by auto
    moreover from this 1(2) False a obtain os' ds' where
      "retryLoop vt env event (n + 1) (if b * 2 > maxBackoff then maxBackoff else b * 2) err' p' = (res, os', ds', q)"
      and "os = OnChangeError (p_id p) (ev_Table event) (ev_Action event) err' # os'"
      by (subst (asm) retryLoop.simps) (auto split: prod.splits)
    ultimately show ?thesis using 1(1) False a by simp
  qed
qed

lemma processChange_cases:
  assumes "processChange vt env idx event e = (res, e')"
  obtains q where "e_pipelines e' = (e_pipelines e)[idx := q]" and "same_setup (pipeline e idx) q"
    and "e_ackTracker e' = e_ackTracker e" and "filter is_ack (e_log e') = filter is_ack (e_log e)"
proof -
  obtain r p' where a: "applyChangeToTarget vt (env_now env 0) (pipeline e idx) event = (r, p')" by fastforce
  note c = applyChangeToTarget_config [OF a]
  show thesis
  proof (cases r)
    case None
    with a assms that [of p'] c show thesis by (auto simp: processChange_def Let_def)
  next
    case (Some err)
    obtain rs os ds q where r: "retryChange vt env p' event err = (rs, os, ds, q)" by (metis prod_cases4)
    have os: "filter is_ack os = []"
      using r unfolding retryChange_def by (rule retryLoop_acks)
    from c retryChange_config [OF r] have "same_setup (pipeline e idx) q" by (rule same_setup_trans)
    with a assms that [of q] Some r os show thesis by (auto simp: processChange_def Let_def)
  qed
qed

section \<open>Examples\<close>

text \<open>A target whose state is the number of calls that will still fail, and a pipeline on it.\<close>

definition flaky_call :: "nat call" where
  "flaky_call n = (case n of 0 \<Rightarrow> (None, 0) | Suc m \<Rightarrow> (Some (Err ''unavailable''), m))"

definition flaky_vt :: "nat SyncTarget" where
  "flaky_vt =
     \<lparr>t_OnInit = (\<lambda>table cols. flaky_call), t_OnBaselineRow = (\<lambda>now table r. flaky_call),
      t_OnBaselineComplete = (\<lambda>table. flaky_call), t_OnInsert = (\<lambda>now table r. flaky_call),
      t_OnUpdate = (\<lambda>now table r ident. flaky_call), t_OnDelete = (\<lambda>now table ident. flaky_call),
      t_OnTruncate = (\<lambda>now table. flaky_call), t_IsDurable = (\<lambda>n. True),
      t_OnSchemaChange = (\<lambda>now table old new n. ((SchemaContinue, []), n)),
      t_ExportSnapshot = (\<lambda>order n. Inr []), t_RestoreSnapshot = (\<lambda>info rs. flaky_call),
      t_SupportsConsistentSnapshot = False, t_OnClose = (\<lambda>table. flaky_call),
      t_SetChangePosition = None, t_Count = None, t_All = None\<rparr>"

definition example_pipeline :: "string \<Rightarrow> TableIdentifier \<Rightarrow> 't \<Rightarrow> 't resolvedPipeline" where
  "example_pipeline i table t =
     \<lparr>p_id = i, p_sourceID = ''src'', p_table = table, p_target = t, p_filters = [], p_transforms = [],
      p_bufferSize = 4, p_bufferPolicy = BufferBlock, p_errorPolicy = ErrorIsolate, p_maxRetries = 2,
      p_ttlFunc = None, p_ttlScanInterval = 0, p_validationAction = ValidationWarn, p_validationInterval = 0,
      p_state = PipelineStreaming, p_expectedRows = 0\<rparr>"

definition example_insert :: "TableIdentifier \<Rightarrow> position \<Rightarrow> row \<Rightarrow> ChangeEvent" where
  "example_insert table pos r =
     \<lparr>ev_Table = table, ev_Action = ActionInsert, ev_Position = pos, ev_Timestamp = 0, ev_CommitTimestamp = None,
      ev_XID = 0, ev_NewValues = Some r, ev_OldValues = None\<rparr>"

definition example_env :: "string list \<Rightarrow> call_env" where
  "example_env order =
     \<lparr>env_now = (\<lambda>n i. 0), env_retryDone = (\<lambda>n. False), env_deadLetter = None, env_ackOrder = order,
      env_ack = None, env_ctxDone = False, env_pickDone = False\<rparr>"

definition example_engine :: "'t resolvedPipeline list \<Rightarrow> ('t, unit) coreEngine" where
  "example_engine ps =
     \<lparr>e_sources = [''src'' \<mapsto> Some ()], e_pipelines = ps, e_log = [],
      e_readiness = NewReadinessTracker (map p_id ps),
      e_ackTracker = foldl (\<lambda>a p. RegisterPipeline a (p_id p) (p_sourceID p) (Some CompareLSN)) NewAckTracker ps,
      e_snapshotStore = False, e_snapshotSerializer = False, e_snapshotSchedule = 0, e_snapshotOnShutdown = False,
      e_snapshotRetention = 0, e_shutdownTimeout = 0, e_deadLetterStore = False, e_schemas = Map.empty,
      e_started = True, e_stopped = False, e_cancelled = False\<rparr>"

lemmas example_defs = flaky_call_def flaky_vt_def example_pipeline_def example_insert_def example_env_def
  example_engine_def

section \<open>Properties\<close>





end
