(* ===== verification/Engine_Control.thy ===== *)
theory Engine_Control
  imports Engine_Pipeline
begin

text \<open>
  The engine's entry points and background scanners (\<^verbatim>\<open>Start\<close>, \<^verbatim>\<open>Pause\<close>, \<^verbatim>\<open>Resume\<close>, the
  readiness calls, the queries, \<^verbatim>\<open>runTTLScanner\<close> and \<^verbatim>\<open>runValidationScanner\<close> of
  \<^verbatim>\<open>engine.go\<close>).  A goroutine that \<^verbatim>\<open>Start\<close> launches is an element of the list it returns; a
  scanner is given the ticks of its ticker.  Results of a source's methods are arguments.
\<close>

section \<open>Starting\<close>

datatype task =
    RunSource string "nat list"
  | RunPeriodicSnapshots
  | RunTTLScanner nat
  | RunValidationScanner nat

fun groupLoop :: "nat \<Rightarrow> 't resolvedPipeline list \<Rightarrow> (string \<rightharpoonup> nat list) \<Rightarrow> (string \<rightharpoonup> nat list)" where
  "groupLoop i [] groups = groups"
| "groupLoop i (p # ps) groups =
     groupLoop (i + 1) ps
       (groups(p_sourceID p \<mapsto> (case groups (p_sourceID p) of None \<Rightarrow> [] | Some idxs \<Rightarrow> idxs) @ [i]))"

definition groupPipelinesBySource :: "('t, 's) coreEngine \<Rightarrow> (string \<rightharpoonup> nat list)" where
  "groupPipelinesBySource e = groupLoop 0 (e_pipelines e) Map.empty"

definition source_tasks :: "string list \<Rightarrow> (string \<rightharpoonup> nat list) \<Rightarrow> task list" where
  "source_tasks order groups =
     concat (map (\<lambda>sid. case groups sid of None \<Rightarrow> [] | Some idxs \<Rightarrow> [RunSource sid idxs]) order)"

definition Start :: "string list \<Rightarrow> ('t, 's) coreEngine \<Rightarrow> goerror option \<times> task list \<times> ('t, 's) coreEngine" where
  "Start order e =
     (if e_stopped e then (Some errStopped, [], e)
      else if e_started e then (Some errAlreadyStarted, [], e)
      else
        let e = e\<lparr>e_started := True\<rparr>; idxs = [0..<length (e_pipelines e)] in
        (None,
         source_tasks order (groupPipelinesBySource e) @
         (if 0 < e_snapshotSchedule e \<and> e_snapshotStore e then [RunPeriodicSnapshots] else []) @
         map RunTTLScanner
           (filter (\<lambda>i. p_ttlFunc (pipeline e i) \<noteq> None \<and> 0 < p_ttlScanInterval (pipeline e i)) idxs) @
         map RunValidationScanner (filter (\<lambda>i. 0 < p_validationInterval (pipeline e i)) idxs),
         e))"

section \<open>The expiry scanner\<close>

text \<open>\<open>done i\<close> is the \<open>i\<close>-th check of the context during a scan, \<open>now i\<close> the clock at the \<open>i\<close>-th row.\<close>

fun collectExpired :: "(row \<Rightarrow> int) \<Rightarrow> clock \<Rightarrow> (nat \<Rightarrow> bool) \<Rightarrow> nat \<Rightarrow> (string \<times> row) list \<Rightarrow> row list option" where
  "collectExpired ttl now done i [] = Some []"
| "collectExpired ttl now done i ((k, r) # rs) =
     (if done i then None
      else let expiry = ttl r in
           map_option (\<lambda>rows. if expiry \<noteq> 0 \<and> expiry < now i then r # rows else rows)
             (collectExpired ttl now done (i + 1) rs))"

fun deleteExpired ::
    "'t SyncTarget \<Rightarrow> clock \<Rightarrow> (nat \<Rightarrow> bool) \<Rightarrow> nat \<Rightarrow> row list \<Rightarrow> nat \<Rightarrow> ('t, 's) coreEngine \<Rightarrow> ('t, 's) coreEngine" where
  "deleteExpired vt now done i [] idx e = e"
| "deleteExpired vt now done i (r # rs) idx e =
     (if done i then e
      else let p = pipeline e idx in
           case call_target (t_OnDelete vt (\<lambda>j. now (i + j)) (p_table p) r) p of
             (Some err, p') \<Rightarrow> deleteExpired vt now done (i + 1) rs idx (set_pipeline idx p' e)
           | (None, p') \<Rightarrow>
               deleteExpired vt now done (i + 1) rs idx
                 (observe (OnRowExpired (p_id p) (p_table p) (Sprint_v (row_get r ''id'')))
                    (set_pipeline idx (add_rows (- 1) p') e)))"

text \<open>\<open>rows\<close> is what the target's \<^verbatim>\<open>All\<close> yields.  The scan runs only on pipelines with a TTL
  function.\<close>

definition scanExpiredRows ::
    "'t SyncTarget \<Rightarrow> clock \<Rightarrow> (nat \<Rightarrow> bool) \<Rightarrow> (string \<times> row) list \<Rightarrow> nat \<Rightarrow> ('t, 's) coreEngine \<Rightarrow> ('t, 's) coreEngine" where
  "scanExpiredRows vt now done rows idx e =
     (case p_ttlFunc (pipeline e idx) of
        None \<Rightarrow> e
      | Some ttl \<Rightarrow>
          (case collectExpired ttl now done 0 rows of
             None \<Rightarrow> e
           | Some expired \<Rightarrow> deleteExpired vt now done (length rows) expired idx e))"

record tick =
  tick_now :: clock
  tick_done :: "nat \<Rightarrow> bool"
  tick_order :: "string list"

fun ttlTicks ::
    "'t SyncTarget \<Rightarrow> (string list \<Rightarrow> 't \<Rightarrow> (string \<times> row) list) \<Rightarrow> nat \<Rightarrow> tick list \<Rightarrow> ('t, 's) coreEngine \<Rightarrow>
     ('t, 's) coreEngine" where
  "ttlTicks vt all_rows idx [] e = e"
| "ttlTicks vt all_rows idx (t # ts) e =
     ttlTicks vt all_rows idx ts
       (scanExpiredRows vt (tick_now t) (tick_done t) (all_rows (tick_order t) (p_target (pipeline e idx))) idx e)"

text \<open>Before every pipeline is ready the scanners wait.\<close>

definition runTTLScanner :: "'t SyncTarget \<Rightarrow> nat \<Rightarrow> tick list \<Rightarrow> ('t, 's) coreEngine \<Rightarrow> ('t, 's) coreEngine" where
  "runTTLScanner vt idx ticks e =
     (case t_All vt of
        None \<Rightarrow> e
      | Some all_rows \<Rightarrow> if \<not> AwaitReady (e_readiness e) 0 False then e else ttlTicks vt all_rows idx ticks e)"

section \<open>The validation scanner\<close>

text \<open>One tick; the result says whether the scanner goes on.\<close>

definition validationTick :: "('t \<Rightarrow> nat) \<Rightarrow> nat \<Rightarrow> ('t, 's) coreEngine \<Rightarrow> bool \<times> ('t, 's) coreEngine" where
  "validationTick count idx e =
     (let p = pipeline e idx in
      if p_state p \<noteq> PipelineStreaming then (True, e)
      else
        let expected = p_expectedRows p; actual = int (count (p_target p)); match = (expected = actual);
            e = observe (OnValidationResult (p_id p) (p_table p) expected actual match) e
        in if match then (True, e)
           else case p_validationAction p of
                  ValidationWarn \<Rightarrow> (True, e)
                | ValidationReBaseline \<Rightarrow> (False, transitionPipeline idx PipelineError e)
                | ValidationFail \<Rightarrow> (False, transitionPipeline idx PipelineError e))"

fun validationTicks :: "('t \<Rightarrow> nat) \<Rightarrow> nat \<Rightarrow> nat \<Rightarrow> ('t, 's) coreEngine \<Rightarrow> ('t, 's) coreEngine" where
  "validationTicks count idx 0 e = e"
| "validationTicks count idx (Suc n) e =
     (case validationTick count idx e of (go, e') \<Rightarrow> if go then validationTicks count idx n e' else e')"

definition runValidationScanner :: "'t SyncTarget \<Rightarrow> nat \<Rightarrow> nat \<Rightarrow> ('t, 's) coreEngine \<Rightarrow> ('t, 's) coreEngine" where
  "runValidationScanner vt idx ticks e =
     (case t_Count vt of
        None \<Rightarrow> e
      | Some count \<Rightarrow> if \<not> AwaitReady (e_readiness e) 0 False then e else validationTicks count idx ticks e)"

section \<open>Pausing and resuming\<close>

fun switchLoop :: "string \<Rightarrow> PipelineState \<Rightarrow> PipelineState \<Rightarrow> nat list \<Rightarrow> ('t, 's) coreEngine \<Rightarrow> ('t, 's) coreEngine" where
  "switchLoop sourceID from to [] e = e"
| "switchLoop sourceID from to (i # is) e =
     (if p_sourceID (pipeline e i) = sourceID \<and> loadState e i = from
      then switchLoop sourceID from to is (transitionPipeline i to e)
      else switchLoop sourceID from to is e)"

text \<open>The checks that \<^verbatim>\<open>Pause\<close>, \<^verbatim>\<open>Resume\<close> and \<^verbatim>\<open>Reload\<close> start with.\<close>

definition checkRunning :: "string \<Rightarrow> ('t, 's) coreEngine \<Rightarrow> goerror option" where
  "checkRunning sourceID e =
     (if \<not> e_started e then Some errNotStarted
      else if e_stopped e then Some errStopped
      else if e_sources e sourceID = None then Some (Err (''unknown source: '' @ sourceID))
      else None)"

definition Pause :: "goerror option \<Rightarrow> string \<Rightarrow> ('t, 's) coreEngine \<Rightarrow> goerror option \<times> ('t, 's) coreEngine" where
  "Pause pauseErr sourceID e =
     (case checkRunning sourceID e of
        Some err \<Rightarrow> (Some err, e)
      | None \<Rightarrow>
          let e = observe (CallPause sourceID) e in
          case pauseErr of
            Some err \<Rightarrow> (Some (Wrap (''pause source '' @ sourceID) err), e)
          | None \<Rightarrow> (None, switchLoop sourceID PipelineStreaming PipelinePaused [0..<length (e_pipelines e)] e))"

definition Resume :: "goerror option \<Rightarrow> string \<Rightarrow> ('t, 's) coreEngine \<Rightarrow> goerror option \<times> ('t, 's) coreEngine" where
  "Resume resumeErr sourceID e =
     (case checkRunning sourceID e of
        Some err \<Rightarrow> (Some err, e)
      | None \<Rightarrow>
          let e = observe (CallResume sourceID) e in
          case resumeErr of
            Some err \<Rightarrow> (Some (Wrap (''resume source '' @ sourceID) err), e)
          | None \<Rightarrow> (None, switchLoop sourceID PipelinePaused PipelineStreaming [0..<length (e_pipelines e)] e))"

section \<open>Readiness and queries\<close>

definition engine_AwaitReady :: "int \<Rightarrow> bool \<Rightarrow> ('t, 's) coreEngine \<Rightarrow> bool" where
  "engine_AwaitReady timeout closedInTime e = AwaitReady (e_readiness e) timeout closedInTime"

definition engine_IsReady :: "('t, 's) coreEngine \<Rightarrow> bool" where
  "engine_IsReady e = IsReady (e_readiness e)"

definition engine_OnReady :: "nat \<Rightarrow> ('t, 's) coreEngine \<Rightarrow> ('t, 's) coreEngine" where
  "engine_OnReady callback e = e\<lparr>e_readiness := OnReady (e_readiness e) callback\<rparr>"

fun sourceReadyLoop :: "string \<Rightarrow> bool \<Rightarrow> 't resolvedPipeline list \<Rightarrow> bool" where
  "sourceReadyLoop sourceID found [] = found"
| "sourceReadyLoop sourceID found (p # ps) =
     (if p_sourceID p \<noteq> sourceID then sourceReadyLoop sourceID found ps
      else if p_state p \<noteq> PipelineStreaming \<and> p_state p \<noteq> PipelinePaused then False
      else sourceReadyLoop sourceID True ps)"

definition IsSourceReady :: "string \<Rightarrow> ('t, 's) coreEngine \<Rightarrow> bool" where
  "IsSourceReady sourceID e = sourceReadyLoop sourceID False (e_pipelines e)"

definition Targets :: "string \<Rightarrow> TableIdentifier \<Rightarrow> ('t, 's) coreEngine \<Rightarrow> 't list" where
  "Targets sourceID table e =
     map p_target (filter (\<lambda>p. (sourceID = [] \<or> p_sourceID p = sourceID) \<and> p_table p = table) (e_pipelines e))"

record PipelineInfo =
  pi_ID :: string
  pi_SourceID :: string
  pi_Table :: TableIdentifier
  pi_TargetType :: string
  pi_State :: PipelineState
  pi_RowCount :: int

definition Pipelines :: "('t \<Rightarrow> string) \<Rightarrow> ('t, 's) coreEngine \<Rightarrow> PipelineInfo list" where
  "Pipelines typeName e =
     map (\<lambda>p. \<lparr>pi_ID = p_id p, pi_SourceID = p_sourceID p, pi_Table = p_table p,
               pi_TargetType = typeName (p_target p), pi_State = p_state p, pi_RowCount = p_expectedRows p\<rparr>)
       (e_pipelines e)"

definition SourceIDs :: "string list \<Rightarrow> ('t, 's) coreEngine \<Rightarrow> string list" where
  "SourceIDs order e = order"

definition Source :: "string \<Rightarrow> ('t, 's) coreEngine \<Rightarrow> 's option option \<times> bool" where
  "Source sourceID e = (e_sources e sourceID, e_sources e sourceID \<noteq> None)"

definition TableSchema :: "TableIdentifier \<Rightarrow> ('t, 's) coreEngine \<Rightarrow> ColumnDefinition list" where
  "TableSchema table e = (case e_schemas e table of None \<Rightarrow> [] | Some cols \<Rightarrow> cols)"

text \<open>\<open>reset\<close> is the source's \<^verbatim>\<open>ResetSource\<close>, if it implements \<^verbatim>\<open>Resettable\<close>.\<close>

definition ResetSource :: "('s option \<Rightarrow> (bool \<Rightarrow> goerror option) option) \<Rightarrow> string \<Rightarrow> bool \<Rightarrow> ('t, 's) coreEngine \<Rightarrow> goerror option" where
  "ResetSource reset sourceID dropPublication e =
     (case e_sources e sourceID of
        None \<Rightarrow> Some (Err (''unknown source: '' @ sourceID))
      | Some src \<Rightarrow>
          (case reset src of
             None \<Rightarrow> Some (Err (''source '' @ sourceID @ '' does not support reset''))
           | Some f \<Rightarrow> f dropPublication))"

text \<open>\<open>as_T\<close> is the type assertion.\<close>

fun firstTarget :: "('t \<Rightarrow> 'x option) \<Rightarrow> 't list \<Rightarrow> 'x option" where
  "firstTarget as_T [] = None"
| "firstTarget as_T (t # ts) = (case as_T t of Some x \<Rightarrow> Some x | None \<Rightarrow> firstTarget as_T ts)"

definition GetTarget :: "('t \<Rightarrow> 'x option) \<Rightarrow> string \<Rightarrow> TableIdentifier \<Rightarrow> ('t, 's) coreEngine \<Rightarrow> 'x option" where
  "GetTarget as_T sourceID table e = firstTarget as_T (Targets sourceID table e)"

end
