(* ===== verification/Engine_Stream.thy ===== *)
theory Engine_Stream
  imports Engine_Control
begin

text \<open>
  A streaming session (\<^verbatim>\<open>streamFromPosition\<close> of \<^verbatim>\<open>engine.go\<close>): the source calls the handler, the
  dispatcher puts the item into one pipeline's buffer after the other, and every pipeline has a
  consumer.  A run is an explicit interleaving, a list of actions; each action is one call of the
  source, one iteration of the dispatch loop, one iteration of a consumer, one tick of a scanner, or a
  call of \<^verbatim>\<open>Pause\<close> or \<^verbatim>\<open>Resume\<close>.  An action that would have to wait is \<open>Blocked\<close>.  The fields
  \<open>ss_emitted\<close> and \<open>ss_applied\<close> only record the run.  The theory shows what an acknowledgement
  guarantees in every interleaving.
\<close>

section \<open>Sessions\<close>

record ('t, 's) stream_state =
  ss_engine :: "('t, 's) coreEngine"
  ss_buffers :: buffers
  ss_call :: "(pipelineItem \<times> nat list) option"
  ss_failed :: bool
  ss_returned :: bool
  ss_exited :: "nat \<Rightarrow> bool"
  ss_emitted :: "pipelineItem list"
  ss_applied :: "nat \<Rightarrow> ChangeEvent list"

datatype action =
    Emit pipelineItem
  | Dispatch call_env
  | Consume nat call_env
  | TTLScan nat tick
  | Validate nat
  | PauseSource
  | ResumeSource
  | StreamReturns

definition stream_init :: "nat list \<Rightarrow> ('t, 's) coreEngine \<Rightarrow> ('t, 's) stream_state" where
  "stream_init idxs e =
     \<lparr>ss_engine = e,
      ss_buffers = (\<lambda>idx. if idx \<in> set idxs then Some (NewChangeBuffer (p_bufferSize (pipeline e idx))) else None),
      ss_call = None, ss_failed = False, ss_returned = False, ss_exited = (\<lambda>idx. False), ss_emitted = [], ss_applied = (\<lambda>idx. [])\<rparr>"

definition dispatchItem ::
    "call_env \<Rightarrow> string \<Rightarrow> nat list \<Rightarrow> pipelineItem \<Rightarrow> nat \<Rightarrow> buffers \<Rightarrow> ('t, 's) coreEngine \<Rightarrow>
     (dispatch_next \<times> buffers \<times> ('t, 's) coreEngine) outcome" where
  "dispatchItem env sid idxs item =
     (case item of
        ItemEvent event \<Rightarrow> dispatchOne env sid idxs event
      | ItemHeartbeat pos \<Rightarrow> dispatchHeartbeatOne env pos)"

definition applied_by ::
    "'t SyncTarget \<Rightarrow> call_env \<Rightarrow> nat \<Rightarrow> pipelineItem \<Rightarrow> ('t, 's) coreEngine \<Rightarrow> ChangeEvent list" where
  "applied_by vt env idx item e =
     (case item of
        ItemEvent event \<Rightarrow>
          if loadState e idx = PipelineStreaming \<and> fst (processChange vt env idx event e) = None then [event] else []
      | ItemHeartbeat pos \<Rightarrow> [])"

text \<open>The source calls the handler again only after the previous call has returned without an error;
  when \<^verbatim>\<open>Stream\<close> returns, the buffers are closed.\<close>

definition stream_step ::
    "'t SyncTarget \<Rightarrow> string \<Rightarrow> nat list \<Rightarrow> action \<Rightarrow> ('t, 's) stream_state \<Rightarrow> ('t, 's) stream_state outcome" where
  "stream_step vt sid idxs act st =
     (let e = ss_engine st in
      case act of
        Emit item \<Rightarrow>
          if ss_call st \<noteq> None \<or> ss_failed st \<or> ss_returned st then Blocked
          else Returns (st\<lparr>ss_call := Some (item, idxs), ss_emitted := ss_emitted st @ [item]\<rparr>)
      | Dispatch env \<Rightarrow>
          (case ss_call st of
             None \<Rightarrow> Blocked
           | Some (item, []) \<Rightarrow> Returns (st\<lparr>ss_call := None\<rparr>)
           | Some (item, idx # rest) \<Rightarrow>
               (case dispatchItem env sid idxs item idx (ss_buffers st) e of
                  Blocked \<Rightarrow> Blocked
                | Panic \<Rightarrow> Panic
                | Returns (NextPipeline, bs, e') \<Rightarrow>
                    Returns (st\<lparr>ss_engine := e', ss_buffers := bs, ss_call := Some (item, rest)\<rparr>)
                | Returns (DispatchReturns err, bs, e') \<Rightarrow>
                    Returns (st\<lparr>ss_engine := e', ss_buffers := bs, ss_call := None,
                                ss_failed := (err \<noteq> None)\<rparr>)))
      | Consume idx env \<Rightarrow>
          (case ss_buffers st idx of
             None \<Rightarrow> Blocked
           | Some buf \<Rightarrow>
               if ss_exited st idx then Blocked
               else case Receive buf of
                 Blocked \<Rightarrow> Blocked
               | Panic \<Rightarrow> Panic
               | Returns (buf', None) \<Rightarrow> Returns (st\<lparr>ss_exited := (ss_exited st)(idx := True)\<rparr>)
               | Returns (buf', Some item) \<Rightarrow>
                   (case consumeItem vt env sid idx idxs buf' item e of
                      (next, e') \<Rightarrow>
                        Returns (st\<lparr>ss_engine := e', ss_buffers := (ss_buffers st)(idx \<mapsto> buf'),
                          ss_exited := (ss_exited st)(idx := (next = ConsumerExits)),
                          ss_applied := (ss_applied st)(idx := ss_applied st idx @ applied_by vt env idx item e)\<rparr>)))
      | TTLScan idx t \<Rightarrow> Returns (st\<lparr>ss_engine := runTTLScanner vt idx [t] e\<rparr>)
      | Validate idx \<Rightarrow> Returns (st\<lparr>ss_engine := runValidationScanner vt idx 1 e\<rparr>)
      | PauseSource \<Rightarrow> Returns (st\<lparr>ss_engine := snd (Pause None sid e)\<rparr>)
      | ResumeSource \<Rightarrow> Returns (st\<lparr>ss_engine := snd (Resume None sid e)\<rparr>)
      | StreamReturns \<Rightarrow>
          if ss_call st \<noteq> None \<or> ss_returned st then Blocked
          else Returns (st\<lparr>ss_returned := True,
                 ss_buffers := (\<lambda>idx. map_option (\<lambda>b. b\<lparr>buf_closed := True\<rparr>) (ss_buffers st idx))\<rparr>))"

fun stream_exec ::
    "'t SyncTarget \<Rightarrow> string \<Rightarrow> nat list \<Rightarrow> action list \<Rightarrow> ('t, 's) stream_state \<Rightarrow> ('t, 's) stream_state outcome" where
  "stream_exec vt sid idxs [] st = Returns st"
| "stream_exec vt sid idxs (act # acts) st =
     (case stream_step vt sid idxs act st of
        Returns st' \<Rightarrow> stream_exec vt sid idxs acts st'
      | Blocked \<Rightarrow> Blocked
      | Panic \<Rightarrow> Panic)"

fun error_text :: "goerror \<Rightarrow> string" where
  "error_text ErrReBaselineRequired = ''re-baseline required''"
| "error_text CtxErr = ''context canceled''"
| "error_text errNotStarted = ''engine not started''"
| "error_text errAlreadyStarted = ''engine already started''"
| "error_text errStopped = ''engine stopped''"
| "error_text (Err m) = m"
| "error_text (Wrap m err) = m @ '': '' @ error_text err"

text \<open>The whole session: \<open>acts\<close> is the interleaving, \<open>streamErr\<close> what \<^verbatim>\<open>source.Stream\<close> returned and
  \<open>ctxDone\<close> whether the engine's context is done by then.  The session has ended when the source has
  returned and every consumer has exited.\<close>

definition session_ended :: "nat list \<Rightarrow> ('t, 's) stream_state \<Rightarrow> bool" where
  "session_ended idxs st \<longleftrightarrow> ss_returned st \<and> (\<forall>idx \<in> set idxs. ss_exited st idx)"

definition streamFromPosition ::
    "'t SyncTarget \<Rightarrow> string \<Rightarrow> nat list \<Rightarrow> action list \<Rightarrow> goerror option \<Rightarrow> bool \<Rightarrow> position \<Rightarrow> ('t, 's) coreEngine \<Rightarrow>
     (bool \<times> ('t, 's) coreEngine) outcome" where
  "streamFromPosition vt sid idxs acts streamErr ctxDone position e =
     (case stream_exec vt sid idxs acts (stream_init idxs (observe (CallStream sid position) e)) of
        Blocked \<Rightarrow> Blocked
      | Panic \<Rightarrow> Panic
      | Returns st \<Rightarrow>
          if \<not> session_ended idxs st then Blocked
          else
            let e = ss_engine st in
            case streamErr of
              None \<Rightarrow> Returns (False, e)
            | Some err \<Rightarrow>
                if ctxDone then Returns (False, e)
                else
                  let e = observe (OnSourceDisconnected sid (''stream error: '' @ error_text err)) e in
                  if errors_Is err ErrReBaselineRequired then Returns (True, observe (OnReBaselineTriggered sid) e)
                  else Returns (False, transitionPipelines idxs PipelineError e))"

section \<open>Quiet changes of the engine\<close>

text \<open>Changes that confirm and acknowledge nothing: configuration, positions and acknowledgements stay,
  no pipeline starts streaming, and a skipped pipeline stays skipped.\<close>

definition same_pipelines :: "('t, 's) coreEngine \<Rightarrow> ('t, 's) coreEngine \<Rightarrow> bool" where
  "same_pipelines e e' \<longleftrightarrow> length (e_pipelines e') = length (e_pipelines e) \<and>
     (\<forall>i < length (e_pipelines e).
        p_id (pipeline e' i) = p_id (pipeline e i) \<and> p_sourceID (pipeline e' i) = p_sourceID (pipeline e i) \<and>
        p_table (pipeline e' i) = p_table (pipeline e i) \<and> p_bufferPolicy (pipeline e' i) = p_bufferPolicy (pipeline e i))"

definition same_positions :: "AckTracker \<Rightarrow> AckTracker \<Rightarrow> bool" where
  "same_positions a a' \<longleftrightarrow> pipelineSource a' = pipelineSource a \<and> positions a' = positions a \<and>
     lastAcked a' = lastAcked a \<and> comparators a' = comparators a \<and> (\<forall>pid. is_skipped a pid \<longrightarrow> is_skipped a' pid)"

definition quiet :: "('t, 's) coreEngine \<Rightarrow> ('t, 's) coreEngine \<Rightarrow> bool" where
  "quiet e e' \<longleftrightarrow> same_pipelines e e' \<and> same_positions (e_ackTracker e) (e_ackTracker e') \<and>
     filter is_ack (e_log e') = filter is_ack (e_log e) \<and>
     (\<forall>i < length (e_pipelines e). loadState e' i = PipelineStreaming \<longrightarrow> loadState e i = PipelineStreaming)"

lemmas quiet_defs = quiet_def same_pipelines_def same_positions_def

lemma quiet_refl [simp, intro]: "quiet e e"
  by (simp add: quiet_defs)

lemma quiet_trans [trans]: "quiet e e' \<Longrightarrow> quiet e' e'' \<Longrightarrow> quiet e e''"
  by (simp add: quiet_defs)

lemma same_pipelines_refl [simp, intro]: "same_pipelines e e"
  by (simp add: same_pipelines_def)

lemma same_pipelines_trans [trans]: "same_pipelines e e' \<Longrightarrow> same_pipelines e' e'' \<Longrightarrow> same_pipelines e e''"
  by (simp add: same_pipelines_def)

lemma quiet_observe [simp]: "\<not> is_ack ob \<Longrightarrow> quiet e (observe ob e)"
  by (simp add: quiet_defs)

lemma nth_upd: "j < length xs \<Longrightarrow> xs[i := x] ! j = (if i = j then x else xs ! j)"
  by (cases "i < length xs") (auto simp: nth_list_update)

lemma quiet_set_pipeline: "same_setup (pipeline e idx) q \<Longrightarrow> quiet e (set_pipeline idx q e)"
  by (auto simp: quiet_defs same_setup_def nth_upd)

lemma quiet_transition:
  "s \<noteq> PipelineStreaming \<Longrightarrow> quiet e (transitionPipeline idx s e)"
  by (auto simp: quiet_defs nth_upd)

lemma quiet_processChange:
  assumes "processChange vt env idx event e = (res, e')"
  shows "quiet e e'"
  using assms by (rule processChange_cases) (auto simp: quiet_defs same_setup_def nth_upd)

lemma quiet_applyErrorPolicy:
  assumes "applyErrorPolicy k sid idxs e = (stop, e')" and "k < length (e_pipelines e)"
    and "\<forall>i \<in> set idxs. i < length (e_pipelines e)"
  shows "quiet e e'"
  using applyErrorPolicy_effect [OF assms(2,3,1)] applyErrorPolicy_frame [OF assms(1)]
  by (simp add: quiet_defs)

lemma quiet_deleteExpired: "quiet e (deleteExpired vt now done i rs idx e)"
proof (induction rs arbitrary: i e)
  case (Cons r rs)
  obtain err p' where c: "call_target (t_OnDelete vt (\<lambda>j. now (i + j)) (p_table (pipeline e idx)) r) (pipeline e idx) = (err, p')"
    by fastforce
  have p': "same_setup (pipeline e idx) p'" using c by (rule call_target_config)
  then have add: "same_setup (pipeline e idx) (add_rows n p')" for n
    using add_rows_config same_setup_trans by blast
  let ?ob = "OnRowExpired (p_id (pipeline e idx)) (p_table (pipeline e idx)) (Sprint_v (row_get r ''id''))"
  have "quiet e (observe ?ob (set_pipeline idx (add_rows (- 1) p') e))"
    by (rule quiet_trans [OF quiet_set_pipeline [OF add] quiet_observe]) simp
  with Cons.IH quiet_set_pipeline [OF p'] c show ?case
    by (cases err) (auto simp: Let_def intro: quiet_trans)
qed simp

lemma quiet_runTTLScanner: "quiet e (runTTLScanner vt idx [t] e)"
  by (simp add: runTTLScanner_def scanExpiredRows_def quiet_deleteExpired split: option.split)

lemma quiet_validationTick: "quiet e (snd (validationTick count idx e))"
proof -
  have "quiet e (transitionPipeline idx PipelineError (observe (OnValidationResult a b c d f) e))" for a b c d f
    by (rule quiet_trans [OF quiet_observe quiet_transition]) simp_all
  then show ?thesis by (simp add: validationTick_def Let_def split: ValidationAction.split)
qed

lemma quiet_runValidationScanner: "quiet e (runValidationScanner vt idx 1 e)"
  using quiet_validationTick [of e]
  by (simp add: runValidationScanner_def split: option.split prod.split) (metis snd_conv)

text \<open>Changes of a pipeline that concern nothing but its state.\<close>

definition only_state :: "nat \<Rightarrow> ('t, 's) coreEngine \<Rightarrow> ('t, 's) coreEngine \<Rightarrow> bool" where
  "only_state i e e' \<longleftrightarrow> pipeline e' i = (pipeline e i)\<lparr>p_state := loadState e' i\<rparr>"

lemma only_state_same: "pipeline e' i = pipeline e i \<Longrightarrow> only_state i e e'"
  by (simp add: only_state_def)

lemma only_state_refl [simp, intro]: "only_state i e e"
  by (simp add: only_state_def)

lemma only_state_trans [trans]:
  assumes "only_state i e e'" and "only_state i e' e''"
  shows "only_state i e e''"
proof -
  have "pipeline e'' i = (pipeline e' i)\<lparr>p_state := loadState e'' i\<rparr>" using assms(2) by (simp add: only_state_def)
  also have "\<dots> = ((pipeline e i)\<lparr>p_state := loadState e' i\<rparr>)\<lparr>p_state := loadState e'' i\<rparr>"
    using assms(1) unfolding only_state_def by (rule arg_cong)
  finally show ?thesis by (simp add: only_state_def)
qed

lemma only_state_transition: "i < length (e_pipelines e) \<Longrightarrow> only_state i e (transitionPipeline idx s e)"
  by (simp add: only_state_def nth_upd)

lemma only_state_policy:
  assumes "applyErrorPolicy k sid idxs e = (stop, e')" and "k < length (e_pipelines e)"
    and "\<forall>i \<in> set idxs. i < length (e_pipelines e)"
  shows "only_state i e e'"
  using applyErrorPolicy_effect(1) [OF assms(2,3,1)] by (simp add: only_state_def)

lemma only_state_validation: "i < length (e_pipelines e) \<Longrightarrow> only_state i e (runValidationScanner vt idx 1 e)"
  by (auto simp: runValidationScanner_def validationTick_def Let_def only_state_def nth_upd
      split: option.split ValidationAction.split)

section \<open>One iteration of the dispatcher and of a consumer\<close>

lemma SendCtx_open:
  "SendCtx b done pick x = Returns (b', True) \<Longrightarrow> b' = b\<lparr>ch := ch b @ [x]\<rparr>"
  "SendCtx b done pick x = Returns (b', False) \<Longrightarrow> \<not> buf_closed b \<Longrightarrow> done"
  by (auto simp: SendCtx_def chan_send_def split: if_splits)

lemma TrySend_open:
  assumes "TrySend b x = Returns (b', ok)" and "\<not> buf_closed b"
  shows "ok \<longrightarrow> b' = b\<lparr>ch := ch b @ [x]\<rparr>"
  using assms by (auto simp: TrySend_def chan_send_def split: if_splits)

text \<open>The dispatcher passes a pipeline by, sends into its buffer, finds the context cancelled, or puts
  the pipeline into error because its buffer is full.\<close>

definition dispatch_result ::
    "pipelineItem \<Rightarrow> nat \<Rightarrow> buffers \<Rightarrow> ('t, 's) coreEngine \<Rightarrow> dispatch_next \<times> buffers \<times> ('t, 's) coreEngine \<Rightarrow> bool" where
  "dispatch_result item idx bs e r =
     (case r of (nxt, bs', e') \<Rightarrow>
        quiet e e' \<and> (\<forall>i < length (e_pipelines e). only_state i e e') \<and>
        (nxt = NextPipeline \<and> bs' = bs \<and>
           (bs idx = None \<or> loadState e idx \<noteq> PipelineStreaming \<or>
            (\<exists>ev. item = ItemEvent ev \<and> ev_Table ev \<noteq> p_table (pipeline e idx))) \<or>
         nxt = NextPipeline \<and> (\<forall>ev. item = ItemEvent ev \<longrightarrow> ev_Table ev = p_table (pipeline e idx)) \<and>
           (\<exists>b. bs idx = Some b \<and> bs' = bs(idx \<mapsto> b\<lparr>ch := ch b @ [item]\<rparr>)) \<or>
         (\<exists>err. nxt = DispatchReturns (Some err)) \<and> bs' = bs \<or>
         nxt = NextPipeline \<and> bs' = bs \<and> is_skipped (e_ackTracker e') (p_id (pipeline e idx)) \<and>
           loadState e' idx \<noteq> PipelineStreaming))"

lemma dispatchOne_result:
  assumes r: "dispatchOne env sid idxs ev idx bs e = Returns (nxt, bs', e')"
    and "p_bufferPolicy (pipeline e idx) \<noteq> BufferDropOldest" and "\<And>b. bs idx = Some b \<Longrightarrow> \<not> buf_closed b"
    and idx: "idx \<in> set idxs" "\<forall>i \<in> set idxs. i < length (e_pipelines e)" "p_sourceID (pipeline e idx) = sid"
  shows "dispatch_result (ItemEvent ev) idx bs e (nxt, bs', e')"
proof (cases "bs idx = None \<or> p_table (pipeline e idx) \<noteq> ev_Table ev \<or> loadState e idx \<noteq> PipelineStreaming")
  case True
  with r have "nxt = NextPipeline" "bs' = bs" "e' = e"
    by (auto simp: dispatchOne_def Let_def split: option.splits)
  with True show ?thesis by (auto simp: dispatch_result_def)
next
  case False
  then obtain b where b: "bs idx = Some b" "\<not> buf_closed b" using assms(3) by auto
  show ?thesis
  proof (cases "p_bufferPolicy (pipeline e idx)")
    case BufferBlock
    with False b r obtain b' ok where "SendCtx b (env_ctxDone env) (env_pickDone env) (ItemEvent ev) = Returns (b', ok)"
      and rest: "(nxt, bs', e') = (if \<not> ok then (DispatchReturns (ctx_Err env), bs, e)
        else (NextPipeline, bs(idx \<mapsto> b'), observe (OnBufferDepthChanged (p_id (pipeline e idx)) (Len b') (Cap b')) e))"
      by (auto simp: dispatchOne_def Let_def split: outcome.splits if_splits)
    with b False show ?thesis
      by (cases ok) (auto simp: dispatch_result_def ctx_Err_def intro: only_state_same dest: SendCtx_open)
  next
    case BufferDropOldest
    with assms(2) show ?thesis by simp
  next
    case BufferError
    let ?e = "observe (OnBufferPolicyTriggered (p_id (pipeline e idx)) BufferError) e"
    obtain stop e2 where pol: "applyErrorPolicy idx sid idxs ?e = (stop, e2)" by fastforce
    have quiet: "quiet e e2"
      by (rule quiet_trans [OF quiet_observe quiet_applyErrorPolicy [OF pol]]) (use idx in auto)
    have only: "only_state i e e2" for i
      by (rule only_state_trans [OF only_state_same only_state_policy [OF pol]]) (use idx in auto)
    have "is_skipped (e_ackTracker e2) (p_id (pipeline ?e idx))"
      by (subst applyErrorPolicy_effect(2) [OF _ _ pol]) (use False idx fails_self [of idx ?e idxs sid] in auto)
    moreover have "loadState e2 idx \<noteq> PipelineStreaming"
      by (subst applyErrorPolicy_effect(1) [OF _ _ pol]) (use False idx fails_self [of idx ?e idxs sid] in auto)
    moreover from BufferError False b r pol obtain b' ok where "TrySend b (ItemEvent ev) = Returns (b', ok)"
      and rest: "(nxt, bs', e') =
        (if ok then (NextPipeline, bs(idx \<mapsto> b'), observe (OnBufferDepthChanged (p_id (pipeline e idx)) (Len b') (Cap b')) e)
         else if stop then (DispatchReturns (Some (Err ''engine stopped due to buffer overflow error policy'')), bs, e2)
         else (NextPipeline, bs, e2))"
      by (auto simp: dispatchOne_def Let_def split: outcome.splits if_splits)
    ultimately show ?thesis using b False TrySend_open [of b] quiet only
      by (auto simp: dispatch_result_def intro: only_state_same split: if_splits)
  qed
qed

lemma dispatchHeartbeatOne_result:
  assumes "dispatchHeartbeatOne env pos idx bs e = Returns (nxt, bs', e')" and "\<And>b. bs idx = Some b \<Longrightarrow> \<not> buf_closed b"
  shows "dispatch_result (ItemHeartbeat pos) idx bs e (nxt, bs', e')"
proof (cases "bs idx = None \<or> loadState e idx \<noteq> PipelineStreaming")
  case True
  with assms(1) show ?thesis
    by (auto simp: dispatchHeartbeatOne_def dispatch_result_def split: option.splits)
next
  case False
  then obtain b where b: "bs idx = Some b" "\<not> buf_closed b" using assms(2) by auto
  with False assms(1) obtain b' ok where "SendCtx b (env_ctxDone env) (env_pickDone env) (ItemHeartbeat pos) = Returns (b', ok)"
    and "(nxt, bs', e') = (if \<not> ok then (DispatchReturns (ctx_Err env), bs, e) else (NextPipeline, bs(idx \<mapsto> b'), e))"
    by (auto simp: dispatchHeartbeatOne_def split: outcome.splits if_splits)
  with b show ?thesis
    by (cases ok) (auto simp: dispatch_result_def ctx_Err_def dest: SendCtx_open)
qed

lemma dispatchItem_result:
  assumes "dispatchItem env sid idxs item idx bs e = Returns (nxt, bs', e')"
    and "p_bufferPolicy (pipeline e idx) \<noteq> BufferDropOldest" and "\<And>b. bs idx = Some b \<Longrightarrow> \<not> buf_closed b"
    and "idx \<in> set idxs" "\<forall>i \<in> set idxs. i < length (e_pipelines e)" "p_sourceID (pipeline e idx) = sid"
  shows "dispatch_result item idx bs e (nxt, bs', e')"
proof (cases item)
  case (ItemEvent ev)
  then show ?thesis using dispatchOne_result [OF _ assms(2-6)] assms(1) by (simp add: dispatchItem_def)
next
  case (ItemHeartbeat pos)
  then show ?thesis using dispatchHeartbeatOne_result [OF _ assms(3)] assms(1) by (simp add: dispatchItem_def)
qed

fun item_pos :: "pipelineItem \<Rightarrow> position" where
  "item_pos (ItemEvent ev) = ev_Position ev"
| "item_pos (ItemHeartbeat pos) = pos"

fun item_events :: "pipelineItem \<Rightarrow> ChangeEvent list" where
  "item_events (ItemEvent ev) = [ev]"
| "item_events (ItemHeartbeat pos) = []"

text \<open>A consumer drops the item, or fails on it and leaves the pipeline skipped, or has applied it and,
  when the target is durable, confirms it before it acknowledges.\<close>

definition consume_result ::
    "pipelineItem \<Rightarrow> nat \<Rightarrow> string \<Rightarrow> call_env \<Rightarrow> ('t, 's) coreEngine \<Rightarrow> ChangeEvent list \<Rightarrow> ('t, 's) coreEngine \<Rightarrow> bool" where
  "consume_result item idx sid env e applied e' \<longleftrightarrow>
     quiet e e' \<and> applied = [] \<and>
       (loadState e idx \<noteq> PipelineStreaming \<or> item_events item = [] \<or>
        is_skipped (e_ackTracker e') (p_id (pipeline e idx)) \<and> loadState e' idx \<noteq> PipelineStreaming) \<or>
     loadState e idx = PipelineStreaming \<and> applied = item_events item \<and>
       (\<exists>e1 e2. quiet e e1 \<and> (e2 = e1 \<or> e2 = confirmPipeline idx (item_pos item) e1) \<and>
          e' = advanceAck (env_ackOrder env) (env_ack env) sid e2)"

lemma processChange_observe: "fst (processChange vt env idx ev (observe ob e)) = fst (processChange vt env idx ev e)"
  by (simp add: processChange_def Let_def split: prod.split option.split)

lemma consumeItem_result:
  assumes r: "consumeItem vt env sid idx idxs buf item e = (nxt, e')"
    and idx: "idx \<in> set idxs" "\<forall>i \<in> set idxs. i < length (e_pipelines e)" "p_sourceID (pipeline e idx) = sid"
  shows "consume_result item idx sid env e (applied_by vt env idx item e) e'"
proof (cases "loadState e idx = PipelineStreaming")
  case False
  with r show ?thesis
    by (auto simp: consumeItem_def consume_result_def applied_by_def Let_def split: pipelineItem.split)
next
  case True
  let ?e = "observe (OnBufferDepthChanged (p_id (pipeline e idx)) (Len buf) (Cap buf)) e"
  have qe: "quiet e ?e" by simp
  show ?thesis
  proof (cases item)
    case (ItemHeartbeat pos)
    with True r have "e' = ?e \<or> e' = advanceAck (env_ackOrder env) (env_ack env) sid (confirmPipeline idx pos ?e)"
      by (auto simp: consumeItem_def Let_def split: if_splits)
    with True qe show ?thesis
      unfolding ItemHeartbeat consume_result_def applied_by_def pipelineItem.case item_events.simps item_pos.simps by blast
  next
    case (ItemEvent ev)
    obtain res e1 where pc: "processChange vt env idx ev ?e = (res, e1)" by fastforce
    have q1: "quiet e e1" using qe quiet_processChange [OF pc] by (rule quiet_trans)
    have app: "applied_by vt env idx item e = (if res = None then [ev] else [])"
      using True ItemEvent pc processChange_observe [of vt env idx ev _ e]
      by (simp add: applied_by_def) (metis fst_conv)
    show ?thesis
    proof (cases res)
      case None
      let ?e2 = "observe (OnChangeApplied (p_id (pipeline e idx)) (ev_Table ev) (ev_Action ev)) e1"
      have q2: "quiet e ?e2" by (rule quiet_trans [OF q1 quiet_observe]) simp
      let ?e3 = "if t_IsDurable vt (p_target (pipeline ?e2 idx)) then confirmPipeline idx (ev_Position ev) ?e2 else ?e2"
      have "e' = advanceAck (env_ackOrder env) (env_ack env) sid ?e3"
        using True ItemEvent pc None r by (simp add: consumeItem_def Let_def)
      moreover have "?e3 = ?e2 \<or> ?e3 = confirmPipeline idx (item_pos item) ?e2" using ItemEvent by simp
      moreover have "applied_by vt env idx item e = item_events item" using ItemEvent None app by simp
      ultimately show ?thesis using True q2 unfolding consume_result_def by blast
    next
      case (Some err)
      let ?e2 = "if e_deadLetterStore e1 \<and> env_deadLetter env = None
        then observe (OnDeadLetterWritten (p_id (pipeline e idx)) ev err) e1 else e1"
      have "quiet e (observe (OnDeadLetterWritten (p_id (pipeline e idx)) ev err) e1)"
        by (rule quiet_trans [OF q1 quiet_observe]) simp
      with q1 have q2: "quiet e ?e2" by simp
      obtain stop e3 where pol: "applyErrorPolicy idx sid idxs ?e2 = (stop, e3)" by fastforce
      from True ItemEvent pc Some r pol have e': "e' = e3"
        by (simp add: consumeItem_def Let_def split: if_splits)
      have len: "length (e_pipelines ?e2) = length (e_pipelines e)" using q2 by (simp add: quiet_defs)
      have "quiet ?e2 e3" by (rule quiet_applyErrorPolicy [OF pol]) (use idx len in auto)
      with q2 have q3: "quiet e e3" by (rule quiet_trans)
      have st: "loadState ?e2 idx = PipelineStreaming" "p_id (pipeline ?e2 idx) = p_id (pipeline e idx)"
        "p_sourceID (pipeline ?e2 idx) = sid"
      proof -
        have "e_pipelines ?e2 = e_pipelines e1" by simp
        moreover obtain q where "e_pipelines e1 = (e_pipelines ?e)[idx := q]" "same_setup (pipeline ?e idx) q"
          using pc by (rule processChange_cases)
        ultimately have "same_setup (pipeline e idx) (pipeline ?e2 idx)" using idx by simp
        then show "loadState ?e2 idx = PipelineStreaming" "p_id (pipeline ?e2 idx) = p_id (pipeline e idx)"
          "p_sourceID (pipeline ?e2 idx) = sid" using True idx(3) unfolding same_setup_def by metis+
      qed
      have "is_skipped (e_ackTracker e3) (p_id (pipeline ?e2 idx))"
        by (subst applyErrorPolicy_effect(2) [OF _ _ pol]) (use idx len st fails_self [of idx ?e2 idxs sid] in auto)
      moreover have "loadState e3 idx \<noteq> PipelineStreaming"
        by (subst applyErrorPolicy_effect(1) [OF _ _ pol]) (use idx len st fails_self [of idx ?e2 idxs sid] in auto)
      ultimately show ?thesis using q3 e' app Some st(2) by (simp add: consume_result_def)
    qed
  qed
qed

lemma advanceAck_effect:
  "e_pipelines (advanceAck order err sid e) = e_pipelines e"
  "e_ackTracker (advanceAck order err sid e) = snd (AckPosition (e_ackTracker e) sid order)"
  "CallAck s pos \<in> set (e_log (advanceAck order err sid e)) \<longleftrightarrow>
     CallAck s pos \<in> set (e_log e) \<or> s = sid \<and> fst (AckPosition (e_ackTracker e) sid order) = (pos, True)"
  by (auto simp: advanceAck_def Let_def split: prod.split)

lemma confirmPipeline_frame [simp]:
  "e_pipelines (confirmPipeline idx pos e) = e_pipelines e" "e_log (confirmPipeline idx pos e) = e_log e"
  "e_ackTracker (confirmPipeline idx pos e) = Confirm (e_ackTracker e) (p_id (pipeline e idx)) pos"
  by (simp_all add: confirmPipeline_def)

section \<open>What a confirmed position means\<close>

text \<open>The order in which the source emits: positions never decrease, and none is below a position that
  was confirmed before the session.\<close>

definition source_order ::
    "(position \<Rightarrow> position \<Rightarrow> int) \<Rightarrow> (position \<Rightarrow> bool) \<Rightarrow> position set \<Rightarrow> pipelineItem list \<Rightarrow> bool" where
  "source_order cmp valid starts ems \<longleftrightarrow>
     (\<forall>q \<in> starts. valid q) \<and> (\<forall>x \<in> set ems. valid (item_pos x)) \<and>
     sorted_wrt (\<lambda>x y. cmp (item_pos x) (item_pos y) \<le> 0) ems \<and>
     (\<forall>q \<in> starts. \<forall>x \<in> set ems. cmp q (item_pos x) \<le> 0)"

definition start_positions :: "AckTracker \<Rightarrow> string \<Rightarrow> position set" where
  "start_positions a sid = {q. \<exists>pid. pipelineSource a pid = Some sid \<and> positions a pid = Some q}"

definition seen :: "position set \<Rightarrow> pipelineItem list \<Rightarrow> position \<Rightarrow> bool" where
  "seen starts ems q \<longleftrightarrow> q \<in> starts \<or> (\<exists>x \<in> set ems. item_pos x = q)"

definition applied_below ::
    "(position \<Rightarrow> position \<Rightarrow> int) \<Rightarrow> pipelineItem list \<Rightarrow> TableIdentifier \<Rightarrow> ChangeEvent list \<Rightarrow> position \<Rightarrow> bool" where
  "applied_below cmp ems table applied q \<longleftrightarrow>
     (\<forall>ev. ItemEvent ev \<in> set ems \<longrightarrow> ev_Table ev = table \<longrightarrow> cmp (ev_Position ev) q < 0 \<longrightarrow> ev \<in> set applied)"

text \<open>Every event of the table has been applied, waits in the queue \<open>xs\<close>, or is the last one emitted
  while the dispatcher has not reached the pipeline yet.\<close>

definition covered :: "pipelineItem list \<Rightarrow> TableIdentifier \<Rightarrow> ChangeEvent list \<Rightarrow> pipelineItem list \<Rightarrow> bool \<Rightarrow> bool" where
  "covered ems table applied xs waits \<longleftrightarrow>
     (\<forall>ev. ItemEvent ev \<in> set ems \<longrightarrow> ev_Table ev = table \<longrightarrow>
        ev \<in> set applied \<or> ItemEvent ev \<in> set xs \<or> waits \<and> last ems = ItemEvent ev)"

definition queue_ok ::
    "(position \<Rightarrow> position \<Rightarrow> int) \<Rightarrow> pipelineItem list \<Rightarrow> position option \<Rightarrow> pipelineItem list \<Rightarrow> bool" where
  "queue_ok cmp ems confirmed xs \<longleftrightarrow>
     set xs \<subseteq> set ems \<and> sorted_wrt (\<lambda>x y. cmp (item_pos x) (item_pos y) \<le> 0) xs \<and>
     (\<forall>q. confirmed = Some q \<longrightarrow> (\<forall>x \<in> set xs. cmp q (item_pos x) \<le> 0))"

lemma applied_below_more: "applied_below cmp ems table applied q \<Longrightarrow> applied_below cmp ems table (applied @ evs) q"
  by (auto simp: applied_below_def)

lemma source_order_prefix: "source_order cmp valid starts (xs @ ys) \<Longrightarrow> source_order cmp valid starts xs"
  by (auto simp: source_order_def sorted_wrt_append)

lemma seen_more: "seen starts ems q \<Longrightarrow> seen starts (ems @ xs) q"
  by (auto simp: seen_def)

context position_order
begin

lemma not_below: "valid a \<Longrightarrow> valid b \<Longrightarrow> cmp a b \<le> 0 \<Longrightarrow> \<not> cmp b a < 0"
  using cmp_flip by fastforce

lemma seen_valid: "source_order cmp valid starts ems \<Longrightarrow> seen starts ems q \<Longrightarrow> valid q"
  by (auto simp: source_order_def seen_def)

lemma below_last:
  assumes "source_order cmp valid starts ems" and "x \<in> set ems"
  shows "cmp (item_pos x) (item_pos (last ems)) \<le> 0"
proof -
  from assms(2) obtain ys where ems: "ems = ys @ [last ems]" by (metis append_butlast_last_id empty_iff list.set(1))
  with assms(2) have "x = last ems \<or> x \<in> set ys" by (metis Un_iff empty_iff insert_iff list.set set_append)
  moreover have "sorted_wrt (\<lambda>x y. cmp (item_pos x) (item_pos y) \<le> 0) (ys @ [last ems])"
    using assms(1) ems by (metis source_order_def)
  ultimately show ?thesis using assms by (auto simp: sorted_wrt_append source_order_def cmp_refl)
qed

lemma seen_below_last:
  assumes "source_order cmp valid starts ems" and "seen starts ems q" and "ems \<noteq> []"
  shows "cmp q (item_pos (last ems)) \<le> 0"
  using assms below_last by (auto simp: seen_def source_order_def)

lemma applied_below_emit:
  assumes "source_order cmp valid starts (ems @ [x])" and "seen starts ems q" and "applied_below cmp ems table applied q"
  shows "applied_below cmp (ems @ [x]) table applied q"
proof -
  have "cmp q (item_pos x) \<le> 0" using seen_below_last [OF assms(1) seen_more [OF assms(2)]] by simp
  moreover have "valid q" "valid (item_pos x)"
    using seen_valid [OF assms(1) seen_more [OF assms(2)]] assms(1) by (auto simp: source_order_def)
  ultimately have "\<not> cmp (item_pos x) q < 0" by (simp add: not_below)
  with assms(3) show ?thesis by (auto simp: applied_below_def)
qed

lemma queue_ok_send:
  assumes "source_order cmp valid starts ems" and "ems \<noteq> []" and "queue_ok cmp ems confirmed xs"
    and "\<And>q. confirmed = Some q \<Longrightarrow> seen starts ems q"
  shows "queue_ok cmp ems confirmed (xs @ [last ems])"
  using assms below_last [OF assms(1)] seen_below_last [OF assms(1)]
  by (auto simp: queue_ok_def sorted_wrt_append subset_iff)

lemma consume_applied:
  assumes so: "source_order cmp valid starts ems" and q: "queue_ok cmp ems confirmed (x # xs)"
    and cov: "covered ems table applied (x # xs) waits"
  shows "applied_below cmp ems table (applied @ item_events x) (item_pos x)"
  unfolding applied_below_def
proof (intro allI impI)
  fix ev assume ev: "ItemEvent ev \<in> set ems" "ev_Table ev = table" "cmp (ev_Position ev) (item_pos x) < 0"
  have x: "x \<in> set ems" "valid (item_pos x)" "valid (ev_Position ev)"
    using q so ev(1) by (auto simp: queue_ok_def source_order_def)
  have "y \<noteq> ItemEvent ev" if "cmp (item_pos x) (item_pos y) \<le> 0" for y
    using not_below [OF x(2,3)] that ev(3) by auto
  moreover have "\<forall>y \<in> set xs. cmp (item_pos x) (item_pos y) \<le> 0" using q by (simp add: queue_ok_def)
  ultimately have "ItemEvent ev \<notin> set xs" "last ems \<noteq> ItemEvent ev" using below_last [OF so x(1)] by blast+
  with cov ev have "ev \<in> set applied \<or> ItemEvent ev = x" by (auto simp: covered_def)
  then show "ev \<in> set (applied @ item_events x)" by auto
qed

lemma queue_ok_tail:
  "queue_ok cmp ems confirmed (x # xs) \<Longrightarrow> queue_ok cmp ems confirmed xs"
  "queue_ok cmp ems confirmed (x # xs) \<Longrightarrow> queue_ok cmp ems (Some (item_pos x)) xs"
  by (auto simp: queue_ok_def)

end

lemma covered_tail: "covered ems table applied (x # xs) waits \<Longrightarrow> covered ems table (applied @ item_events x) xs waits"
  by (auto simp: covered_def)

lemma covered_emit: "covered ems table applied xs waits \<Longrightarrow> \<not> waits \<Longrightarrow> covered (ems @ [x]) table applied xs True"
  by (auto simp: covered_def)

end
