(* ===== verification/Engine_Baseline.thy ===== *)
theory Engine_Baseline
  imports Engine_Stream
begin

text \<open>
  The lifecycle of a source around its streaming sessions (\<^verbatim>\<open>runSource\<close>, \<^verbatim>\<open>trySnapshotRestore\<close>,
  \<^verbatim>\<open>runBaseline\<close>, \<^verbatim>\<open>Reload\<close>, \<^verbatim>\<open>CreateSnapshot\<close>, \<^verbatim>\<open>doSnapshot\<close>, \<^verbatim>\<open>runPeriodicSnapshots\<close> and
  \<^verbatim>\<open>Stop\<close> of \<^verbatim>\<open>engine.go\<close>).  The rows that \<^verbatim>\<open>source.Baseline\<close> passes to its callback, the results
  of the source's and the snapshot store's methods, the orders in which maps are iterated and the
  readings of the clock are arguments.
\<close>

section \<open>Helpers of the loops\<close>

definition setReady :: "string list \<Rightarrow> nat \<Rightarrow> ('t, 's) coreEngine \<Rightarrow> ('t, 's) coreEngine outcome" where
  "setReady order idx e =
     (case SetReady (e_readiness e) (p_id (pipeline e idx)) order of
        None \<Rightarrow> Panic
      | Some r \<Rightarrow> Returns (e\<lparr>e_readiness := r\<rparr>))"

text \<open>\<^verbatim>\<open>rowCounts[table]\<close>; a missing key reads as 0.\<close>

type_synonym counts = "TableIdentifier \<rightharpoonup> int"

definition row_count :: "counts \<Rightarrow> TableIdentifier \<Rightarrow> int" where
  "row_count counts table = (case counts table of None \<Rightarrow> 0 | Some n \<Rightarrow> n)"

section \<open>Baseline\<close>

text \<open>What \<^verbatim>\<open>source.Baseline\<close> does: the calls of the row callback, each with the clock readings of the
  dispatch, its result, and whether the context is done then; the iteration orders of the readiness
  and ACK maps, and the result of \<^verbatim>\<open>source.Ack\<close>.\<close>

record baseline_env =
  be_rows :: "(TableIdentifier \<times> row option \<times> clock) list"
  be_result :: "goerror + position"
  be_ctxDone :: bool
  be_readyOrder :: "nat \<Rightarrow> string list"
  be_ackOrder :: "string list"
  be_ack :: "goerror option"

fun baselineStarted :: "nat list \<Rightarrow> ('t, 's) coreEngine \<Rightarrow> ('t, 's) coreEngine" where
  "baselineStarted [] e = e"
| "baselineStarted (idx # idxs) e =
     (let p = pipeline e idx in
      if p_state p = PipelineBaselining
      then baselineStarted idxs
             (observe (OnBaselineStarted (p_id p) (p_table p)) (set_pipeline idx (p\<lparr>p_expectedRows := 0\<rparr>) e))
      else baselineStarted idxs e)"

fun baselineRows ::
    "'t SyncTarget \<Rightarrow> nat list \<Rightarrow> (TableIdentifier \<times> row option \<times> clock) list \<Rightarrow> counts \<Rightarrow> ('t, 's) coreEngine \<Rightarrow>
     counts \<times> ('t, 's) coreEngine" where
  "baselineRows vt idxs [] counts e = (counts, e)"
| "baselineRows vt idxs ((table, r, now) # rows) counts e =
     baselineRows vt idxs rows (counts(table \<mapsto> row_count counts table + 1)) (dispatchBaselineRow vt now idxs table r e)"

fun baselineComplete ::
    "'t SyncTarget \<Rightarrow> position \<Rightarrow> (TableIdentifier \<Rightarrow> int) \<Rightarrow> nat list \<Rightarrow> ('t, 's) coreEngine \<Rightarrow> ('t, 's) coreEngine" where
  "baselineComplete vt position count [] e = e"
| "baselineComplete vt position count (idx # idxs) e =
     (if loadState e idx \<noteq> PipelineBaselining then baselineComplete vt position count idxs e
      else
        let p = set_position vt position (pipeline e idx) in
        case call_target (t_OnBaselineComplete vt (p_table p)) p of
          (Some err, p') \<Rightarrow>
            baselineComplete vt position count idxs (transitionPipeline idx PipelineError (set_pipeline idx p' e))
        | (None, p') \<Rightarrow>
            baselineComplete vt position count idxs
              (observe (OnBaselineCompleted (p_id p) (p_table p) (count (p_table p))) (set_pipeline idx p' e)))"

definition baselineValidateOne :: "('t \<Rightarrow> nat) \<Rightarrow> counts \<Rightarrow> nat \<Rightarrow> ('t, 's) coreEngine \<Rightarrow> ('t, 's) coreEngine" where
  "baselineValidateOne count counts idx e =
     (let p = pipeline e idx in
      if p_state p \<noteq> PipelineBaselining then e
      else
        let sourceCount = row_count counts (p_table p); targetCount = int (count (p_target p));
            match = (sourceCount = targetCount);
            e = observe (OnValidationResult (p_id p) (p_table p) sourceCount targetCount match) e
        in if match then e
           else case p_validationAction p of
                  ValidationWarn \<Rightarrow> e
                | ValidationReBaseline \<Rightarrow> transitionPipeline idx PipelineError e
                | ValidationFail \<Rightarrow> transitionPipeline idx PipelineError e)"

fun baselineValidate :: "('t \<Rightarrow> nat) \<Rightarrow> counts \<Rightarrow> nat list \<Rightarrow> ('t, 's) coreEngine \<Rightarrow> ('t, 's) coreEngine" where
  "baselineValidate count counts [] e = e"
| "baselineValidate count counts (idx # idxs) e = baselineValidate count counts idxs (baselineValidateOne count counts idx e)"

fun baselineConfirm ::
    "(nat \<Rightarrow> string list) \<Rightarrow> position \<Rightarrow> nat list \<Rightarrow> ('t, 's) coreEngine \<Rightarrow> ('t, 's) coreEngine outcome" where
  "baselineConfirm orders position [] e = Returns e"
| "baselineConfirm orders position (idx # idxs) e =
     (if loadState e idx \<noteq> PipelineBaselining then baselineConfirm orders position idxs e
      else case setReady (orders idx) idx (transitionPipeline idx PipelineStreaming e) of
             Blocked \<Rightarrow> Blocked
           | Panic \<Rightarrow> Panic
           | Returns e' \<Rightarrow> baselineConfirm orders position idxs (confirmPipeline idx position e'))"

text \<open>The result is the baseline position, or nil.\<close>

definition runBaseline ::
    "'t SyncTarget \<Rightarrow> baseline_env \<Rightarrow> string \<Rightarrow> nat list \<Rightarrow> ('t, 's) coreEngine \<Rightarrow> (position \<times> ('t, 's) coreEngine) outcome" where
  "runBaseline vt env sourceID idxs e =
     (case baselineRows vt idxs (be_rows env) Map.empty
             (baselineStarted idxs (transitionPipelines idxs PipelineBaselining e)) of
        (rowCounts, e) \<Rightarrow>
          (case be_result env of
             Inl err \<Rightarrow>
               if be_ctxDone env then Returns (PosNil, e)
               else Returns (PosNil, observe (OnSourceDisconnected sourceID (''baseline failed: '' @ error_text err))
                                       (transitionPipelines idxs PipelineError e))
           | Inr position \<Rightarrow>
               let e = baselineComplete vt position (row_count rowCounts) idxs e;
                   e = (case t_Count vt of None \<Rightarrow> e | Some count \<Rightarrow> baselineValidate count rowCounts idxs e)
               in case baselineConfirm (be_readyOrder env) position idxs e of
                    Blocked \<Rightarrow> Blocked
                  | Panic \<Rightarrow> Panic
                  | Returns e \<Rightarrow> Returns (position, advanceAck (be_ackOrder env) (be_ack env) sourceID e)))"

section \<open>Restoring a snapshot\<close>

fun findSnapshotTableInfo :: "TableSnapshotInfo list \<Rightarrow> TableIdentifier \<Rightarrow> TableSnapshotInfo" where
  "findSnapshotTableInfo [] table =
     \<lparr>tsi_Table = table, tsi_RowCount = 0, tsi_Columns = [], tsi_TargetType = [], tsi_Indexes = []\<rparr>"
| "findSnapshotTableInfo (t # ts) table = (if tsi_Table t = table then t else findSnapshotTableInfo ts table)"

type_synonym snapshot_entries = "TableIdentifier \<rightharpoonup> row list"

definition table_entries :: "snapshot_entries \<Rightarrow> TableIdentifier \<Rightarrow> row list" where
  "table_entries entries table = (case entries table of None \<Rightarrow> [] | Some rs \<Rightarrow> rs)"

text \<open>The restore loop; the flag is False on its early return.\<close>

fun restoreTargets ::
    "'t SyncTarget \<Rightarrow> SnapshotMetadata \<Rightarrow> snapshot_entries \<Rightarrow> string \<Rightarrow> nat list \<Rightarrow> ('t, 's) coreEngine \<Rightarrow>
     bool \<times> ('t, 's) coreEngine" where
  "restoreTargets vt metadata entries snapshotID [] e = (True, e)"
| "restoreTargets vt metadata entries snapshotID (idx # idxs) e =
     (let p = pipeline e idx in
      if p_state p \<noteq> PipelineInitializing then restoreTargets vt metadata entries snapshotID idxs e
      else case call_target (t_RestoreSnapshot vt (findSnapshotTableInfo (Tables metadata) (p_table p))
                               (table_entries entries (p_table p))) p of
             (Some err, p') \<Rightarrow>
               (False, observe (OnSnapshotFailed snapshotID (''restore target '' @ p_id p @ '': '' @ error_text err))
                         (set_pipeline idx p' e))
           | (None, p') \<Rightarrow> restoreTargets vt metadata entries snapshotID idxs (set_pipeline idx p' e))"

text \<open>The loop that starts the initialised pipelines, also in the resume path of \<^verbatim>\<open>runSource\<close>.\<close>

fun startInitialized :: "(nat \<Rightarrow> string list) \<Rightarrow> nat list \<Rightarrow> ('t, 's) coreEngine \<Rightarrow> ('t, 's) coreEngine outcome" where
  "startInitialized orders [] e = Returns e"
| "startInitialized orders (idx # idxs) e =
     (if loadState e idx \<noteq> PipelineInitializing then startInitialized orders idxs e
      else case setReady (orders idx) idx (transitionPipeline idx PipelineStreaming e) of
             Blocked \<Rightarrow> Blocked
           | Panic \<Rightarrow> Panic
           | Returns e' \<Rightarrow> startInitialized orders idxs e')"

text \<open>The snapshot store as read here: the identifiers, newest first, and the stored snapshots.\<close>

record snapshot_reads =
  sr_List :: "goerror + string list"
  sr_Load :: "string \<Rightarrow> goerror + SnapshotMetadata \<times> snapshot_entries"
  sr_readyOrder :: "nat \<Rightarrow> string list"

definition trySnapshotRestore ::
    "'t SyncTarget \<Rightarrow> snapshot_reads \<Rightarrow> string \<Rightarrow> nat list \<Rightarrow> ('t, 's) coreEngine \<Rightarrow> (position \<times> ('t, 's) coreEngine) outcome" where
  "trySnapshotRestore vt store sourceID idxs e =
     (case sr_List store of
        Inl err \<Rightarrow> Returns (PosNil, e)
      | Inr [] \<Rightarrow> Returns (PosNil, e)
      | Inr (snapshotID # rest) \<Rightarrow>
          let e = observe (OnSnapshotRestoreStarted snapshotID) e in
          case sr_Load store snapshotID of
            Inl err \<Rightarrow> Returns (PosNil, observe (OnSnapshotFailed snapshotID (''load snapshot: '' @ error_text err)) e)
          | Inr (metadata, entries) \<Rightarrow>
              let resumePos = (case SourcePositions metadata sourceID of None \<Rightarrow> PosNil | Some pos \<Rightarrow> pos) in
              if resumePos = PosNil
              then Returns (PosNil,
                     observe (OnSnapshotFailed snapshotID (''snapshot has no position for source '' @ sourceID)) e)
              else case restoreTargets vt metadata entries snapshotID idxs e of
                     (False, e) \<Rightarrow> Returns (PosNil, e)
                   | (True, e) \<Rightarrow>
                       (case startInitialized (sr_readyOrder store) idxs e of
                          Blocked \<Rightarrow> Blocked
                        | Panic \<Rightarrow> Panic
                        | Returns e \<Rightarrow> Returns (resumePos, observe (OnSnapshotRestoreCompleted snapshotID) e)))"

section \<open>The lifecycle of a source\<close>

text \<open>A session is given by its interleaving, the result of \<^verbatim>\<open>source.Stream\<close> and whether the context is
  done by then.\<close>

record session =
  se_acts :: "action list"
  se_err :: "goerror option"
  se_ctxDone :: bool

record source_env =
  so_Init :: "goerror + (TableIdentifier \<rightharpoonup> ColumnDefinition list)"
  so_SupportsResume :: bool
  so_LastAckedPosition :: "goerror + position"
  so_readyOrder :: "nat \<Rightarrow> string list"
  so_resumed :: session
  so_snapshots :: snapshot_reads
  so_restored :: session
  so_cycles :: "(baseline_env \<times> session) list"

fun initTargets ::
    "'t SyncTarget \<Rightarrow> (TableIdentifier \<rightharpoonup> ColumnDefinition list) \<Rightarrow> nat list \<Rightarrow> ('t, 's) coreEngine \<Rightarrow> ('t, 's) coreEngine" where
  "initTargets vt schemas [] e = e"
| "initTargets vt schemas (idx # idxs) e =
     (let p = pipeline e idx; cols = (case schemas (p_table p) of None \<Rightarrow> [] | Some cols \<Rightarrow> cols) in
      case call_target (t_OnInit vt (p_table p) cols) p of
        (Some err, p') \<Rightarrow> initTargets vt schemas idxs (transitionPipeline idx PipelineError (set_pipeline idx p' e))
      | (None, p') \<Rightarrow> initTargets vt schemas idxs (set_pipeline idx p' e))"

definition run_session ::
    "'t SyncTarget \<Rightarrow> string \<Rightarrow> nat list \<Rightarrow> session \<Rightarrow> position \<Rightarrow> ('t, 's) coreEngine \<Rightarrow> (bool \<times> ('t, 's) coreEngine) outcome" where
  "run_session vt sourceID idxs se position e =
     streamFromPosition vt sourceID idxs (se_acts se) (se_err se) (se_ctxDone se) position e"

text \<open>The loop of baselines and sessions.  A cycle that the source has not yet gone through is the end of
  the list: the loop waits there.\<close>

fun baselineLoop ::
    "'t SyncTarget \<Rightarrow> string \<Rightarrow> nat list \<Rightarrow> (baseline_env \<times> session) list \<Rightarrow> ('t, 's) coreEngine \<Rightarrow> ('t, 's) coreEngine outcome" where
  "baselineLoop vt sourceID idxs [] e = Blocked"
| "baselineLoop vt sourceID idxs ((env, se) # cycles) e =
     (case runBaseline vt env sourceID idxs e of
        Blocked \<Rightarrow> Blocked
      | Panic \<Rightarrow> Panic
      | Returns (position, e) \<Rightarrow>
          if position = PosNil then Returns e
          else case run_session vt sourceID idxs se position e of
                 Blocked \<Rightarrow> Blocked
               | Panic \<Rightarrow> Panic
               | Returns (again, e) \<Rightarrow> if \<not> again then Returns e else baselineLoop vt sourceID idxs cycles e)"

text \<open>The optional first session, from \<open>position\<close> unless it is nil, and what follows when it does not
  end the source.\<close>

definition session_then ::
    "'t SyncTarget \<Rightarrow> string \<Rightarrow> nat list \<Rightarrow> session \<Rightarrow> position \<Rightarrow>
     (('t, 's) coreEngine \<Rightarrow> ('t, 's) coreEngine outcome) \<Rightarrow> ('t, 's) coreEngine \<Rightarrow> ('t, 's) coreEngine outcome" where
  "session_then vt sourceID idxs se position rest e =
     (if position = PosNil then rest e
      else case run_session vt sourceID idxs se position e of
             Blocked \<Rightarrow> Blocked
           | Panic \<Rightarrow> Panic
           | Returns (again, e) \<Rightarrow> if \<not> again then Returns e else rest e)"

definition resumePosition :: "source_env \<Rightarrow> position" where
  "resumePosition env =
     (if so_SupportsResume env then (case so_LastAckedPosition env of Inl err \<Rightarrow> PosNil | Inr pos \<Rightarrow> pos) else PosNil)"

definition restoreThenBaseline ::
    "'t SyncTarget \<Rightarrow> source_env \<Rightarrow> string \<Rightarrow> nat list \<Rightarrow> ('t, 's) coreEngine \<Rightarrow> ('t, 's) coreEngine outcome" where
  "restoreThenBaseline vt env sourceID idxs e =
     (if \<not> e_snapshotStore e then baselineLoop vt sourceID idxs (so_cycles env) e
      else case trySnapshotRestore vt (so_snapshots env) sourceID idxs e of
             Blocked \<Rightarrow> Blocked
           | Panic \<Rightarrow> Panic
           | Returns (pos, e) \<Rightarrow>
               session_then vt sourceID idxs (so_restored env) pos (baselineLoop vt sourceID idxs (so_cycles env)) e)"

definition runSource ::
    "'t SyncTarget \<Rightarrow> source_env \<Rightarrow> string \<Rightarrow> nat list \<Rightarrow> ('t, 's) coreEngine \<Rightarrow> ('t, 's) coreEngine outcome" where
  "runSource vt env sourceID idxs e =
     (case so_Init env of
        Inl err \<Rightarrow>
          Returns (observe (OnSourceDisconnected sourceID (''init failed: '' @ error_text err))
                     (transitionPipelines idxs PipelineError e))
      | Inr schemas \<Rightarrow>
          let e = observe (OnSourceConnected sourceID) e;
              e = e\<lparr>e_schemas := e_schemas e ++ schemas\<rparr>;
              e = initTargets vt schemas idxs e;
              position = resumePosition env
          in case (if position = PosNil then Returns e else startInitialized (so_readyOrder env) idxs e) of
               Blocked \<Rightarrow> Blocked
             | Panic \<Rightarrow> Panic
             | Returns e \<Rightarrow>
                 session_then vt sourceID idxs (so_resumed env) position (restoreThenBaseline vt env sourceID idxs) e)"

section \<open>Reloading a table\<close>

fun transitionEach :: "nat list \<Rightarrow> PipelineState \<Rightarrow> ('t, 's) coreEngine \<Rightarrow> ('t, 's) coreEngine" where
  "transitionEach [] newState e = e"
| "transitionEach (idx # idxs) newState e = transitionEach idxs newState (transitionPipeline idx newState e)"

fun truncateTargets :: "'t SyncTarget \<Rightarrow> (nat \<Rightarrow> clock) \<Rightarrow> nat list \<Rightarrow> ('t, 's) coreEngine \<Rightarrow> ('t, 's) coreEngine" where
  "truncateTargets vt now [] e = e"
| "truncateTargets vt now (idx # idxs) e =
     (let p = pipeline e idx in
      case call_target (t_OnTruncate vt (now idx) (p_table p)) p of
        (Some err, p') \<Rightarrow> truncateTargets vt now idxs (transitionPipeline idx PipelineError (set_pipeline idx p' e))
      | (None, p') \<Rightarrow> truncateTargets vt now idxs (set_pipeline idx p' e))"

fun finishReload :: "nat list \<Rightarrow> ('t, 's) coreEngine \<Rightarrow> ('t, 's) coreEngine" where
  "finishReload [] e = e"
| "finishReload (idx # idxs) e =
     finishReload idxs (if loadState e idx = PipelineBaselining then transitionPipeline idx PipelineStreaming e else e)"

record reload_env =
  rl_pause :: "goerror option"
  rl_truncate :: "nat \<Rightarrow> clock"
  rl_rows :: "(TableIdentifier \<times> row option \<times> clock) list"
  rl_result :: "goerror + position"
  rl_resume :: "goerror option"

definition affectedIdxs :: "string \<Rightarrow> TableIdentifier \<Rightarrow> ('t, 's) coreEngine \<Rightarrow> nat list" where
  "affectedIdxs sourceID table e =
     filter (\<lambda>i. p_sourceID (pipeline e i) = sourceID \<and> p_table (pipeline e i) = table \<and>
                 (loadState e i = PipelineStreaming \<or> loadState e i = PipelinePaused)) [0..<length (e_pipelines e)]"

text \<open>The part of \<^verbatim>\<open>Reload\<close> after the source has been paused.\<close>

definition reloadTargets ::
    "'t SyncTarget \<Rightarrow> reload_env \<Rightarrow> string \<Rightarrow> nat list \<Rightarrow> ('t, 's) coreEngine \<Rightarrow> goerror option \<times> ('t, 's) coreEngine" where
  "reloadTargets vt env sourceID idxs e =
     (let e = transitionEach idxs PipelineBaselining e;
          e = truncateTargets vt (rl_truncate env) idxs e;
          e = baselineStarted idxs e;
          e = snd (baselineRows vt idxs (rl_rows env) Map.empty e)
      in case rl_result env of
           Inl err \<Rightarrow>
             (Some (Wrap ''reload baseline failed'' err), transitionEach idxs PipelineError (observe (CallResume sourceID) e))
         | Inr reloadPos \<Rightarrow>
             let e = baselineComplete vt reloadPos (\<lambda>table. int (length (rl_rows env))) idxs e;
                 e = finishReload idxs e;
                 e = observe (CallResume sourceID) e
             in (case rl_resume env of
                   Some err \<Rightarrow> (Some (Wrap ''resume source after reload'' err), e)
                 | None \<Rightarrow> (None, e)))"

definition Reload ::
    "'t SyncTarget \<Rightarrow> reload_env \<Rightarrow> string \<Rightarrow> TableIdentifier \<Rightarrow> ('t, 's) coreEngine \<Rightarrow> goerror option \<times> ('t, 's) coreEngine" where
  "Reload vt env sourceID table e =
     (case checkRunning sourceID e of
        Some err \<Rightarrow> (Some err, e)
      | None \<Rightarrow>
          let idxs = affectedIdxs sourceID table e in
          if idxs = []
          then (Some (Err (''no active pipelines for source '' @ sourceID @ '' table '' @ TableIdentifier_String table)), e)
          else
            let e = observe (CallPause sourceID) e in
            case rl_pause env of
              Some err \<Rightarrow> (Some (Wrap ''pause source for reload'' err), e)
            | None \<Rightarrow> reloadTargets vt env sourceID idxs e)"

end
