(* ===== verification/Engine_Shutdown.thy ===== *)
theory Engine_Shutdown
  imports Engine_Baseline
begin

text \<open>
  Taking snapshots and stopping the engine (\<^verbatim>\<open>doSnapshot\<close>, \<^verbatim>\<open>CreateSnapshot\<close>,
  \<^verbatim>\<open>runPeriodicSnapshots\<close> and \<^verbatim>\<open>Stop\<close> of \<^verbatim>\<open>engine.go\<close>).  The calls on the snapshot store are
  returned as a list.
\<close>

section \<open>Snapshots\<close>

datatype store_call =
    CallSave string SnapshotMetadata snapshot_entries
  | CallPrune int

record snapshot_env =
  sn_unixNano :: int
  sn_createdAt :: int
  sn_order :: "string list"
  sn_resumeOrder :: "string list"
  sn_pause :: "string \<Rightarrow> goerror option"
  sn_resume :: "string \<Rightarrow> goerror option"
  sn_exportOrder :: "nat \<Rightarrow> string list"
  sn_save :: "goerror option"

fun pauseSources ::
    "(string \<Rightarrow> goerror option) \<Rightarrow> string \<Rightarrow> string list \<Rightarrow> ('t, 's) coreEngine \<Rightarrow> goerror option \<times> ('t, 's) coreEngine" where
  "pauseSources pause snapshotID [] e = (None, e)"
| "pauseSources pause snapshotID (sid # sids) e =
     (let e = observe (CallPause sid) e in
      case pause sid of
        Some err \<Rightarrow>
          (Some (Wrap (''pause source '' @ sid @ '' for snapshot'') err),
           observe (OnSnapshotFailed snapshotID (''pause source '' @ sid @ '': '' @ error_text err)) e)
      | None \<Rightarrow> pauseSources pause snapshotID sids e)"

text \<open>The loops that resume the sources: on the error paths the results are ignored.\<close>

fun resumeIgnoring :: "string list \<Rightarrow> ('t, 's) coreEngine \<Rightarrow> ('t, 's) coreEngine" where
  "resumeIgnoring [] e = e"
| "resumeIgnoring (sid # sids) e = resumeIgnoring sids (observe (CallResume sid) e)"

fun resumeSources ::
    "(string \<Rightarrow> goerror option) \<Rightarrow> string \<Rightarrow> string list \<Rightarrow> ('t, 's) coreEngine \<Rightarrow> ('t, 's) coreEngine" where
  "resumeSources resume snapshotID [] e = e"
| "resumeSources resume snapshotID (sid # sids) e =
     (let e = observe (CallResume sid) e in
      case resume sid of
        Some err \<Rightarrow>
          resumeSources resume snapshotID sids
            (observe (OnSnapshotFailed snapshotID (''resume source '' @ sid @ '': '' @ error_text err)) e)
      | None \<Rightarrow> resumeSources resume snapshotID sids e)"

text \<open>The export loop; it returns the identifier of the pipeline whose export failed and the error, or
  the entries and the table infos.\<close>

fun exportTargets ::
    "'t SyncTarget \<Rightarrow> ('t \<Rightarrow> string) \<Rightarrow> (nat \<Rightarrow> string list) \<Rightarrow> nat list \<Rightarrow> ('t, 's) coreEngine \<Rightarrow>
     snapshot_entries \<times> TableSnapshotInfo list \<times> int \<Rightarrow>
     string \<times> goerror + snapshot_entries \<times> TableSnapshotInfo list \<times> int" where
  "exportTargets vt typeName orders [] e acc = Inr acc"
| "exportTargets vt typeName orders (i # is) e acc =
     (let p = pipeline e i in
      if p_state p \<noteq> PipelinePaused \<and> p_state p \<noteq> PipelineStreaming then exportTargets vt typeName orders is e acc
      else case t_ExportSnapshot vt (orders i) (p_target p) of
             Inl err \<Rightarrow> Inl (p_id p, err)
           | Inr rs \<Rightarrow>
               (case acc of (allEntries, tableInfos, totalRows) \<Rightarrow>
                  exportTargets vt typeName orders is e
                    (allEntries(p_table p \<mapsto> table_entries allEntries (p_table p) @ rs),
                     tableInfos @ [\<lparr>tsi_Table = p_table p, tsi_RowCount = int (length rs), tsi_Columns = [],
                                    tsi_TargetType = typeName (p_target p), tsi_Indexes = []\<rparr>],
                     totalRows + int (length rs))))"

definition sourcePositions :: "('t, 's) coreEngine \<Rightarrow> (string \<rightharpoonup> position)" where
  "sourcePositions e =
     (\<lambda>sid. if e_sources e sid \<noteq> None \<and> LastAcked (e_ackTracker e) sid \<noteq> PosNil
            then Some (LastAcked (e_ackTracker e) sid) else None)"

definition doSnapshot ::
    "'t SyncTarget \<Rightarrow> ('t \<Rightarrow> string) \<Rightarrow> snapshot_env \<Rightarrow> (string \<rightharpoonup> value) \<Rightarrow> ('t, 's) coreEngine \<Rightarrow>
     goerror option \<times> store_call list \<times> ('t, 's) coreEngine" where
  "doSnapshot vt typeName env userMeta e =
     (if \<not> e_snapshotStore e then (Some (Err ''no snapshot store configured''), [], e)
      else
        let snapshotID = ''snap-'' @ Itoa (sn_unixNano env);
            e = observe (OnSnapshotStarted snapshotID) e
        in case pauseSources (sn_pause env) snapshotID (sn_order env) e of
             (Some err, e) \<Rightarrow> (Some err, [], e)
           | (None, e) \<Rightarrow>
               (case exportTargets vt typeName (sn_exportOrder env) [0..<length (e_pipelines e)] e (Map.empty, [], 0) of
                  Inl (pid, err) \<Rightarrow>
                    (Some (Wrap (''export snapshot for pipeline '' @ pid) err), [],
                     observe (OnSnapshotFailed snapshotID (''export '' @ pid @ '': '' @ error_text err))
                       (resumeIgnoring (sn_resumeOrder env) e))
                | Inr (allEntries, tableInfos, totalRows) \<Rightarrow>
                    let metadata = \<lparr>SnapshotID = snapshotID, CreatedAt = sn_createdAt env,
                                    SourcePositions = sourcePositions e, Tables = tableInfos, Format = [],
                                    UserMeta = userMeta\<rparr>;
                        save = CallSave snapshotID metadata allEntries
                    in (case sn_save env of
                          Some err \<Rightarrow>
                            (Some (Wrap ''save snapshot'' err), [save],
                             observe (OnSnapshotFailed snapshotID (''save: '' @ error_text err))
                               (resumeIgnoring (sn_resumeOrder env) e))
                        | None \<Rightarrow>
                            (None,
                             save # (if 0 < e_snapshotRetention e then [CallPrune (e_snapshotRetention e)] else []),
                             observe (OnSnapshotCompleted snapshotID (length tableInfos) totalRows)
                               (resumeSources (sn_resume env) snapshotID (sn_resumeOrder env) e)))))"

definition CreateSnapshot ::
    "'t SyncTarget \<Rightarrow> ('t \<Rightarrow> string) \<Rightarrow> snapshot_env \<Rightarrow> (string \<rightharpoonup> value) \<Rightarrow> ('t, 's) coreEngine \<Rightarrow>
     goerror option \<times> store_call list \<times> ('t, 's) coreEngine" where
  "CreateSnapshot vt typeName env userMeta e =
     (if \<not> e_started e then (Some errNotStarted, [], e)
      else if e_stopped e then (Some errStopped, [], e)
      else doSnapshot vt typeName env userMeta e)"

text \<open>A snapshot whose error is only reported to the observer, under the name of its trigger.\<close>

definition triggerSnapshot ::
    "string \<Rightarrow> string \<Rightarrow> 't SyncTarget \<Rightarrow> ('t \<Rightarrow> string) \<Rightarrow> snapshot_env \<Rightarrow> ('t, 's) coreEngine \<Rightarrow>
     store_call list \<times> ('t, 's) coreEngine" where
  "triggerSnapshot trigger prefix vt typeName env e =
     (case doSnapshot vt typeName env [''trigger'' \<mapsto> VString trigger] e of
        (None, calls, e) \<Rightarrow> (calls, e)
      | (Some err, calls, e) \<Rightarrow> (calls, observe (OnSnapshotFailed trigger (prefix @ '': '' @ error_text err)) e))"

fun runPeriodicSnapshots ::
    "'t SyncTarget \<Rightarrow> ('t \<Rightarrow> string) \<Rightarrow> snapshot_env list \<Rightarrow> ('t, 's) coreEngine \<Rightarrow> store_call list \<times> ('t, 's) coreEngine" where
  "runPeriodicSnapshots vt typeName [] e = ([], e)"
| "runPeriodicSnapshots vt typeName (tick # ticks) e =
     (case triggerSnapshot ''scheduled'' ''periodic snapshot'' vt typeName tick e of
        (calls, e) \<Rightarrow>
          (case runPeriodicSnapshots vt typeName ticks e of (calls', e) \<Rightarrow> (calls @ calls', e)))"

section \<open>Stopping\<close>

text \<open>\<open>sp_waited\<close>: the goroutines have finished before the context is done.\<close>

record stop_env =
  sp_waited :: bool
  sp_snapshot :: snapshot_env
  sp_order :: "string list"
  sp_ackOrder :: "string \<Rightarrow> string list"
  sp_ack :: "string \<Rightarrow> goerror option"
  sp_closeOrder :: "string list"
  sp_close :: "string \<Rightarrow> goerror option"

fun finalAcks ::
    "(string \<Rightarrow> string list) \<Rightarrow> (string \<Rightarrow> goerror option) \<Rightarrow> string list \<Rightarrow> ('t, 's) coreEngine \<Rightarrow> ('t, 's) coreEngine" where
  "finalAcks orders ack [] e = e"
| "finalAcks orders ack (sid # sids) e = finalAcks orders ack sids (advanceAck (orders sid) (ack sid) sid e)"

fun closeTargets :: "'t SyncTarget \<Rightarrow> nat list \<Rightarrow> ('t, 's) coreEngine \<Rightarrow> ('t, 's) coreEngine" where
  "closeTargets vt [] e = e"
| "closeTargets vt (i # is) e =
     (let p = pipeline e i in
      if p_state p = PipelineStopped then closeTargets vt is e
      else case call_target (t_OnClose vt (p_table p)) p of
             (err, p') \<Rightarrow> closeTargets vt is (transitionPipeline i PipelineStopped (set_pipeline i p' e)))"

fun closeSources :: "(string \<Rightarrow> goerror option) \<Rightarrow> string list \<Rightarrow> ('t, 's) coreEngine \<Rightarrow> ('t, 's) coreEngine" where
  "closeSources close [] e = e"
| "closeSources close (sid # sids) e =
     (let e = observe (CallClose sid) e in
      case close sid of
        Some err \<Rightarrow> closeSources close sids (observe (OnSourceDisconnected sid (''close error: '' @ error_text err)) e)
      | None \<Rightarrow> closeSources close sids e)"

definition Stop ::
    "'t SyncTarget \<Rightarrow> ('t \<Rightarrow> string) \<Rightarrow> stop_env \<Rightarrow> ('t, 's) coreEngine \<Rightarrow>
     goerror option \<times> store_call list \<times> ('t, 's) coreEngine" where
  "Stop vt typeName env e =
     (if e_stopped e then (Some errStopped, [], e)
      else if \<not> e_started e then (Some errNotStarted, [], e)
      else
        let e = cancelEngine (e\<lparr>e_stopped := True\<rparr>) in
        if \<not> sp_waited env then (Some CtxErr, [], e)
        else
          case (if e_snapshotOnShutdown e \<and> e_snapshotStore e
                then triggerSnapshot ''shutdown'' ''shutdown snapshot'' vt typeName (sp_snapshot env) e
                else ([], e)) of
            (calls, e) \<Rightarrow>
              let e = finalAcks (sp_ackOrder env) (sp_ack env) (sp_order env) e;
                  e = closeTargets vt [0..<length (e_pipelines e)] e;
                  e = closeSources (sp_close env) (sp_closeOrder env) e
              in (None, calls, e))"

end
