(* ===== verification/Engine_Acks.thy ===== *)
theory Engine_Acks
  imports Engine_Stream
begin

text \<open>
  What an acknowledgement guarantees: an invariant of the streaming sessions of \<open>Engine_Stream\<close>,
  preserved by every action other than a pause or a resume, from which the safety of
  acknowledgements follows, and the runs in which events are lost.
\<close>

section \<open>The invariant\<close>

abbreviation pid_of :: "('t, 's) stream_state \<Rightarrow> nat \<Rightarrow> string" where
  "pid_of st idx \<equiv> p_id (pipeline (ss_engine st) idx)"

abbreviation tracker :: "('t, 's) stream_state \<Rightarrow> AckTracker" where
  "tracker st \<equiv> e_ackTracker (ss_engine st)"

definition awaits :: "('t, 's) stream_state \<Rightarrow> nat \<Rightarrow> bool" where
  "awaits st idx \<longleftrightarrow> ss_failed st \<or> (\<exists>item rest. ss_call st = Some (item, rest) \<and> idx \<in> set rest)"

definition confirmed_inv ::
    "(position \<Rightarrow> position \<Rightarrow> int) \<Rightarrow> position set \<Rightarrow> ('t, 's) stream_state \<Rightarrow> nat \<Rightarrow> bool" where
  "confirmed_inv cmp starts st idx \<longleftrightarrow>
     (\<forall>q. positions (tracker st) (pid_of st idx) = Some q \<longrightarrow>
        seen starts (ss_emitted st) q \<and>
        applied_below cmp (ss_emitted st) (p_table (pipeline (ss_engine st) idx)) (ss_applied st idx) q)"

definition queue_inv :: "(position \<Rightarrow> position \<Rightarrow> int) \<Rightarrow> ('t, 's) stream_state \<Rightarrow> nat \<Rightarrow> bool" where
  "queue_inv cmp st idx \<longleftrightarrow>
     (\<exists>b. ss_buffers st idx = Some b \<and>
        queue_ok cmp (ss_emitted st) (positions (tracker st) (pid_of st idx)) (ch b) \<and>
        covered (ss_emitted st) (p_table (pipeline (ss_engine st) idx)) (ss_applied st idx) (ch b) (awaits st idx))"

definition pipe_inv :: "(position \<Rightarrow> position \<Rightarrow> int) \<Rightarrow> position set \<Rightarrow> ('t, 's) stream_state \<Rightarrow> nat \<Rightarrow> bool" where
  "pipe_inv cmp starts st idx \<longleftrightarrow>
     (\<not> is_skipped (tracker st) (pid_of st idx) \<longrightarrow>
        confirmed_inv cmp starts st idx \<and>
        (loadState (ss_engine st) idx = PipelineStreaming \<longrightarrow> queue_inv cmp st idx))"

text \<open>The pipelines of the source: \<open>idxs\<close> lists them all, their IDs differ, and none drops items.\<close>

definition group_ok :: "string \<Rightarrow> nat list \<Rightarrow> ('t, 's) coreEngine \<Rightarrow> bool" where
  "group_ok sid idxs e \<longleftrightarrow>
     distinct idxs \<and>
     (\<forall>i \<in> set idxs. i < length (e_pipelines e) \<and> p_sourceID (pipeline e i) = sid \<and>
        p_bufferPolicy (pipeline e i) \<noteq> BufferDropOldest \<and>
        pipelineSource (e_ackTracker e) (p_id (pipeline e i)) = Some sid) \<and>
     (\<forall>i \<in> set idxs. \<forall>j \<in> set idxs. p_id (pipeline e i) = p_id (pipeline e j) \<longrightarrow> i = j) \<and>
     (\<forall>pid. pipelineSource (e_ackTracker e) pid = Some sid \<longrightarrow> (\<exists>i \<in> set idxs. p_id (pipeline e i) = pid))"

definition call_inv :: "nat list \<Rightarrow> ('t, 's) stream_state \<Rightarrow> bool" where
  "call_inv idxs st \<longleftrightarrow>
     dom (ss_buffers st) \<subseteq> set idxs \<and>
     (\<forall>idx b. ss_buffers st idx = Some b \<longrightarrow>
        buf_closed b = ss_returned st \<and> set (ch b) \<subseteq> set (ss_emitted st)) \<and>
     (\<forall>item rest. ss_call st = Some (item, rest) \<longrightarrow>
          \<not> ss_returned st \<and> \<not> ss_failed st \<and> ss_emitted st \<noteq> [] \<and> item = last (ss_emitted st) \<and>
          set rest \<subseteq> set idxs \<and> distinct rest)"

definition acked_inv ::
    "(position \<Rightarrow> position \<Rightarrow> int) \<Rightarrow> position set \<Rightarrow> string \<Rightarrow> nat list \<Rightarrow> ('t, 's) coreEngine \<Rightarrow> ('t, 's) stream_state \<Rightarrow> bool" where
  "acked_inv cmp starts sid idxs e0 st \<longleftrightarrow>
     (\<forall>pos. CallAck sid pos \<in> set (e_log (ss_engine st)) \<longrightarrow>
        CallAck sid pos \<in> set (e_log e0) \<or>
        seen starts (ss_emitted st) pos \<and>
        (\<forall>idx \<in> set idxs. \<not> is_skipped (tracker st) (pid_of st idx) \<longrightarrow>
           applied_below cmp (ss_emitted st) (p_table (pipeline (ss_engine st) idx)) (ss_applied st idx) pos))"

definition stream_inv ::
    "(position \<Rightarrow> position \<Rightarrow> int) \<Rightarrow> (position \<Rightarrow> bool) \<Rightarrow> position set \<Rightarrow> string \<Rightarrow> nat list \<Rightarrow> ('t, 's) coreEngine \<Rightarrow>
     ('t, 's) stream_state \<Rightarrow> bool" where
  "stream_inv cmp valid starts sid idxs e0 st \<longleftrightarrow>
     group_ok sid idxs (ss_engine st) \<and>
     pipelineSource (tracker st) = pipelineSource (e_ackTracker e0) \<and>
     ack_inv cmp valid sid (tracker st) \<and> call_inv idxs st \<and>
     (\<forall>idx \<in> set idxs. pipe_inv cmp starts st idx) \<and> acked_inv cmp starts sid idxs e0 st"

section \<open>Preservation\<close>

lemma group_ok_quiet: "group_ok sid idxs e \<Longrightarrow> quiet e e' \<Longrightarrow> group_ok sid idxs e'"
  by (simp add: group_ok_def quiet_defs)

lemma ack_inv_quiet: "ack_inv cmp valid sid (e_ackTracker e) \<Longrightarrow> quiet e e' \<Longrightarrow> ack_inv cmp valid sid (e_ackTracker e')"
  by (simp add: ack_inv_def ack_valid_def quiet_defs)

lemma CallAck_filter: "CallAck sid pos \<in> set log \<longleftrightarrow> CallAck sid pos \<in> set (filter is_ack log)"
  by simp

lemma CallAck_quiet: "quiet e e' \<Longrightarrow> CallAck sid pos \<in> set (e_log e') \<longleftrightarrow> CallAck sid pos \<in> set (e_log e)"
  unfolding CallAck_filter [of sid pos "e_log e'"] CallAck_filter [of sid pos "e_log e"] by (simp add: quiet_def)

text \<open>A change that is quiet on the engine and keeps what concerns a pipeline keeps its invariant.\<close>

lemma pipe_inv_local:
  assumes "pipe_inv cmp starts st idx"
    and e: "pid_of st' idx = pid_of st idx"
      "positions (tracker st') (pid_of st idx) = positions (tracker st) (pid_of st idx)"
      "p_table (pipeline (ss_engine st') idx) = p_table (pipeline (ss_engine st) idx)"
      "is_skipped (tracker st) (pid_of st idx) \<Longrightarrow> is_skipped (tracker st') (pid_of st idx)"
      "loadState (ss_engine st') idx = PipelineStreaming \<Longrightarrow> loadState (ss_engine st) idx = PipelineStreaming"
    and "ss_emitted st' = ss_emitted st" and "ss_applied st' idx = ss_applied st idx"
    and buf: "\<And>b. ss_buffers st idx = Some b \<Longrightarrow> \<exists>b'. ss_buffers st' idx = Some b' \<and> ch b' = ch b"
    and "awaits st idx \<Longrightarrow> awaits st' idx"
  shows "pipe_inv cmp starts st' idx"
proof -
  have "queue_inv cmp st' idx" if "queue_inv cmp st idx"
  proof -
    from that obtain b where b: "ss_buffers st idx = Some b"
      "queue_ok cmp (ss_emitted st) (positions (tracker st) (pid_of st idx)) (ch b)"
      "covered (ss_emitted st) (p_table (pipeline (ss_engine st) idx)) (ss_applied st idx) (ch b) (awaits st idx)"
      unfolding queue_inv_def by blast
    from buf [OF b(1)] obtain b' where "ss_buffers st' idx = Some b'" "ch b' = ch b" by blast
    with b assms(7,8,10) show ?thesis unfolding queue_inv_def by (auto simp: e covered_def)
  qed
  with assms show ?thesis by (auto simp: pipe_inv_def confirmed_inv_def)
qed

lemma pipe_inv_quiet:
  assumes "pipe_inv cmp starts st idx" and "quiet (ss_engine st) (ss_engine st')"
    and "idx < length (e_pipelines (ss_engine st))" and "ss_emitted st' = ss_emitted st"
    and "ss_applied st' idx = ss_applied st idx"
    and "\<And>b. ss_buffers st idx = Some b \<Longrightarrow> \<exists>b'. ss_buffers st' idx = Some b' \<and> ch b' = ch b"
    and "awaits st idx \<Longrightarrow> awaits st' idx"
  shows "pipe_inv cmp starts st' idx"
  by (rule pipe_inv_local [OF assms(1)]) (use assms in \<open>auto simp: quiet_defs\<close>)

lemma acked_inv_quiet:
  assumes "acked_inv cmp starts sid idxs e0 st" and "quiet (ss_engine st) (ss_engine st')"
    and "\<forall>i \<in> set idxs. i < length (e_pipelines (ss_engine st))" and "ss_emitted st' = ss_emitted st"
    and "\<And>idx. \<exists>evs. ss_applied st' idx = ss_applied st idx @ evs"
  shows "acked_inv cmp starts sid idxs e0 st'"
  unfolding acked_inv_def CallAck_quiet [OF assms(2)]
proof (intro allI impI)
  fix pos assume "CallAck sid pos \<in> set (e_log (ss_engine st))"
  with assms(1) have "CallAck sid pos \<in> set (e_log e0) \<or> seen starts (ss_emitted st) pos \<and>
      (\<forall>idx \<in> set idxs. \<not> is_skipped (tracker st) (pid_of st idx) \<longrightarrow>
         applied_below cmp (ss_emitted st) (p_table (pipeline (ss_engine st) idx)) (ss_applied st idx) pos)"
    by (simp add: acked_inv_def)
  moreover have "applied_below cmp (ss_emitted st') (p_table (pipeline (ss_engine st') idx)) (ss_applied st' idx) pos"
    if "idx \<in> set idxs" and
      "applied_below cmp (ss_emitted st) (p_table (pipeline (ss_engine st) idx)) (ss_applied st idx) pos" for idx
  proof -
    from assms(5) [of idx] obtain evs where evs: "ss_applied st' idx = ss_applied st idx @ evs" ..
    have "p_table (pipeline (ss_engine st') idx) = p_table (pipeline (ss_engine st) idx)"
      using assms(2,3) that(1) by (simp add: quiet_defs)
    then show ?thesis using applied_below_more [OF that(2)] by (simp add: evs assms(4))
  qed
  moreover have "is_skipped (tracker st') (pid_of st' idx)"
    if "idx \<in> set idxs" and "is_skipped (tracker st) (pid_of st idx)" for idx
    using assms(2,3) that by (simp add: quiet_defs)
  ultimately show "CallAck sid pos \<in> set (e_log e0) \<or> seen starts (ss_emitted st') pos \<and>
      (\<forall>idx \<in> set idxs. \<not> is_skipped (tracker st') (pid_of st' idx) \<longrightarrow>
         applied_below cmp (ss_emitted st') (p_table (pipeline (ss_engine st') idx)) (ss_applied st' idx) pos)"
    using assms(4) by metis
qed

lemma stream_inv_quiet:
  assumes inv: "stream_inv cmp valid starts sid idxs e0 st" and q: "quiet (ss_engine st) (ss_engine st')"
    and "ss_emitted st' = ss_emitted st" and "ss_applied st' = ss_applied st"
    and "\<And>idx b. ss_buffers st idx = Some b \<Longrightarrow> \<exists>b'. ss_buffers st' idx = Some b' \<and> ch b' = ch b"
    and "\<And>idx. awaits st idx \<Longrightarrow> awaits st' idx" and "call_inv idxs st'"
  shows "stream_inv cmp valid starts sid idxs e0 st'"
proof -
  have len: "\<forall>i \<in> set idxs. i < length (e_pipelines (ss_engine st))"
    using inv by (auto simp: stream_inv_def group_ok_def)
  have "pipe_inv cmp starts st' idx" if "idx \<in> set idxs" for idx
    by (rule pipe_inv_quiet [OF _ q]) (use inv that len assms in \<open>auto simp: stream_inv_def\<close>)
  moreover have "acked_inv cmp starts sid idxs e0 st'"
    by (rule acked_inv_quiet [OF _ q len]) (use inv assms in \<open>auto simp: stream_inv_def\<close>)
  moreover have "pipelineSource (tracker st') = pipelineSource (tracker st)" using q by (simp add: quiet_defs)
  ultimately show ?thesis using inv assms(7) group_ok_quiet [OF _ q] ack_inv_quiet [OF _ q]
    by (simp add: stream_inv_def)
qed

lemma call_inv_frame:
  "ss_buffers st' = ss_buffers st \<Longrightarrow> ss_call st' = ss_call st \<Longrightarrow> ss_failed st' = ss_failed st \<Longrightarrow>
   ss_returned st' = ss_returned st \<Longrightarrow> ss_emitted st' = ss_emitted st \<Longrightarrow> call_inv idxs st \<Longrightarrow> call_inv idxs st'"
  by (simp add: call_inv_def)

lemma call_inv_dispatch:
  assumes ci: "call_inv idxs st" and call: "ss_call st = Some (item, idx # rest)"
    and res: "dispatch_result item idx (ss_buffers st) (ss_engine st) (nxt, bs, e')"
    and st': "ss_call st' = (if nxt = NextPipeline then Some (item, rest) else None)" "ss_failed st' = (nxt \<noteq> NextPipeline)"
      "ss_returned st' = ss_returned st" "ss_emitted st' = ss_emitted st" "ss_buffers st' = bs"
  shows "call_inv idxs st'"
proof -
  have c: "\<not> ss_returned st" "ss_emitted st \<noteq> []" "item = last (ss_emitted st)" "idx \<in> set idxs" "set rest \<subseteq> set idxs"
      "distinct rest" "dom (ss_buffers st) \<subseteq> set idxs"
    and bufs: "\<And>i b. ss_buffers st i = Some b \<Longrightarrow> \<not> buf_closed b \<and> set (ch b) \<subseteq> set (ss_emitted st)"
    using ci call by (auto simp: call_inv_def)
  consider (same) "bs = ss_buffers st"
    | (sent) b where "ss_buffers st idx = Some b" "bs = (ss_buffers st)(idx \<mapsto> b\<lparr>ch := ch b @ [item]\<rparr>)"
    using res by (auto simp: dispatch_result_def)
  then have "(\<forall>i b'. bs i = Some b' \<longrightarrow> \<not> buf_closed b' \<and> set (ch b') \<subseteq> set (ss_emitted st)) \<and> dom bs \<subseteq> set idxs"
  proof cases
    case same
    with bufs c show ?thesis by simp
  next
    case (sent b)
    with bufs [of idx b] bufs c show ?thesis by simp
  qed
  with c st' show ?thesis by (simp add: call_inv_def)
qed

lemma call_inv_consume:
  assumes "call_inv idxs st" and "ss_buffers st idx = Some b" "ch b = x # xs" "idx \<in> set idxs"
    and "ss_emitted st' = ss_emitted st" "ss_call st' = ss_call st" "ss_failed st' = ss_failed st"
      "ss_returned st' = ss_returned st" "ss_buffers st' = (ss_buffers st)(idx \<mapsto> b\<lparr>ch := xs\<rparr>)"
  shows "call_inv idxs st'"
proof -
  have bufs: "buf_closed b' = ss_returned st" "set (ch b') \<subseteq> set (ss_emitted st)" if "ss_buffers st i = Some b'" for i b'
    using assms(1) that by (auto simp: call_inv_def)
  have "buf_closed b' = ss_returned st \<and> set (ch b') \<subseteq> set (ss_emitted st)" if "ss_buffers st' i = Some b'" for i b'
    using bufs [of i b'] bufs [OF assms(2)] assms(3,9) that by (cases "i = idx") auto
  moreover have "dom (ss_buffers st') \<subseteq> set idxs" using assms by (auto simp: call_inv_def)
  ultimately show ?thesis using assms by (auto simp: call_inv_def split: option.splits)
qed

text \<open>Actions of a session without pauses; the ACK tracker's map is iterated in some order of its keys.\<close>

fun steady :: "(string \<rightharpoonup> string) \<Rightarrow> action \<Rightarrow> bool" where
  "steady src (Consume idx env) \<longleftrightarrow> iter_order (env_ackOrder env) src"
| "steady src PauseSource \<longleftrightarrow> False"
| "steady src ResumeSource \<longleftrightarrow> False"
| "steady src act \<longleftrightarrow> True"

lemma stream_step_emitted:
  assumes "stream_step vt sid idxs act st = Returns st'"
  shows "\<exists>xs. ss_emitted st' = ss_emitted st @ xs"
  using assms
  by (cases act) (auto simp: stream_step_def Let_def split: if_splits option.splits outcome.splits list.splits
      dispatch_next.splits prod.splits)

lemma stream_exec_emitted:
  "stream_exec vt sid idxs acts st = Returns st' \<Longrightarrow> \<exists>xs. ss_emitted st' = ss_emitted st @ xs"
proof (induction acts arbitrary: st)
  case (Cons act acts)
  then obtain st1 where "stream_step vt sid idxs act st = Returns st1" "stream_exec vt sid idxs acts st1 = Returns st'"
    by (auto split: outcome.splits)
  with Cons.IH stream_step_emitted show ?case by fastforce
qed simp

definition unpaused :: "action \<Rightarrow> bool" where
  "unpaused act \<longleftrightarrow> act \<noteq> PauseSource \<and> act \<noteq> ResumeSource"

lemma steady_unpaused: "steady src act \<Longrightarrow> unpaused act"
  by (cases act) (simp_all add: unpaused_def)

lemma runTTLScanner_target:
  "p_ttlFunc (pipeline e idx) = None \<Longrightarrow> runTTLScanner vt idx [t] e = e"
  by (simp add: runTTLScanner_def scanExpiredRows_def split: option.split)

text \<open>What an action without pauses does to a session.\<close>

lemma stream_step_cases:
  assumes r: "stream_step vt sid idxs act st = Returns st'" and grp: "group_ok sid idxs (ss_engine st)"
    and call: "call_inv idxs st" and "unpaused act"
  obtains
    (emitted) item where "ss_call st = None" "\<not> ss_failed st" "\<not> ss_returned st"
      "st' = st\<lparr>ss_call := Some (item, idxs), ss_emitted := ss_emitted st @ [item]\<rparr>"
  | (called) item where "ss_call st = Some (item, [])" "st' = st\<lparr>ss_call := None\<rparr>"
  | (dispatched) item idx rest nxt bs e' env where "ss_call st = Some (item, idx # rest)"
      "dispatch_result item idx (ss_buffers st) (ss_engine st) (nxt, bs, e')"
      "st' = st\<lparr>ss_engine := e', ss_buffers := bs,
         ss_call := (if nxt = NextPipeline then Some (item, rest) else None), ss_failed := (nxt \<noteq> NextPipeline)\<rparr>"
      "act = Dispatch env" "dispatchItem env sid idxs item idx (ss_buffers st) (ss_engine st) = Returns (nxt, bs, e')"
  | (exited) idx b where "st' = st\<lparr>ss_exited := (ss_exited st)(idx := True)\<rparr>"
      "ss_buffers st idx = Some b" "ch b = []" "buf_closed b"
  | (consumed) idx env b x xs nxt e' where "act = Consume idx env" "ss_buffers st idx = Some b" "ch b = x # xs"
      "idx \<in> set idxs" "consumeItem vt env sid idx idxs (b\<lparr>ch := xs\<rparr>) x (ss_engine st) = (nxt, e')"
      "consume_result x idx sid env (ss_engine st) (applied_by vt env idx x (ss_engine st)) e'"
      "st' = st\<lparr>ss_engine := e', ss_buffers := (ss_buffers st)(idx \<mapsto> b\<lparr>ch := xs\<rparr>),
         ss_exited := (ss_exited st)(idx := (nxt = ConsumerExits)),
         ss_applied := (ss_applied st)(idx := ss_applied st idx @ applied_by vt env idx x (ss_engine st))\<rparr>"
  | (scanned) e' where "quiet (ss_engine st) e'" "st' = st\<lparr>ss_engine := e'\<rparr>"
      "(\<exists>idx t. e' = runTTLScanner vt idx [t] (ss_engine st)) \<or> (\<exists>idx. e' = runValidationScanner vt idx 1 (ss_engine st))"
  | (closed) "ss_call st = None" "st' = st\<lparr>ss_returned := True,
      ss_buffers := (\<lambda>idx. map_option (\<lambda>b. b\<lparr>buf_closed := True\<rparr>) (ss_buffers st idx))\<rparr>"
proof -
  note defs = stream_step_def Let_def
  have g: "\<forall>i \<in> set idxs. i < length (e_pipelines (ss_engine st))"
    "\<And>i. i \<in> set idxs \<Longrightarrow> p_sourceID (pipeline (ss_engine st) i) = sid"
    "\<And>i. i \<in> set idxs \<Longrightarrow> p_bufferPolicy (pipeline (ss_engine st) i) \<noteq> BufferDropOldest"
    using grp by (auto simp: group_ok_def)
  show thesis
  proof (cases act)
    case (Emit item)
    with r emitted [of item] show thesis by (cases "ss_call st") (auto simp: defs split: if_splits)
  next
    case (Dispatch env)
    with r obtain item rest where c: "ss_call st = Some (item, rest)" by (auto simp: defs split: option.splits)
    show thesis
    proof (cases rest)
      case Nil
      with r c Dispatch called show thesis by (simp add: defs)
    next
      case (Cons idx rest')
      with r c Dispatch obtain nxt bs e' where
        d: "dispatchItem env sid idxs item idx (ss_buffers st) (ss_engine st) = Returns (nxt, bs, e')"
        by (auto simp: defs split: outcome.splits)
      have idx: "idx \<in> set idxs" "\<not> ss_failed st" "\<And>b. ss_buffers st idx = Some b \<Longrightarrow> \<not> buf_closed b"
        using call c Cons by (auto simp: call_inv_def)
      have res: "dispatch_result item idx (ss_buffers st) (ss_engine st) (nxt, bs, e')"
        by (rule dispatchItem_result [OF d g(3) [OF idx(1)] idx(3) idx(1) g(1) g(2) [OF idx(1)]])
      moreover have "st' = st\<lparr>ss_engine := e', ss_buffers := bs,
          ss_call := (if nxt = NextPipeline then Some (item, rest') else None), ss_failed := (nxt \<noteq> NextPipeline)\<rparr>"
        using r c Dispatch Cons d res idx(2) by (cases st) (auto simp: defs dispatch_result_def)
      ultimately show thesis using dispatched c Cons Dispatch d by blast
    qed
  next
    case (Consume idx env)
    with r obtain b where b: "ss_buffers st idx = Some b" "\<not> ss_exited st idx"
      by (auto simp: defs split: option.splits if_splits)
    have idx: "idx \<in> set idxs" using call b(1) by (auto simp: call_inv_def)
    show thesis
    proof (cases "ch b")
      case Nil
      with r b Consume exited [of idx b] show thesis by (auto simp: defs Receive_def split: if_splits)
    next
      case (Cons x xs)
      obtain nxt e' where ci: "consumeItem vt env sid idx idxs (b\<lparr>ch := xs\<rparr>) x (ss_engine st) = (nxt, e')" by fastforce
      have "consume_result x idx sid env (ss_engine st) (applied_by vt env idx x (ss_engine st)) e'"
        by (rule consumeItem_result [OF ci idx g(1) g(2) [OF idx]])
      then show thesis using consumed [OF Consume b(1) Cons idx ci] r b Consume Cons ci by (simp add: defs Receive_def)
    qed
  next
    case (TTLScan idx t)
    with r show thesis by (intro scanned [OF quiet_runTTLScanner [of _ vt idx t]]) (auto simp: defs)
  next
    case (Validate idx)
    with r show thesis by (intro scanned [OF quiet_runValidationScanner [of _ vt idx]]) (auto simp: defs)
  next
    case StreamReturns
    with r closed show thesis by (cases "ss_call st") (auto simp: defs split: if_splits)
  qed (use assms(4) in \<open>auto simp: unpaused_def\<close>)
qed

lemma call_inv_step:
  assumes "stream_step vt sid idxs act st = Returns st'" and "group_ok sid idxs (ss_engine st)"
    and call: "call_inv idxs st" and "unpaused act"
  shows "call_inv idxs st'"
  using assms
proof (cases rule: stream_step_cases)
  case (emitted item)
  moreover have "distinct idxs" using assms(2) by (simp add: group_ok_def)
  ultimately show ?thesis using call by (auto simp: call_inv_def)
next
  case (called item)
  with call show ?thesis by (auto simp: call_inv_def)
next
  case (dispatched item idx rest nxt bs e')
  show ?thesis by (rule call_inv_dispatch [OF call dispatched(1,2)]) (simp_all add: dispatched)
next
  case (consumed idx env b x xs nxt e')
  show ?thesis by (rule call_inv_consume [OF call consumed(2-4)]) (simp_all add: consumed)
next
  case closed
  have "x \<in> set (ss_emitted st)" if "ss_buffers st i = Some b" and "x \<in> set (ch b)" for i b x
    using call that by (meson call_inv_def subsetD)
  with closed call show ?thesis by (auto simp: call_inv_def dom_def)
qed (auto intro: call_inv_frame [OF _ _ _ _ _ call])

context position_order
begin

lemma emit_inv:
  assumes inv: "stream_inv cmp valid starts sid idxs e0 st"
    and so: "source_order cmp valid starts (ss_emitted st @ [item])"
    and "ss_call st = None" "\<not> ss_failed st" "\<not> ss_returned st"
  shows "stream_inv cmp valid starts sid idxs e0 (st\<lparr>ss_call := Some (item, idxs), ss_emitted := ss_emitted st @ [item]\<rparr>)"
    (is "stream_inv _ _ _ _ _ _ ?st")
proof -
  note emit = applied_below_emit [OF so]
  have "pipe_inv cmp starts ?st idx" if "idx \<in> set idxs" for idx
  proof -
    have "pipe_inv cmp starts st idx" using inv that by (simp add: stream_inv_def)
    moreover have "confirmed_inv cmp starts st idx \<Longrightarrow> confirmed_inv cmp starts ?st idx"
      using emit by (simp add: confirmed_inv_def seen_more)
    moreover have "queue_inv cmp st idx \<Longrightarrow> queue_inv cmp ?st idx"
      using that assms(3,4) covered_emit [of "ss_emitted st"]
      by (auto simp: queue_inv_def awaits_def queue_ok_def)
    ultimately show ?thesis by (simp add: pipe_inv_def)
  qed
  moreover have "acked_inv cmp starts sid idxs e0 ?st"
    using inv emit by (auto simp: stream_inv_def acked_inv_def seen_more)
  moreover have "call_inv idxs ?st"
  proof -
    have "call_inv idxs st" "distinct idxs" using inv by (simp_all add: stream_inv_def group_ok_def)
    then show ?thesis using assms(3-5) by (auto simp: call_inv_def)
  qed
  ultimately show ?thesis using inv by (simp add: stream_inv_def)
qed

lemma dispatch_inv:
  assumes inv: "stream_inv cmp valid starts sid idxs e0 st" and so: "source_order cmp valid starts (ss_emitted st)"
    and call: "ss_call st = Some (item, idx # rest)"
    and res: "dispatch_result item idx (ss_buffers st) (ss_engine st) (nxt, bs, e')"
    and st': "st' = st\<lparr>ss_engine := e', ss_buffers := bs,
        ss_call := (if nxt = NextPipeline then Some (item, rest) else None), ss_failed := (nxt \<noteq> NextPipeline)\<rparr>"
  shows "stream_inv cmp valid starts sid idxs e0 st'"
proof -
  have ci: "call_inv idxs st" using inv by (simp add: stream_inv_def)
  then have c: "\<not> ss_returned st" "\<not> ss_failed st" "ss_emitted st \<noteq> []" "item = last (ss_emitted st)" "idx \<in> set idxs"
    using call by (auto simp: call_inv_def)
  have g: "\<forall>i \<in> set idxs. i < length (e_pipelines (ss_engine st))"
    using inv by (auto simp: stream_inv_def group_ok_def)
  have q: "quiet (ss_engine st) (ss_engine st')" using res by (simp add: dispatch_result_def st')
  have aw: "awaits st' j" if "awaits st j" and "j \<noteq> idx \<or> nxt \<noteq> NextPipeline" for j
    using that call c(2) by (auto simp: awaits_def st')
  have bufs: "ss_buffers st' j = ss_buffers st j" if "j \<noteq> idx" for j
    using res that by (auto simp: dispatch_result_def st')
  have same: "ss_emitted st' = ss_emitted st" "ss_applied st' = ss_applied st" "ss_buffers st' = bs"
    by (simp_all add: st')
  have "pipe_inv cmp starts st' j" if j: "j \<in> set idxs" for j
  proof -
    have pj: "pipe_inv cmp starts st j" using inv j by (simp add: stream_inv_def)
    have e: "pid_of st' idx = pid_of st idx" "positions (tracker st') = positions (tracker st)"
        "p_table (pipeline (ss_engine st') idx) = p_table (pipeline (ss_engine st) idx)"
        "is_skipped (tracker st) (pid_of st idx) \<Longrightarrow> is_skipped (tracker st') (pid_of st idx)"
        "loadState (ss_engine st') idx = PipelineStreaming \<Longrightarrow> loadState (ss_engine st) idx = PipelineStreaming"
      using q g c(5) by (auto simp: quiet_defs)
    consider (other) "j \<noteq> idx \<or> nxt \<noteq> NextPipeline \<and> bs = ss_buffers st"
      | (sent) b where "j = idx" "ss_buffers st idx = Some b" "ss_buffers st' idx = Some (b\<lparr>ch := ch b @ [item]\<rparr>)"
      | (mismatch) ev where "j = idx" "bs = ss_buffers st" "item = ItemEvent ev" "ev_Table ev \<noteq> p_table (pipeline (ss_engine st) idx)"
      | (idle) "j = idx" "ss_buffers st idx = None \<or> loadState (ss_engine st) idx \<noteq> PipelineStreaming \<or>
          is_skipped (tracker st') (pid_of st idx)"
      using res c(4) by (cases "j = idx") (auto simp: dispatch_result_def st')
    then show ?thesis
    proof cases
      case other
      then show ?thesis using pj bufs aw j g same by (intro pipe_inv_quiet [OF pj q]) (auto simp: st')
    next
      case sent
      have "queue_inv cmp st' idx" if "queue_inv cmp st idx" "confirmed_inv cmp starts st idx"
        using that queue_ok_send [OF so c(3)] sent(2,3) c(4) same
        by (auto simp: queue_inv_def confirmed_inv_def e covered_def)
      with pj sent(1) same e show ?thesis by (auto simp: pipe_inv_def confirmed_inv_def)
    next
      case mismatch
      then have "queue_inv cmp st' idx" if "queue_inv cmp st idx"
        using that c(4) same by (auto simp: queue_inv_def e covered_def)
      with pj mismatch(1) same e show ?thesis by (auto simp: pipe_inv_def confirmed_inv_def)
    next
      case idle
      with pj same e show ?thesis by (auto simp: pipe_inv_def confirmed_inv_def queue_inv_def)
    qed
  qed
  moreover have "acked_inv cmp starts sid idxs e0 st'"
    by (rule acked_inv_quiet [OF _ q g]) (use inv same in \<open>auto simp: stream_inv_def\<close>)
  moreover have "call_inv idxs st'" by (rule call_inv_dispatch [OF ci call res]) (simp_all add: st')
  moreover have "pipelineSource (tracker st') = pipelineSource (tracker st)" using q by (simp add: quiet_defs)
  ultimately show ?thesis using inv group_ok_quiet [OF _ q] ack_inv_quiet [OF _ q]
    by (simp add: stream_inv_def)
qed

text \<open>Dropping an item, or failing on it.\<close>

lemma consume_quiet_inv:
  assumes inv: "stream_inv cmp valid starts sid idxs e0 st"
    and buf: "ss_buffers st idx = Some b" "ch b = x # xs" and idx: "idx \<in> set idxs"
    and q: "quiet (ss_engine st) (ss_engine st')"
    and drop: "loadState (ss_engine st) idx \<noteq> PipelineStreaming \<or>
      is_skipped (tracker st') (pid_of st idx) \<or> item_events x = []"
    and st': "ss_emitted st' = ss_emitted st" "ss_applied st' = ss_applied st" "ss_call st' = ss_call st"
      "ss_failed st' = ss_failed st" "ss_returned st' = ss_returned st"
      "ss_buffers st' = (ss_buffers st)(idx \<mapsto> b\<lparr>ch := xs\<rparr>)"
  shows "stream_inv cmp valid starts sid idxs e0 st'"
proof -
  have g: "\<forall>i \<in> set idxs. i < length (e_pipelines (ss_engine st))"
    using inv by (auto simp: stream_inv_def group_ok_def)
  have aw: "awaits st' = awaits st" by (simp add: awaits_def st' fun_eq_iff)
  have "pipe_inv cmp starts st' j" if j: "j \<in> set idxs" for j
  proof (cases "j = idx")
    case False
    then show ?thesis using inv j g st' aw
      by (intro pipe_inv_quiet [OF _ q]) (auto simp: stream_inv_def)
  next
    case True
    have e: "pid_of st' idx = pid_of st idx" "positions (tracker st') = positions (tracker st)"
        "p_table (pipeline (ss_engine st') idx) = p_table (pipeline (ss_engine st) idx)"
        "is_skipped (tracker st) (pid_of st idx) \<Longrightarrow> is_skipped (tracker st') (pid_of st idx)"
        "loadState (ss_engine st') idx = PipelineStreaming \<Longrightarrow> loadState (ss_engine st) idx = PipelineStreaming"
      using q g idx by (auto simp: quiet_defs)
    have "queue_inv cmp st' idx" if "queue_inv cmp st idx" "item_events x = []"
      using that buf covered_tail [of _ _ _ x xs] queue_ok_tail(1) [of _ _ x xs]
      by (auto simp: queue_inv_def e aw st')
    with inv idx drop True st'(1,2) e show ?thesis by (auto simp: stream_inv_def pipe_inv_def confirmed_inv_def)
  qed
  moreover have "acked_inv cmp starts sid idxs e0 st'"
    by (rule acked_inv_quiet [OF _ q g]) (use inv st' in \<open>auto simp: stream_inv_def\<close>)
  moreover have "call_inv idxs st'"
    by (rule call_inv_consume [OF _ buf idx]) (use inv st' in \<open>simp_all add: stream_inv_def\<close>)
  moreover have "pipelineSource (tracker st') = pipelineSource (tracker st)" using q by (simp add: quiet_defs)
  ultimately show ?thesis using inv group_ok_quiet [OF _ q] ack_inv_quiet [OF _ q]
    by (simp add: stream_inv_def)
qed

lemma AckPosition_True_not_nil: "AckPosition a sid order = ((p, True), a') \<Longrightarrow> p \<noteq> PosNil"
  by (auto simp: AckPosition_def split: option.splits if_splits)

text \<open>An acknowledged position is one that all active pipelines have passed.\<close>

lemma ack_covers:
  assumes inv: "ack_inv cmp valid sid a" and ord: "iter_order order (pipelineSource a)"
    and pos: "fst (AckPosition a sid order) = (pos, True)" and so: "source_order cmp valid starts ems"
    and active: "pipelineSource a pid = Some sid" "\<not> is_skipped a pid"
    and conf: "\<And>q. positions a pid = Some q \<Longrightarrow> applied_below cmp ems table applied q"
  shows "applied_below cmp ems table applied pos"
proof -
  obtain a' where r: "AckPosition a sid order = ((pos, True), a')" using pos by (metis prod.collapse)
  note low = AckPosition_lower [OF _ ord _ r AckPosition_True_not_nil [OF r]]
  obtain q where q: "positions a pid = Some q" "cmp pos q \<le> 0" "valid pos" "valid q"
    using low(1,3) inv active by (auto simp: ack_inv_def ack_active_def ack_valid_def)
  show ?thesis unfolding applied_below_def
  proof (intro allI impI)
    fix ev assume ev: "ItemEvent ev \<in> set ems" "ev_Table ev = table" "cmp (ev_Position ev) pos < 0"
    then have "valid (ev_Position ev)" using so by (auto simp: source_order_def)
    then have "cmp (ev_Position ev) q < 0" using cmp_less_le_trans ev(3) q(2-4) by blast
    with conf [OF q(1)] ev show "ev \<in> set applied" by (auto simp: applied_below_def)
  qed
qed

lemma ack_seen:
  assumes "ack_inv cmp valid sid a" and "iter_order order (pipelineSource a)"
    and pos: "fst (AckPosition a sid order) = (pos, True)"
    and conf: "\<And>pid q. pipelineSource a pid = Some sid \<Longrightarrow> \<not> is_skipped a pid \<Longrightarrow> positions a pid = Some q \<Longrightarrow> seen starts ems q"
  shows "seen starts ems pos"
proof -
  obtain a' where r: "AckPosition a sid order = ((pos, True), a')" using pos by (metis prod.collapse)
  have "\<exists>pid. ack_active a sid pid \<and> positions a pid = Some pos"
    using AckPosition_lower(2) [OF _ assms(2) _ r AckPosition_True_not_nil [OF r]] assms(1) by (auto simp: ack_inv_def)
  with conf show ?thesis by (auto simp: ack_active_def)
qed

lemma consume_ack_inv:
  assumes inv: "stream_inv cmp valid starts sid idxs e0 st" and so: "source_order cmp valid starts (ss_emitted st)"
    and buf: "ss_buffers st idx = Some b" "ch b = x # xs" and idx: "idx \<in> set idxs"
    and streaming: "loadState (ss_engine st) idx = PipelineStreaming"
    and order: "iter_order order (pipelineSource (tracker st))"
    and q: "quiet (ss_engine st) e1" and e2: "e2 = e1 \<or> e2 = confirmPipeline idx (item_pos x) e1"
    and st': "ss_engine st' = advanceAck order err sid e2"
      "ss_emitted st' = ss_emitted st" "ss_applied st' = (ss_applied st)(idx := ss_applied st idx @ item_events x)"
      "ss_call st' = ss_call st" "ss_failed st' = ss_failed st" "ss_returned st' = ss_returned st"
      "ss_buffers st' = (ss_buffers st)(idx \<mapsto> b\<lparr>ch := xs\<rparr>)"
  shows "stream_inv cmp valid starts sid idxs e0 st'"
proof -
  let ?a2 = "e_ackTracker e2"
  have g: "\<forall>i \<in> set idxs. i < length (e_pipelines (ss_engine st))"
    "\<forall>i \<in> set idxs. pipelineSource (tracker st) (pid_of st i) = Some sid"
    "\<And>j. j \<in> set idxs \<Longrightarrow> j \<noteq> idx \<Longrightarrow> pid_of st j \<noteq> pid_of st idx"
    using inv idx unfolding stream_inv_def group_ok_def by blast+
  have pip: "e_pipelines (ss_engine st') = e_pipelines e1" and pip2: "e_pipelines e2 = e_pipelines e1"
    using e2 by (auto simp: st' advanceAck_effect(1))
  have same: "pid_of st' j = pid_of st j" "p_table (pipeline (ss_engine st') j) = p_table (pipeline (ss_engine st) j)"
    "loadState (ss_engine st') j = PipelineStreaming \<Longrightarrow> loadState (ss_engine st) j = PipelineStreaming"
    if "j \<in> set idxs" for j
    using q g(1) that unfolding pip by (simp_all add: quiet_defs)
  have pid1: "p_id (pipeline e1 idx) = pid_of st idx" using same(1) [OF idx] pip by simp
  have a2: "pipelineSource ?a2 = pipelineSource (tracker st)"
    "positions ?a2 = positions (tracker st) \<or> positions ?a2 = (positions (tracker st))(pid_of st idx \<mapsto> item_pos x)"
    "is_skipped (tracker st) pid \<Longrightarrow> is_skipped ?a2 pid" for pid
    using e2 q pid1 by (auto simp: Confirm_def quiet_defs is_skipped_def)
  obtain r a' where ack: "AckPosition ?a2 sid order = (r, a')" by fastforce
  have tr: "tracker st' = a'" by (simp add: st' advanceAck_effect(2) ack)
  note fr = AckPosition_frame [OF ack, folded tr]
  have "set (ch b) \<subseteq> set (ss_emitted st)" using inv buf(1) by (auto simp: stream_inv_def call_inv_def)
  then have x: "valid (item_pos x)" using so buf(2) by (auto simp: source_order_def)
  have ai2: "ack_inv cmp valid sid ?a2"
    using e2
  proof
    have "ack_inv cmp valid sid (e_ackTracker e1)" using inv q ack_inv_quiet by (auto simp: stream_inv_def)
    then show "e2 = e1 \<Longrightarrow> ?thesis" "e2 = confirmPipeline idx (item_pos x) e1 \<Longrightarrow> ?thesis"
      using ack_step_inv [OF ack_step.confirm] x by auto
  qed
  have "iter_order order (pipelineSource ?a2)" using order a2(1) by simp
  then have ord2: "iter_order order (pipelineSource ?a2)"
    and ai: "ack_inv cmp valid sid (tracker st')" using ai2 ack tr by (simp_all, metis ack_step.ack ack_step_inv)
  have pipes: "pipe_inv cmp starts st' j" if j: "j \<in> set idxs" for j
  proof (cases "j = idx")
    case False
    have "pipe_inv cmp starts st j" using inv j by (simp add: stream_inv_def)
    then show ?thesis
      by (rule pipe_inv_local) (use same [OF j] fr a2 st' False g(3) [OF j False] in \<open>auto simp: awaits_def is_skipped_def\<close>)
  next
    case True
    let ?pos = "positions (tracker st) (pid_of st idx)" and ?tab = "p_table (pipeline (ss_engine st) idx)"
    let ?new = "ss_applied st idx @ item_events x"
    show ?thesis
    proof (cases "is_skipped (tracker st') (pid_of st idx)")
      case skipped: True
      with True same(1) [OF idx] show ?thesis by (simp add: pipe_inv_def)
    next
      case False
      then have "\<not> is_skipped (tracker st) (pid_of st idx)" using a2(3) fr(4) by (auto simp: is_skipped_def)
      with inv idx streaming have conf: "confirmed_inv cmp starts st idx" and que: "queue_inv cmp st idx"
        by (auto simp: stream_inv_def pipe_inv_def)
      from que buf have qo: "queue_ok cmp (ss_emitted st) ?pos (x # xs)"
        and cov: "covered (ss_emitted st) ?tab (ss_applied st idx) (x # xs) (awaits st idx)"
        by (auto simp: queue_inv_def)
      have pos': "positions (tracker st') (pid_of st idx) = ?pos \<or> positions (tracker st') (pid_of st idx) = Some (item_pos x)"
        using a2(2) fr(2) by auto
      have "seen starts (ss_emitted st) (item_pos x)" using qo by (auto simp: seen_def queue_ok_def)
      then have "confirmed_inv cmp starts st' idx"
        using conf pos' consume_applied [OF so qo cov] applied_below_more [of cmp "ss_emitted st" ?tab "ss_applied st idx"]
        by (auto simp: confirmed_inv_def same [OF idx] st'(2,3))
      moreover have "queue_inv cmp st' idx"
        using pos' queue_ok_tail [OF qo] covered_tail [OF cov]
        by (auto simp: queue_inv_def same [OF idx] st'(2-7) awaits_def)
      ultimately show ?thesis using True by (simp add: pipe_inv_def)
    qed
  qed
  have pip': "\<not> is_skipped (tracker st') (pid_of st' j) \<Longrightarrow> confirmed_inv cmp starts st' j" if "j \<in> set idxs" for j
    using pipes [OF that] by (simp add: pipe_inv_def)
  have "acked_inv cmp starts sid idxs e0 st'"
    unfolding acked_inv_def
  proof (intro allI impI)
    fix pos assume "CallAck sid pos \<in> set (e_log (ss_engine st'))"
    then consider (old) "CallAck sid pos \<in> set (e_log e1)" | (new) "fst (AckPosition ?a2 sid order) = (pos, True)"
      using e2 by (auto simp: st' advanceAck_effect(3))
    then show "CallAck sid pos \<in> set (e_log e0) \<or> seen starts (ss_emitted st') pos \<and>
      (\<forall>j \<in> set idxs. \<not> is_skipped (tracker st') (pid_of st' j) \<longrightarrow>
         applied_below cmp (ss_emitted st') (p_table (pipeline (ss_engine st') j)) (ss_applied st' j) pos)"
    proof cases
      case old
      have "acked_inv cmp starts sid idxs e0 (st'\<lparr>ss_engine := e1\<rparr>)"
        by (rule acked_inv_quiet [OF _ _ g(1)]) (use inv q st'(2,3) in \<open>auto simp: stream_inv_def\<close>)
      moreover have "is_skipped (tracker st') = is_skipped (e_ackTracker e1)"
        using e2 fr(4) by (auto simp: fun_eq_iff is_skipped_def Confirm_def)
      ultimately show ?thesis using old by (simp add: acked_inv_def pip)
    next
      case new
      have sk: "is_skipped ?a2 pid = is_skipped (tracker st') pid" for pid using fr(4) by (simp add: is_skipped_def)
      have grp: "\<exists>j \<in> set idxs. pid_of st' j = pid" if "pipelineSource ?a2 pid = Some sid" for pid
        using inv that a2(1) same(1) by (auto simp: stream_inv_def group_ok_def)
      have conf: "seen starts (ss_emitted st') q"
        "applied_below cmp (ss_emitted st') (p_table (pipeline (ss_engine st') j)) (ss_applied st' j) q"
        if "j \<in> set idxs" "\<not> is_skipped ?a2 (pid_of st' j)" "positions ?a2 (pid_of st' j) = Some q" for j q
        using pip' that sk fr(2) by (auto simp: confirmed_inv_def)
      have "seen starts (ss_emitted st') pos"
        by (rule ack_seen [OF ai2 ord2 new]) (use grp conf(1) in blast)
      moreover have "applied_below cmp (ss_emitted st') (p_table (pipeline (ss_engine st') j)) (ss_applied st' j) pos"
        if "j \<in> set idxs" and "\<not> is_skipped (tracker st') (pid_of st' j)" for j
      proof (rule ack_covers [OF ai2 ord2 new])
        show "source_order cmp valid starts (ss_emitted st')" using so st'(2) by simp
        show "pipelineSource ?a2 (pid_of st' j) = Some sid" using g(2) that(1) a2(1) same(1) by simp
        show "\<not> is_skipped ?a2 (pid_of st' j)" using that(2) sk by simp
        then show "positions ?a2 (pid_of st' j) = Some q \<Longrightarrow>
            applied_below cmp (ss_emitted st') (p_table (pipeline (ss_engine st') j)) (ss_applied st' j) q" for q
          using conf(2) that(1) by blast
      qed
      ultimately show ?thesis by blast
    qed
  qed
  moreover have "call_inv idxs st'"
    by (rule call_inv_consume [OF _ buf idx]) (use inv st' in \<open>simp_all add: stream_inv_def\<close>)
  moreover have "group_ok sid idxs (ss_engine st')"
  proof -
    have "group_ok sid idxs e1" using inv group_ok_quiet [OF _ q] by (simp add: stream_inv_def)
    moreover have "pipelineSource (tracker st') = pipelineSource (e_ackTracker e1)"
      using fr(1) a2(1) q by (simp add: quiet_defs)
    ultimately show ?thesis unfolding group_ok_def pip by simp
  qed
  ultimately show ?thesis using inv ai pipes fr(1) a2(1) by (simp add: stream_inv_def)
qed

lemma stream_step_inv:
  assumes inv: "stream_inv cmp valid starts sid idxs e0 st" and so: "source_order cmp valid starts (ss_emitted st')"
    and r: "stream_step vt sid idxs act st = Returns st'" and st: "steady (pipelineSource (e_ackTracker e0)) act"
  shows "stream_inv cmp valid starts sid idxs e0 st'"
proof -
  from stream_step_emitted [OF r] so have so': "source_order cmp valid starts (ss_emitted st)"
    by (metis source_order_prefix)
  have grp: "group_ok sid idxs (ss_engine st)" and call: "call_inv idxs st"
    and src: "pipelineSource (tracker st) = pipelineSource (e_ackTracker e0)"
    using inv by (auto simp: stream_inv_def)
  note un = steady_unpaused [OF st]
  note call' = call_inv_step [OF r grp call un]
  show ?thesis
    using r grp call un
  proof (cases rule: stream_step_cases)
    case (emitted item)
    with so show ?thesis using emit_inv [OF inv] by simp
  next
    case (called item)
    then show ?thesis using call' by (intro stream_inv_quiet [OF inv]) (auto simp: awaits_def)
  next
    case (dispatched item idx rest nxt bs e')
    show ?thesis by (rule dispatch_inv [OF inv so' dispatched(1,2,3)])
  next
    case (exited idx)
    then show ?thesis using call' by (intro stream_inv_quiet [OF inv]) (auto simp: awaits_def)
  next
    case (consumed idx env b x xs nxt e')
    have order: "iter_order (env_ackOrder env) (pipelineSource (tracker st))" using st consumed(1) src by simp
    from consumed(6) consider (dropped) "quiet (ss_engine st) e'" "applied_by vt env idx x (ss_engine st) = []"
        "loadState (ss_engine st) idx \<noteq> PipelineStreaming \<or> is_skipped (e_ackTracker e') (pid_of st idx) \<or> item_events x = []"
      | (finished) e1 e2 where "loadState (ss_engine st) idx = PipelineStreaming"
        "applied_by vt env idx x (ss_engine st) = item_events x" "quiet (ss_engine st) e1"
        "e2 = e1 \<or> e2 = confirmPipeline idx (item_pos x) e1" "e' = advanceAck (env_ackOrder env) (env_ack env) sid e2"
      unfolding consume_result_def by blast
    then show ?thesis
    proof cases
      case dropped
      then show ?thesis by (intro consume_quiet_inv [OF inv consumed(2-4)]) (auto simp: consumed(7))
    next
      case (finished e1 e2)
      with order show ?thesis by (intro consume_ack_inv [OF inv so' consumed(2-4)]) (auto simp: consumed(7))
    qed
  next
    case (scanned e')
    then show ?thesis using call' by (intro stream_inv_quiet [OF inv]) (auto simp: awaits_def)
  next
    case closed
    then show ?thesis using call' by (intro stream_inv_quiet [OF inv]) (auto simp: awaits_def)
  qed
qed

lemma stream_exec_inv:
  assumes "stream_inv cmp valid starts sid idxs e0 st" and "stream_exec vt sid idxs acts st = Returns st'"
    and "source_order cmp valid starts (ss_emitted st')" and "\<forall>act \<in> set acts. steady (pipelineSource (e_ackTracker e0)) act"
  shows "stream_inv cmp valid starts sid idxs e0 st'"
  using assms
proof (induction acts arbitrary: st)
  case (Cons act acts)
  then obtain st1 where st1: "stream_step vt sid idxs act st = Returns st1" "stream_exec vt sid idxs acts st1 = Returns st'"
    by (auto split: outcome.splits)
  then have "source_order cmp valid starts (ss_emitted st1)"
    using stream_exec_emitted [OF st1(2)] Cons.prems(3) by (metis source_order_prefix)
  then have "stream_inv cmp valid starts sid idxs e0 st1"
    using stream_step_inv [OF Cons.prems(1) _ st1(1)] Cons.prems(4) by simp
  with Cons.IH st1(2) Cons.prems(3,4) show ?case by simp
qed simp

lemma stream_init_inv:
  assumes "group_ok sid idxs e" and "ack_inv cmp valid sid (e_ackTracker e)"
  shows "stream_inv cmp valid (start_positions (e_ackTracker e) sid) sid idxs e (stream_init idxs e)"
proof -
  have "pipe_inv cmp (start_positions (e_ackTracker e) sid) (stream_init idxs e) idx" if "idx \<in> set idxs" for idx
  proof -
    have "pipelineSource (e_ackTracker e) (p_id (pipeline e idx)) = Some sid"
      using assms(1) that by (simp add: group_ok_def)
    then show ?thesis using that
      by (auto simp: pipe_inv_def confirmed_inv_def queue_inv_def stream_init_def seen_def start_positions_def
          applied_below_def queue_ok_def covered_def NewChangeBuffer_def Let_def)
  qed
  then show ?thesis using assms
    by (auto simp: stream_inv_def call_inv_def acked_inv_def stream_init_def NewChangeBuffer_def Let_def split: if_splits)
qed

end

section \<open>Examples\<close>

text \<open>Two pipelines of one source, both confirmed at position 5 by a baseline.\<close>

definition tab_t :: TableIdentifier where
  "tab_t = Table ''s'' ''t''"

definition tab_u :: TableIdentifier where
  "tab_u = Table ''s'' ''u''"

definition duo :: "(nat, unit) coreEngine" where
  "duo = (let e = example_engine [example_pipeline ''a'' tab_t 0, example_pipeline ''b'' tab_u 0]
          in e\<lparr>e_ackTracker := Confirm (Confirm (e_ackTracker e) ''a'' (PosLSN 5)) ''b'' (PosLSN 5)\<rparr>)"

definition duo_env :: call_env where
  "duo_env = example_env [''a'', ''b'']"

definition deliver :: "pipelineItem \<Rightarrow> action list" where
  "deliver item = [Emit item, Dispatch duo_env, Dispatch duo_env, Dispatch duo_env]"

lemma duo_group: "group_ok ''src'' [0, 1] duo"
  by (auto simp: group_ok_def duo_def example_defs tab_t_def tab_u_def Table_def ack_ops Let_def)

lemma duo_ack: "ack_inv CompareLSN (\<lambda>p. \<exists>l. p = PosLSN l) ''src'' (e_ackTracker duo)"
  by (auto simp: ack_inv_def ack_valid_def duo_def example_defs ack_ops Let_def split: if_splits)

lemma duo_source: "pipelineSource (e_ackTracker duo) = [''a'' \<mapsto> ''src'', ''b'' \<mapsto> ''src'']"
  by (simp add: duo_def example_defs ack_ops Let_def)

lemma duo_steady: "iter_order (env_ackOrder duo_env) [''a'' \<mapsto> ''src'', ''b'' \<mapsto> ''src'']"
  by (auto simp: duo_env_def example_defs iter_order_def)

definition duo_event :: ChangeEvent where
  "duo_event = example_insert tab_t (PosLSN 10) Map.empty"

lemmas stream_eval = stream_step_def stream_init_def dispatchItem_def dispatchOne_def dispatchHeartbeatOne_def
  SendCtx_def chan_send_def Receive_def consumeItem_def applied_by_def processChange_def applyChangeToTarget_def
  set_position_def applyFiltersAndTransforms_def isRowExpired_def on_success_def call_target_def add_rows_def
  observe_def set_pipeline_def confirmPipeline_def advanceAck_def NewChangeBuffer_def Len_def Cap_def
  ack_ops CompareLSN_def LastAcked_def is_skipped_def Let_def

definition duo_run :: "action list" where
  "duo_run = deliver (ItemEvent duo_event) @ [Consume 0 duo_env] @ deliver (ItemHeartbeat (PosLSN 20)) @
     [Consume 1 duo_env, Consume 0 duo_env]"

lemma duo_run_returns:
  "\<exists>st. stream_exec flaky_vt ''src'' [0, 1] duo_run (stream_init [0, 1] duo) = Returns st \<and>
     ss_emitted st = [ItemEvent duo_event, ItemHeartbeat (PosLSN 20)] \<and>
     CallAck ''src'' (PosLSN 20) \<in> set (e_log (ss_engine st)) \<and> \<not> is_skipped (e_ackTracker (ss_engine st)) ''a'' \<and>
     p_id (pipeline (ss_engine st) 0) = ''a'' \<and> p_table (pipeline (ss_engine st) 0) = tab_t"
  by (simp add: duo_run_def deliver_def duo_def duo_env_def duo_event_def example_defs stream_eval
      tab_t_def tab_u_def Table_def)

section \<open>Properties\<close>

text \<open>C2: Acknowledgements are safe in every interleaving of the source, the dispatcher, the consumers
  and the scanners (without pauses).  If the source emits in position order and no pipeline drops items,
  then whenever the engine has acknowledged a position, every event below it that the source emitted
  for the table of a pipeline has been applied to that pipeline's target, unless the pipeline has been
  put into error and excluded from the minimum.\<close>
theorem ack_safe:
  assumes "position_order cmp valid" and "group_ok sid idxs e" and "ack_inv cmp valid sid (e_ackTracker e)"
    and "stream_exec vt sid idxs acts (stream_init idxs e) = Returns st"
    and "\<forall>act \<in> set acts. steady (pipelineSource (e_ackTracker e)) act"
    and "source_order cmp valid (start_positions (e_ackTracker e) sid) (ss_emitted st)"
    and "CallAck sid pos \<in> set (e_log (ss_engine st))" and "CallAck sid pos \<notin> set (e_log e)"
    and "idx \<in> set idxs" and "\<not> is_skipped (e_ackTracker (ss_engine st)) (p_id (pipeline (ss_engine st) idx))"
    and "ItemEvent ev \<in> set (ss_emitted st)" and "ev_Table ev = p_table (pipeline (ss_engine st) idx)"
    and "cmp (ev_Position ev) pos < 0"
  shows "ev \<in> set (ss_applied st idx)"
proof -
  have "stream_inv cmp valid (start_positions (e_ackTracker e) sid) sid idxs e st"
    using position_order.stream_exec_inv [OF assms(1) position_order.stream_init_inv [OF assms(1-3)] assms(4,6,5)] .
  with assms(7-13) show ?thesis by (auto simp: stream_inv_def acked_inv_def applied_below_def)
qed

theorem ack_safe_witness:
  "\<exists>st. stream_exec flaky_vt ''src'' [0, 1] duo_run (stream_init [0, 1] duo) = Returns st \<and>
     CallAck ''src'' (PosLSN 20) \<in> set (e_log (ss_engine st)) \<and> duo_event \<in> set (ss_applied st 0)"
proof -
  obtain st where st: "stream_exec flaky_vt ''src'' [0, 1] duo_run (stream_init [0, 1] duo) = Returns st"
    "ss_emitted st = [ItemEvent duo_event, ItemHeartbeat (PosLSN 20)]"
    "CallAck ''src'' (PosLSN 20) \<in> set (e_log (ss_engine st))" "\<not> is_skipped (e_ackTracker (ss_engine st)) ''a''"
    "p_id (pipeline (ss_engine st) 0) = ''a''" "p_table (pipeline (ss_engine st) 0) = tab_t"
    using duo_run_returns by blast
  have starts: "start_positions (e_ackTracker duo) ''src'' = {PosLSN 5}"
    by (auto simp: start_positions_def duo_def example_defs ack_ops Let_def split: if_splits)
  have log: "e_log duo = []" by (simp add: duo_def example_defs Let_def)
  have "duo_event \<in> set (ss_applied st 0)"
    by (rule ack_safe [OF pg_order.position_order_axioms duo_group duo_ack st(1) _ _ st(3)])
      (simp_all add: duo_steady duo_source duo_run_def deliver_def starts st log source_order_def duo_event_def
        CompareLSN_def example_insert_def)
  with st show ?thesis by blast
qed


end
