(* ===== verification/Engine_Delivery.thy ===== *)
theory Engine_Delivery
  imports Engine_Acks Indexed_Target Fanout_Target
begin

text \<open>
  Delivery and replication: in every interleaving without pauses, a pipeline that is still streaming
  has been given exactly the events of its table, in the order in which the source emitted them; and on
  a target that meets the contract \<open>keyed_target\<close> the target's contents are the filtered and
  transformed image of the source table.  The proofs are in terms of the contract; the properties
  follow through its interpretations by the targets of the repository.
\<close>

section \<open>Changes that keep the configuration\<close>

definition calm :: "('t, 's) coreEngine \<Rightarrow> ('t, 's) coreEngine \<Rightarrow> bool" where
  "calm e e' \<longleftrightarrow> same_pipelines e e' \<and> pipelineSource (e_ackTracker e') = pipelineSource (e_ackTracker e) \<and>
     (\<forall>i < length (e_pipelines e). loadState e' i = PipelineStreaming \<longrightarrow> loadState e i = PipelineStreaming)"

lemma calm_quiet: "quiet e e' \<Longrightarrow> calm e e'"
  by (simp add: calm_def quiet_defs)

lemma calm_refl [simp]: "calm e e"
  by (simp add: calm_def)

lemma calm_advanceAck: "quiet e e1 \<Longrightarrow> calm e (advanceAck order err sid e1)"
  using AckPosition_frame(1) [of "e_ackTracker e1" sid order]
  by (simp add: calm_def quiet_defs advanceAck_effect) (metis prod.collapse)

lemma quiet_confirm: "quiet e e1 \<Longrightarrow> calm e (advanceAck order err sid (confirmPipeline idx pos e1))"
  using AckPosition_frame(1) [of "e_ackTracker (confirmPipeline idx pos e1)" sid order]
  by (simp add: calm_def quiet_defs advanceAck_effect Confirm_def) (metis prod.collapse)

lemma group_ok_calm: "group_ok sid idxs e \<Longrightarrow> calm e e' \<Longrightarrow> group_ok sid idxs e'"
  by (simp add: group_ok_def calm_def same_pipelines_def)

section \<open>Delivery in order\<close>

definition events_of :: "TableIdentifier \<Rightarrow> pipelineItem list \<Rightarrow> ChangeEvent list" where
  "events_of table items = filter (\<lambda>ev. ev_Table ev = table) (concat (map item_events items))"

lemma events_of_append [simp]: "events_of table (xs @ ys) = events_of table xs @ events_of table ys"
  by (simp add: events_of_def)

lemma events_of_Nil [simp]: "events_of table [] = []"
  by (simp add: events_of_def)

text \<open>The part of the current handler call that a pipeline has not seen yet.\<close>

definition waiting :: "('t, 's) stream_state \<Rightarrow> nat \<Rightarrow> TableIdentifier \<Rightarrow> ChangeEvent list" where
  "waiting st idx table =
     (case ss_call st of
        None \<Rightarrow> []
      | Some (item, rest) \<Rightarrow> if idx \<in> set rest then events_of table [item] else [])"

definition delivery_inv :: "('t, 's) stream_state \<Rightarrow> nat \<Rightarrow> bool" where
  "delivery_inv st idx \<longleftrightarrow>
     (\<not> ss_failed st \<longrightarrow> loadState (ss_engine st) idx = PipelineStreaming \<longrightarrow>
        (\<exists>b. ss_buffers st idx = Some b \<and>
           ss_applied st idx @ concat (map item_events (ch b)) @ waiting st idx (p_table (pipeline (ss_engine st) idx)) =
           events_of (p_table (pipeline (ss_engine st) idx)) (ss_emitted st)))"

text \<open>A calm change that keeps what concerns a pipeline keeps its invariant.\<close>

lemma delivery_inv_calm:
  assumes "delivery_inv st idx" and "calm (ss_engine st) (ss_engine st')" and "idx < length (e_pipelines (ss_engine st))"
    and "ss_emitted st' = ss_emitted st" and "ss_applied st' idx = ss_applied st idx"
    and "\<And>b. ss_buffers st idx = Some b \<Longrightarrow> \<exists>b'. ss_buffers st' idx = Some b' \<and> ch b' = ch b"
    and "\<not> ss_failed st' \<Longrightarrow> \<not> ss_failed st \<and> (\<forall>table. waiting st' idx table = waiting st idx table)"
  shows "delivery_inv st' idx"
  unfolding delivery_inv_def
proof (intro impI)
  assume "\<not> ss_failed st'" and "loadState (ss_engine st') idx = PipelineStreaming"
  then have st: "\<not> ss_failed st" "loadState (ss_engine st) idx = PipelineStreaming"
    and w: "\<And>table. waiting st' idx table = waiting st idx table"
    using assms(2,3,7) by (auto simp: calm_def)
  have tab: "p_table (pipeline (ss_engine st') idx) = p_table (pipeline (ss_engine st) idx)"
    using assms(2,3) by (simp add: calm_def same_pipelines_def)
  from assms(1) st obtain b where b: "ss_buffers st idx = Some b"
    "ss_applied st idx @ concat (map item_events (ch b)) @ waiting st idx (p_table (pipeline (ss_engine st) idx)) =
     events_of (p_table (pipeline (ss_engine st) idx)) (ss_emitted st)"
    by (auto simp: delivery_inv_def)
  from assms(6) [OF b(1)] obtain b' where "ss_buffers st' idx = Some b'" "ch b' = ch b" by blast
  with b(2) show "\<exists>b. ss_buffers st' idx = Some b \<and>
      ss_applied st' idx @ concat (map item_events (ch b)) @ waiting st' idx (p_table (pipeline (ss_engine st') idx)) =
      events_of (p_table (pipeline (ss_engine st') idx)) (ss_emitted st')"
    by (simp add: tab w assms(4,5))
qed

definition base_inv :: "string \<Rightarrow> nat list \<Rightarrow> ('t, 's) stream_state \<Rightarrow> bool" where
  "base_inv sid idxs st \<longleftrightarrow> group_ok sid idxs (ss_engine st) \<and> call_inv idxs st \<and> (\<forall>idx \<in> set idxs. delivery_inv st idx)"

lemma calm_consume: "consume_result x idx sid env e app e' \<Longrightarrow> calm e e'"
  by (auto simp: consume_result_def intro: calm_quiet calm_advanceAck quiet_confirm)

lemma delivery_dispatched:
  assumes inv: "delivery_inv st j" and grp: "j < length (e_pipelines (ss_engine st))" and call: "call_inv idxs st"
    and c: "ss_call st = Some (item, idx # rest)"
    and res: "dispatch_result item idx (ss_buffers st) (ss_engine st) (nxt, bs, e')"
    and st': "st' = st\<lparr>ss_engine := e', ss_buffers := bs,
        ss_call := (if nxt = NextPipeline then Some (item, rest) else None), ss_failed := (nxt \<noteq> NextPipeline)\<rparr>"
  shows "delivery_inv st' j"
proof (cases "nxt = NextPipeline \<and> loadState e' j = PipelineStreaming")
  case False
  then show ?thesis by (auto simp: delivery_inv_def st')
next
  case nxt: True
  have calm: "calm (ss_engine st) (ss_engine st')" using res by (auto simp: dispatch_result_def st' intro: calm_quiet)
  then have e: "loadState (ss_engine st) j = PipelineStreaming"
    "p_table (pipeline e' j) = p_table (pipeline (ss_engine st) j)"
    using nxt grp by (auto simp: calm_def same_pipelines_def st')
  have nf: "\<not> ss_failed st" "idx \<notin> set rest" using call c by (auto simp: call_inv_def)
  show ?thesis
  proof (cases "j = idx")
    case False
    moreover have "bs j = ss_buffers st j" using res False by (auto simp: dispatch_result_def)
    ultimately show ?thesis
      by (intro delivery_inv_calm [OF inv calm grp]) (use nxt nf c in \<open>auto simp: st' waiting_def\<close>)
  next
    case True
    from inv e nf obtain b where b: "ss_buffers st idx = Some b"
      "ss_applied st idx @ concat (map item_events (ch b)) @ waiting st idx (p_table (pipeline (ss_engine st) idx)) =
       events_of (p_table (pipeline (ss_engine st) idx)) (ss_emitted st)"
      using True by (auto simp: delivery_inv_def)
    let ?tab = "p_table (pipeline (ss_engine st) idx)"
    have w: "waiting st idx ?tab = events_of ?tab [item]" "waiting st' idx ?tab = []"
      using c nxt nf by (auto simp: waiting_def st')
    from res nxt e True b(1) consider
        (sent) "\<forall>ev. item = ItemEvent ev \<longrightarrow> ev_Table ev = ?tab" "bs = (ss_buffers st)(idx \<mapsto> b\<lparr>ch := ch b @ [item]\<rparr>)"
      | (other) "bs = ss_buffers st" "\<exists>ev. item = ItemEvent ev \<and> ev_Table ev \<noteq> ?tab"
      by (auto simp: dispatch_result_def)
    then show ?thesis
    proof cases
      case sent
      then have "events_of ?tab [item] = item_events item" by (cases item) (auto simp: events_of_def)
      with sent b w nxt e True show ?thesis by (auto simp: delivery_inv_def st')
    next
      case other
      then have "events_of ?tab [item] = []" by (auto simp: events_of_def)
      with other b w nxt e True show ?thesis by (auto simp: delivery_inv_def st')
    qed
  qed
qed

lemma delivery_consumed:
  assumes inv: "delivery_inv st j" and grp: "j < length (e_pipelines (ss_engine st))"
    and b: "ss_buffers st idx = Some b" "ch b = x # xs" and res: "consume_result x idx sid env (ss_engine st) app e'"
    and st': "ss_engine st' = e'" "ss_buffers st' = (ss_buffers st)(idx \<mapsto> b\<lparr>ch := xs\<rparr>)" "ss_call st' = ss_call st"
      "ss_failed st' = ss_failed st" "ss_emitted st' = ss_emitted st"
      "ss_applied st' = (ss_applied st)(idx := ss_applied st idx @ app)"
  shows "delivery_inv st' j"
proof (cases "j = idx")
  case False
  with st' calm_consume [OF res] show ?thesis
    by (intro delivery_inv_calm [OF inv _ grp]) (auto simp: waiting_def)
next
  case True
  show ?thesis
  proof (cases "loadState e' idx = PipelineStreaming")
    case False
    with True st'(1) show ?thesis by (simp add: delivery_inv_def)
  next
    case streaming: True
    with calm_consume [OF res] grp True have e: "loadState (ss_engine st) idx = PipelineStreaming"
      "p_table (pipeline e' idx) = p_table (pipeline (ss_engine st) idx)"
      by (auto simp: calm_def same_pipelines_def)
    with res streaming have "app = item_events x" by (auto simp: consume_result_def)
    with inv True e b st' show ?thesis by (auto simp: delivery_inv_def waiting_def)
  qed
qed

lemma base_step:
  assumes inv: "base_inv sid idxs st" and r: "stream_step vt sid idxs act st = Returns st'" and un: "unpaused act"
  shows "base_inv sid idxs st'"
proof -
  have grp: "group_ok sid idxs (ss_engine st)" and call: "call_inv idxs st"
    and len: "\<And>j. j \<in> set idxs \<Longrightarrow> j < length (e_pipelines (ss_engine st))"
    and del: "\<And>j. j \<in> set idxs \<Longrightarrow> delivery_inv st j"
    using inv by (auto simp: base_inv_def group_ok_def)
  have "calm (ss_engine st) (ss_engine st') \<and> (\<forall>j \<in> set idxs. delivery_inv st' j)"
    using r grp call un
  proof (cases rule: stream_step_cases)
    case (emitted item)
    moreover have "delivery_inv st' j" if "j \<in> set idxs" for j
      using del [OF that] emitted that by (auto simp: delivery_inv_def waiting_def)
    ultimately show ?thesis by simp
  next
    case (called item)
    moreover have "delivery_inv st' j" if "j \<in> set idxs" for j
      using called by (intro delivery_inv_calm [OF del [OF that] _ len [OF that]]) (auto simp: waiting_def)
    ultimately show ?thesis by simp
  next
    case (dispatched item idx rest nxt bs e')
    moreover have "delivery_inv st' j" if "j \<in> set idxs" for j
      by (rule delivery_dispatched [OF del [OF that] len [OF that] call dispatched(1,2,3)])
    ultimately show ?thesis by (auto simp: dispatch_result_def intro: calm_quiet)
  next
    case (exited idx)
    moreover have "delivery_inv st' j" if "j \<in> set idxs" for j
      using exited by (intro delivery_inv_calm [OF del [OF that] _ len [OF that]]) (auto simp: waiting_def)
    ultimately show ?thesis by simp
  next
    case (consumed idx env b x xs nxt e')
    moreover have "delivery_inv st' j" if "j \<in> set idxs" for j
      by (rule delivery_consumed [OF del [OF that] len [OF that] consumed(2,3,6)]) (simp_all add: consumed(7))
    ultimately show ?thesis by (auto intro: calm_consume)
  next
    case (scanned e')
    moreover have "delivery_inv st' j" if "j \<in> set idxs" for j
      using scanned by (intro delivery_inv_calm [OF del [OF that] _ len [OF that]]) (auto simp: waiting_def intro: calm_quiet)
    ultimately show ?thesis by (auto intro: calm_quiet)
  next
    case closed
    moreover have "delivery_inv st' j" if "j \<in> set idxs" for j
      using closed by (intro delivery_inv_calm [OF del [OF that] _ len [OF that]]) (auto simp: waiting_def)
    ultimately show ?thesis by simp
  qed
  then show ?thesis using group_ok_calm [OF grp] call_inv_step [OF r grp call un] by (simp add: base_inv_def)
qed

lemma base_exec:
  assumes "base_inv sid idxs st" and "stream_exec vt sid idxs acts st = Returns st'" and "\<forall>act \<in> set acts. unpaused act"
  shows "base_inv sid idxs st'"
  using assms
proof (induction acts arbitrary: st)
  case (Cons act acts)
  then obtain st1 where "stream_step vt sid idxs act st = Returns st1" "stream_exec vt sid idxs acts st1 = Returns st'"
    by (auto split: outcome.splits)
  with Cons base_step show ?case by fastforce
qed simp

lemma base_init: "group_ok sid idxs e \<Longrightarrow> base_inv sid idxs (stream_init idxs e)"
  by (auto simp: base_inv_def call_inv_def delivery_inv_def waiting_def stream_init_def NewChangeBuffer_def Let_def
      split: if_splits)

section \<open>The image of the source table\<close>

text \<open>What a pipeline makes of a source table, and the effect of a change on that table.\<close>

definition view_of :: "'t resolvedPipeline \<Rightarrow> TableIdentifier \<Rightarrow> (string \<rightharpoonup> row) \<Rightarrow> (string \<rightharpoonup> row)" where
  "view_of p table S = (\<lambda>k. case S k of None \<Rightarrow> None | Some r \<Rightarrow> applyFiltersAndTransforms p table (Some r))"

definition source_apply :: "(row \<Rightarrow> string) \<Rightarrow> ChangeEvent \<Rightarrow> (string \<rightharpoonup> row) \<Rightarrow> (string \<rightharpoonup> row)" where
  "source_apply key ev S =
     (let new = nilrow (ev_NewValues ev); old = nilrow (ev_OldValues ev) in
      case ev_Action ev of
        ActionInsert \<Rightarrow> S(key new \<mapsto> new)
      | ActionUpdate \<Rightarrow> S(key old := None, key new \<mapsto> new)
      | ActionDelete \<Rightarrow> S(key old := None)
      | ActionTruncate \<Rightarrow> Map.empty)"

text \<open>The transforms do not touch the key columns.\<close>

definition keeps_key :: "(row \<Rightarrow> string) \<Rightarrow> 't resolvedPipeline \<Rightarrow> TableIdentifier \<Rightarrow> bool" where
  "keeps_key key p table \<longleftrightarrow> (\<forall>r r'. applyFiltersAndTransforms p table (Some r) = Some r' \<longrightarrow> key r' = key r)"

text \<open>A change that fits the table: it carries the whole old row, it does not insert a key twice, and an
  update does not move a row out of the pipeline's filters.\<close>

definition event_ok :: "(row \<Rightarrow> string) \<Rightarrow> 't resolvedPipeline \<Rightarrow> (string \<rightharpoonup> row) \<Rightarrow> ChangeEvent \<Rightarrow> bool" where
  "event_ok key p S ev \<longleftrightarrow>
     (case ev_Action ev of
        ActionInsert \<Rightarrow> ev_NewValues ev \<noteq> None \<and> S (key (nilrow (ev_NewValues ev))) = None
      | ActionUpdate \<Rightarrow>
          ev_NewValues ev \<noteq> None \<and> ev_OldValues ev \<noteq> None \<and>
          S (key (nilrow (ev_OldValues ev))) = ev_OldValues ev \<and>
          (key (nilrow (ev_NewValues ev)) = key (nilrow (ev_OldValues ev)) \<or> S (key (nilrow (ev_NewValues ev))) = None) \<and>
          (applyFiltersAndTransforms p (ev_Table ev) (ev_NewValues ev) = None \<longrightarrow>
             applyFiltersAndTransforms p (ev_Table ev) (ev_OldValues ev) = None)
      | ActionDelete \<Rightarrow> ev_OldValues ev \<noteq> None \<and> S (key (nilrow (ev_OldValues ev))) = ev_OldValues ev
      | ActionTruncate \<Rightarrow> True)"

definition same_key :: "(row \<Rightarrow> string) \<Rightarrow> ChangeEvent \<Rightarrow> bool" where
  "same_key key ev \<longleftrightarrow> ev_Action ev = ActionUpdate \<longrightarrow> key (nilrow (ev_OldValues ev)) = key (nilrow (ev_NewValues ev))"

fun events_ok :: "(row \<Rightarrow> string) \<Rightarrow> 't resolvedPipeline \<Rightarrow> (string \<rightharpoonup> row) \<Rightarrow> ChangeEvent list \<Rightarrow> bool" where
  "events_ok key p S [] \<longleftrightarrow> True"
| "events_ok key p S (ev # evs) \<longleftrightarrow> event_ok key p S ev \<and> events_ok key p (source_apply key ev S) evs"

definition source_applies :: "(row \<Rightarrow> string) \<Rightarrow> ChangeEvent list \<Rightarrow> (string \<rightharpoonup> row) \<Rightarrow> (string \<rightharpoonup> row)" where
  "source_applies key evs S = fold (source_apply key) evs S"

lemma events_ok_append:
  "events_ok key p S (xs @ ys) \<longleftrightarrow> events_ok key p S xs \<and> events_ok key p (source_applies key xs S) ys"
  by (induction xs arbitrary: S) (auto simp: source_applies_def)

lemma view_of_upd: "view_of p table (S(k \<mapsto> r)) = (view_of p table S)(k := applyFiltersAndTransforms p table (Some r))"
  by (auto simp: view_of_def fun_eq_iff)

lemma view_of_del: "view_of p table (S(k := None)) = (view_of p table S)(k := None)"
  by (auto simp: view_of_def fun_eq_iff)

lemma view_of_empty [simp]: "view_of p table Map.empty = Map.empty"
  by (simp add: view_of_def)

lemma applyFilters_view: "\<not> applyFilters p table r \<Longrightarrow> applyFiltersAndTransforms p table r = None"
  by (simp add: applyFilters_def applyFiltersAndTransforms_def)

text \<open>Applying a change, as far as the target's contents and invariant are concerned; \<open>upd\<close> is the
  law for updates.\<close>

context keyed_target
begin

lemma set_position_mirror:
  "inv (p_target p) \<Longrightarrow> inv (p_target (set_position vt pos p)) \<and>
     contents (p_target (set_position vt pos p)) = contents (p_target p)"
  using on_position [of "p_target p"] by (auto simp: set_position_def split: option.split)

lemma apply_mirror_upd:
  assumes "inv (p_target p)" and "contents (p_target p) = view_of p (ev_Table ev) S" and "p_ttlFunc p = None"
    and key: "keeps_key key p (ev_Table ev)" and ok: "event_ok key p S ev"
    and upd: "\<And>t r. ev_Action ev = ActionUpdate \<Longrightarrow> inv t \<Longrightarrow> key r = key (nilrow (ev_NewValues ev)) \<Longrightarrow>
      fst (t_OnUpdate vt (later now) (ev_Table ev) r (nilrow (ev_OldValues ev)) t) = None \<and>
      inv (snd (t_OnUpdate vt (later now) (ev_Table ev) r (nilrow (ev_OldValues ev)) t)) \<and>
      contents (snd (t_OnUpdate vt (later now) (ev_Table ev) r (nilrow (ev_OldValues ev)) t)) =
        (contents t)(key (nilrow (ev_OldValues ev)) := None, key r \<mapsto> r)"
    and r: "applyChangeToTarget vt now p ev = (err, p')"
  shows "err = None \<and> inv (p_target p') \<and> contents (p_target p') = view_of p (ev_Table ev) (source_apply key ev S)"
proof -
  let ?p = "set_position vt (ev_Position ev) p" and ?tab = "ev_Table ev"
  have p: "inv (p_target ?p)" "contents (p_target ?p) = view_of p ?tab S"
    using set_position_mirror [OF assms(1)] assms(2) by auto
  have cfg: "p_filters ?p = p_filters p" "p_transforms ?p = p_transforms p" "p_ttlFunc ?p = None"
    using assms(3) by (simp_all add: set_position_def split: option.split)
  then have ft: "applyFiltersAndTransforms ?p = applyFiltersAndTransforms p" "applyFilters ?p = applyFilters p"
    and ttl: "\<not> isRowExpired ?p n row" for n row
    by (simp_all add: fun_eq_iff applyFiltersAndTransforms_def applyFilters_def isRowExpired_def)
  note defs = applyChangeToTarget_def Let_def ft ttl on_success_def call_target_def add_rows_def source_apply_def
  show ?thesis
  proof (cases "ev_Action ev")
    case ActionInsert
    with ok obtain new where new: "ev_NewValues ev = Some new" "S (key new) = None" by (auto simp: event_ok_def)
    then have none: "view_of p ?tab S (key new) = None" by (simp add: view_of_def)
    show ?thesis
    proof (cases "applyFiltersAndTransforms p ?tab (Some new)")
      case None
      with ActionInsert r new p none show ?thesis by (auto simp: defs view_of_upd fun_upd_idem)
    next
      case (Some r')
      then have "key r' = key new" using key by (auto simp: keeps_key_def)
      with Some ActionInsert r new p on_insert [OF p(1), of "later now" ?tab r'] show ?thesis
        by (auto simp: defs view_of_upd split: prod.splits)
    qed
  next
    case ActionUpdate
    with ok obtain new old where rows: "ev_NewValues ev = Some new" "ev_OldValues ev = Some old"
      by (auto simp: event_ok_def)
    with ActionUpdate ok have old: "S (key old) = Some old" "key new = key old \<or> S (key new) = None"
      and leave: "applyFiltersAndTransforms p ?tab (Some new) = None \<Longrightarrow> applyFiltersAndTransforms p ?tab (Some old) = None"
      by (auto simp: event_ok_def)
    show ?thesis
    proof (cases "applyFiltersAndTransforms p ?tab (Some new)")
      case None
      then have "view_of p ?tab S (key old) = None" "view_of p ?tab S (key new) = None"
        using leave old by (auto simp: view_of_def)
      with None ActionUpdate r rows p show ?thesis by (auto simp: defs view_of_upd view_of_del fun_upd_idem)
    next
      case (Some r')
      then have "key r' = key new" using key by (auto simp: keeps_key_def)
      with Some ActionUpdate r rows p upd [OF _ p(1), of r'] show ?thesis
        by (auto simp: defs view_of_upd view_of_del split: prod.splits)
    qed
  next
    case ActionDelete
    with ok obtain old where old: "ev_OldValues ev = Some old" "S (key old) = Some old" by (auto simp: event_ok_def)
    show ?thesis
    proof (cases "applyFilters p ?tab (Some old)")
      case False
      then have "view_of p ?tab S (key old) = None" using old applyFilters_view by (auto simp: view_of_def)
      with False ActionDelete r old p show ?thesis by (auto simp: defs view_of_del fun_upd_idem)
    next
      case True
      with ActionDelete r old p on_delete [OF p(1), of now ?tab old] show ?thesis
        by (auto simp: defs view_of_del split: prod.splits)
    qed
  next
    case ActionTruncate
    with r p on_truncate [OF p(1), of now ?tab] show ?thesis by (auto simp: defs split: prod.splits)
  qed
qed

lemma apply_mirror:
  assumes "inv (p_target p)" and "contents (p_target p) = view_of p (ev_Table ev) S" and "p_ttlFunc p = None"
    and "keeps_key key p (ev_Table ev)" and "event_ok key p S ev" and "same_key key ev"
    and "applyChangeToTarget vt now p ev = (err, p')"
  shows "err = None \<and> inv (p_target p') \<and> contents (p_target p') = view_of p (ev_Table ev) (source_apply key ev S)"
  by (rule apply_mirror_upd [OF assms(1-5) _ assms(7)]) (use assms(6) on_update in \<open>auto simp: same_key_def\<close>)

end

context rekeying_target
begin

lemma apply_mirror_rekey:
  assumes "inv (p_target p)" and "contents (p_target p) = view_of p (ev_Table ev) S" and "p_ttlFunc p = None"
    and "keeps_key key p (ev_Table ev)" and "event_ok key p S ev" and "applyChangeToTarget vt now p ev = (err, p')"
  shows "err = None \<and> inv (p_target p') \<and> contents (p_target p') = view_of p (ev_Table ev) (source_apply key ev S)"
  by (rule apply_mirror_upd [OF assms(1-5) _ assms(6)]) (use on_update_rekey in auto)

end

section \<open>The target of a session\<close>

lemma consumeItem_applied:
  assumes "consumeItem vt env sid idx idxs buf (ItemEvent ev) e = (nxt, e')" and "loadState e idx = PipelineStreaming"
    and "applyChangeToTarget vt (env_now env 0) (pipeline e idx) ev = (None, p')" and "idx < length (e_pipelines e)"
  shows "pipeline e' idx = p'" and "applied_by vt env idx (ItemEvent ev) e = [ev]"
  using assms by (auto simp: consumeItem_def processChange_def applied_by_def Let_def advanceAck_effect split: if_splits)

lemma consumeItem_idle:
  assumes "consumeItem vt env sid idx idxs buf x e = (nxt, e')"
    and "loadState e idx \<noteq> PipelineStreaming \<or> item_events x = []"
  shows "e_pipelines e' = e_pipelines e"
  using assms by (cases x) (auto simp: consumeItem_def Let_def advanceAck_effect split: if_splits)

lemma consumeItem_other:
  assumes r: "consumeItem vt env sid idx idxs buf x e = (nxt, e')" and i: "i \<noteq> idx" "i < length (e_pipelines e)"
    and idxs: "idx \<in> set idxs" "\<forall>i \<in> set idxs. i < length (e_pipelines e)"
  shows "only_state i e e'"
proof (cases "loadState e idx \<noteq> PipelineStreaming \<or> item_events x = []")
  case True
  then show ?thesis using consumeItem_idle [OF r] by (simp add: only_state_same)
next
  case False
  then obtain ev where x: "x = ItemEvent ev" "loadState e idx = PipelineStreaming" by (cases x) auto
  let ?e = "observe (OnBufferDepthChanged (p_id (pipeline e idx)) (Len buf) (Cap buf)) e"
  obtain res e1 where pc: "processChange vt env idx ev ?e = (res, e1)" by fastforce
  obtain q where e1: "e_pipelines e1 = (e_pipelines e)[idx := q]"
    using processChange_cases [OF pc] by (metis observe_frame(1))
  show ?thesis
  proof (cases res)
    case None
    with r x pc have "e_pipelines e' = e_pipelines e1"
      by (auto simp: consumeItem_def Let_def advanceAck_effect split: if_splits)
    with e1 i show ?thesis by (simp add: only_state_same)
  next
    case (Some err)
    let ?e2 = "if e_deadLetterStore e1 \<and> env_deadLetter env = None
      then observe (OnDeadLetterWritten (p_id (pipeline e idx)) ev err) e1 else e1"
    obtain stop where pol: "applyErrorPolicy idx sid idxs ?e2 = (stop, e')"
      using r x pc Some by (auto simp: consumeItem_def Let_def split: prod.splits if_splits)
    have e2: "e_pipelines ?e2 = (e_pipelines e)[idx := q]" using e1 by simp
    have "only_state i ?e2 e'" by (rule only_state_policy [OF pol]) (use idxs e2 in auto)
    moreover have "pipeline ?e2 i = pipeline e i" using e2 i by simp
    ultimately show ?thesis by (simp add: only_state_def)
  qed
qed

lemma ttl_other:
  assumes "i \<noteq> idx \<or> p_ttlFunc (pipeline e i) = None"
  shows "pipeline (runTTLScanner vt idx [t] e) i = pipeline e i"
proof (cases "i = idx")
  case True
  with assms runTTLScanner_target show ?thesis by metis
next
  case False
  have "pipeline (deleteExpired vt now don k rs idx e) i = pipeline e i" for now don k rs and e :: "('a, 'b) coreEngine"
    using False by (induction rs arbitrary: k e) (auto simp: Let_def split: prod.split option.split)
  then show ?thesis by (simp add: runTTLScanner_def scanExpiredRows_def split: option.split)
qed

text \<open>What concerns the view of a pipeline.\<close>

definition same_view :: "'t resolvedPipeline \<Rightarrow> 't resolvedPipeline \<Rightarrow> bool" where
  "same_view p q \<longleftrightarrow> p_filters q = p_filters p \<and> p_transforms q = p_transforms p \<and> p_ttlFunc q = p_ttlFunc p \<and>
     p_table q = p_table p"

lemma same_view_eqs:
  assumes "same_view p q"
  shows "view_of q = view_of p" "keeps_key key q = keeps_key key p" "event_ok key q = event_ok key p"
    "events_ok key q S evs = events_ok key p S evs"
proof -
  have ft: "applyFiltersAndTransforms q = applyFiltersAndTransforms p"
    using assms by (simp add: fun_eq_iff same_view_def applyFiltersAndTransforms_def)
  show "view_of q = view_of p" "keeps_key key q = keeps_key key p" and ok: "event_ok key q = event_ok key p"
    unfolding fun_eq_iff view_of_def keeps_key_def event_ok_def ft by simp_all
  show "events_ok key q S evs = events_ok key p S evs"
    by (induction evs arbitrary: S) (simp_all add: ok)
qed

lemma only_state_view: "only_state i e e' \<Longrightarrow> same_view p (pipeline e i) \<Longrightarrow> same_view p (pipeline e' i)"
  by (auto simp: only_state_def same_view_def dest: arg_cong [where f = p_filters] arg_cong [where f = p_transforms]
      arg_cong [where f = p_ttlFunc] arg_cong [where f = p_table])

lemma only_state_target: "only_state i e e' \<Longrightarrow> p_target (pipeline e' i) = p_target (pipeline e i)"
  by (auto simp: only_state_def dest: arg_cong [where f = p_target])

lemma same_setup_view: "same_setup p q \<Longrightarrow> same_view p q"
  by (simp add: same_setup_def same_view_def)

text \<open>A pipeline's target mirrors the table that results from the events applied so far.\<close>

definition mirrors ::
    "('t \<Rightarrow> string \<rightharpoonup> row) \<Rightarrow> ('t \<Rightarrow> bool) \<Rightarrow> (row \<Rightarrow> string) \<Rightarrow> 't resolvedPipeline \<Rightarrow> (string \<rightharpoonup> row) \<Rightarrow>
     ('t, 's) stream_state \<Rightarrow> nat \<Rightarrow> bool" where
  "mirrors contents good key p S st idx \<longleftrightarrow>
     (\<not> ss_failed st \<longrightarrow> loadState (ss_engine st) idx = PipelineStreaming \<longrightarrow>
        same_view p (pipeline (ss_engine st) idx) \<and> good (p_target (pipeline (ss_engine st) idx)) \<and>
        contents (p_target (pipeline (ss_engine st) idx)) = view_of p (p_table p) (source_applies key (ss_applied st idx) S))"

lemma mirrors_only_state:
  assumes "mirrors contents good key p S st idx" and "only_state idx (ss_engine st) (ss_engine st')"
    and "loadState (ss_engine st') idx = PipelineStreaming \<Longrightarrow> loadState (ss_engine st) idx = PipelineStreaming"
    and "ss_applied st' idx = ss_applied st idx" and "\<not> ss_failed st' \<Longrightarrow> \<not> ss_failed st"
  shows "mirrors contents good key p S st' idx"
  using assms only_state_view [OF assms(2)] only_state_target [OF assms(2)] by (auto simp: mirrors_def)

text \<open>The contract between the engine and a target as the session uses it: applying an event that fits
  the table and that the target can follow succeeds and keeps the mirror.\<close>

locale mirroring =
  fixes vt :: "'t SyncTarget"
    and key :: "row \<Rightarrow> string"
    and contents :: "'t \<Rightarrow> string \<rightharpoonup> row"
    and inv :: "'t \<Rightarrow> bool"
    and follows :: "ChangeEvent \<Rightarrow> bool"
  assumes apply_follows: "inv (p_target p) \<Longrightarrow> contents (p_target p) = view_of p (ev_Table ev) S \<Longrightarrow>
      p_ttlFunc p = None \<Longrightarrow> keeps_key key p (ev_Table ev) \<Longrightarrow> event_ok key p S ev \<Longrightarrow> follows ev \<Longrightarrow>
      applyChangeToTarget vt now p ev = (err, p') \<Longrightarrow>
      err = None \<and> inv (p_target p') \<and> contents (p_target p') = view_of p (ev_Table ev) (source_apply key ev S)"
begin

lemma consumed_mirrors:
  assumes m: "mirrors contents inv key p S st idx" and idx: "idx \<in> set idxs" "\<forall>i \<in> set idxs. i < length (e_pipelines (ss_engine st))"
    and del: "delivery_inv st idx" and b: "ss_buffers st j = Some b" "ch b = x # xs" and j: "j \<in> set idxs"
    and ci: "consumeItem vt env sid j idxs (b\<lparr>ch := xs\<rparr>) x (ss_engine st) = (nxt, e')"
    and calm: "calm (ss_engine st) e'"
    and ttl: "p_ttlFunc p = None" and key: "keeps_key key p (p_table p)"
    and ok: "events_ok key p S (events_of (p_table p) (ss_emitted st))"
      "\<forall>ev \<in> set (events_of (p_table p) (ss_emitted st)). follows ev"
    and st': "ss_engine st' = e'" "ss_failed st' = ss_failed st"
      "ss_applied st' = (ss_applied st)(j := ss_applied st j @ applied_by vt env j x (ss_engine st))"
  shows "mirrors contents inv key p S st' idx"
proof -
  have streaming: "loadState e' idx = PipelineStreaming \<Longrightarrow> loadState (ss_engine st) idx = PipelineStreaming"
    using calm idx by (auto simp: calm_def)
  consider (other) "j \<noteq> idx" | (idle) "j = idx" "loadState (ss_engine st) idx \<noteq> PipelineStreaming \<or> item_events x = []"
    | (event) ev where "j = idx" "loadState (ss_engine st) idx = PipelineStreaming" "x = ItemEvent ev"
    by (cases x) auto
  then show ?thesis
  proof cases
    case other
    then have "only_state idx (ss_engine st) e'" using consumeItem_other [OF ci] idx j by auto
    then show ?thesis by (intro mirrors_only_state [OF m]) (simp_all add: st' streaming other [symmetric])
  next
    case idle
    then have "applied_by vt env idx x (ss_engine st) = []" by (cases x) (auto simp: applied_by_def)
    moreover have "e_pipelines e' = e_pipelines (ss_engine st)" using consumeItem_idle [OF ci] idle by simp
    ultimately show ?thesis
      by (intro mirrors_only_state [OF m]) (simp_all add: st' idle(1) only_state_same)
  next
    case event
    let ?q = "pipeline (ss_engine st) idx"
    obtain err p' where a: "applyChangeToTarget vt (env_now env 0) ?q ev = (err, p')" by fastforce
    show ?thesis
    proof (cases "ss_failed st")
      case True
      then show ?thesis using st' by (simp add: mirrors_def)
    next
      case False
      with m event have view: "same_view p ?q" by (simp add: mirrors_def)
      then have tab: "p_table ?q = p_table p" "p_ttlFunc ?q = None" using ttl by (simp_all add: same_view_def)
      note eqs = same_view_eqs [OF view]
      from del False event tab have pre: "events_of (p_table p) (ss_emitted st) =
          ss_applied st idx @ ev # concat (map item_events xs) @ waiting st idx (p_table p)"
        using b by (auto simp: delivery_inv_def)
      let ?S = "source_applies key (ss_applied st idx) S"
      have mem: "ev \<in> set (events_of (p_table p) (ss_emitted st))" by (simp add: pre)
      then have ev: "follows ev" "ev_Table ev = p_table p" using ok(2) by (auto simp: events_of_def)
      have ok': "event_ok key ?q ?S ev" using ok(1) unfolding pre by (simp add: events_ok_append eqs(3))
      have res: "err = None \<and> inv (p_target p') \<and> contents (p_target p') = view_of p (p_table p) (source_apply key ev ?S)"
        using apply_follows [OF _ _ tab(2) _ ok' ev(1) a] m event(2) False key by (simp add: mirrors_def eqs ev(2))
      with a have a': "applyChangeToTarget vt (env_now env 0) ?q ev = (None, p')" by simp
      have "pipeline e' idx = p'" "applied_by vt env idx x (ss_engine st) = [ev]"
        using consumeItem_applied [OF _ _ a'] ci event idx by auto
      moreover have "same_view p p'"
        using view same_setup_view [OF applyChangeToTarget_config [OF a]] by (simp add: same_view_def)
      ultimately show ?thesis using res event st' by (auto simp: mirrors_def source_applies_def)
    qed
  qed
qed

lemma step_mirrors:
  assumes m: "mirrors contents inv key p S st idx" and base: "base_inv sid idxs st" and idx: "idx \<in> set idxs"
    and r: "stream_step vt sid idxs act st = Returns st'" and un: "unpaused act"
    and ttl: "p_ttlFunc p = None" and key: "keeps_key key p (p_table p)"
    and ok: "events_ok key p S (events_of (p_table p) (ss_emitted st'))"
      "\<forall>ev \<in> set (events_of (p_table p) (ss_emitted st')). follows ev"
  shows "mirrors contents inv key p S st' idx"
proof -
  have grp: "group_ok sid idxs (ss_engine st)" and call: "call_inv idxs st" and del: "delivery_inv st idx"
    and len: "\<forall>i \<in> set idxs. i < length (e_pipelines (ss_engine st))"
    using base idx by (auto simp: base_inv_def group_ok_def)
  from r grp call un show ?thesis
  proof (cases rule: stream_step_cases)
    case (dispatched item j rest nxt bs e')
    then have "only_state idx (ss_engine st) e'" "quiet (ss_engine st) e'" "\<not> ss_failed st"
      using call idx len by (auto simp: dispatch_result_def call_inv_def)
    with dispatched(3) idx len show ?thesis by (intro mirrors_only_state [OF m]) (auto simp: quiet_def)
  next
    case (consumed j env b x xs nxt e')
    then have "ss_emitted st' = ss_emitted st" by simp
    with ok consumed show ?thesis
      by (intro consumed_mirrors [OF m idx len del consumed(2,3,4,5) calm_consume [OF consumed(6)] ttl key]) auto
  next
    case (scanned e')
    show ?thesis
    proof (cases "p_ttlFunc (pipeline (ss_engine st) idx) = None")
      case True
      have "only_state idx (ss_engine st) e'"
        using scanned(3)
      proof (elim disjE exE)
        show "e' = runTTLScanner vt j [t] (ss_engine st) \<Longrightarrow> ?thesis" for j t
          using True ttl_other [of idx j "ss_engine st" vt t] by (simp add: only_state_same)
        show "e' = runValidationScanner vt j 1 (ss_engine st) \<Longrightarrow> ?thesis" for j
          using idx len only_state_validation [of idx "ss_engine st" vt j] by simp
      qed
      with scanned idx len show ?thesis by (intro mirrors_only_state [OF m]) (auto simp: quiet_def)
    next
      case False
      then have "ss_failed st \<or> loadState (ss_engine st) idx \<noteq> PipelineStreaming"
        using m ttl by (auto simp: mirrors_def same_view_def)
      with scanned idx len show ?thesis by (auto simp: mirrors_def quiet_def)
    qed
  qed (auto intro!: mirrors_only_state [OF m])
qed

lemma exec_mirrors:
  assumes "mirrors contents inv key p S st idx" and "base_inv sid idxs st" and "idx \<in> set idxs"
    and "stream_exec vt sid idxs acts st = Returns st'" and "\<forall>act \<in> set acts. unpaused act"
    and "p_ttlFunc p = None" and "keeps_key key p (p_table p)"
    and "events_ok key p S (events_of (p_table p) (ss_emitted st'))"
      "\<forall>ev \<in> set (events_of (p_table p) (ss_emitted st')). follows ev"
  shows "mirrors contents inv key p S st' idx"
  using assms
proof (induction acts arbitrary: st)
  case (Cons act acts)
  then obtain st1 where st1: "stream_step vt sid idxs act st = Returns st1" "stream_exec vt sid idxs acts st1 = Returns st'"
    by (auto split: outcome.splits)
  obtain xs where xs: "ss_emitted st' = ss_emitted st1 @ xs" using stream_exec_emitted [OF st1(2)] ..
  have un: "unpaused act" using Cons.prems(5) by simp
  have "mirrors contents inv key p S st1 idx"
    by (rule step_mirrors [OF Cons.prems(1-3) st1(1) un Cons.prems(6,7)])
      (use Cons.prems(8,9) xs in \<open>auto simp: events_ok_append\<close>)
  then show ?case using Cons.IH [OF _ base_step [OF Cons.prems(2) st1(1) un] Cons.prems(3) st1(2)] Cons.prems by simp
qed simp

text \<open>A whole session: once the pipeline's buffer is empty, its target shows the table after all events.\<close>

lemma session_mirrors:
  assumes grp: "group_ok sid idxs e" and r: "stream_exec vt sid idxs acts (stream_init idxs e) = Returns st"
    and un: "\<forall>act \<in> set acts. unpaused act" and idx: "idx \<in> set idxs" and p: "p = pipeline e idx"
    and ttl: "p_ttlFunc p = None" and key: "keeps_key key p (p_table p)"
    and start: "inv (p_target p)" "contents (p_target p) = view_of p (p_table p) S"
    and ok: "events_ok key p S (events_of (p_table p) (ss_emitted st))"
      "\<forall>ev \<in> set (events_of (p_table p) (ss_emitted st)). follows ev"
    and fin: "\<not> ss_failed st" "loadState (ss_engine st) idx = PipelineStreaming" "ss_call st = None"
      "map_option ch (ss_buffers st idx) = Some []"
  shows "contents (p_target (pipeline (ss_engine st) idx)) =
    view_of p (p_table p) (source_applies key (events_of (p_table p) (ss_emitted st)) S)"
proof -
  note base = base_init [OF grp]
  have "mirrors contents inv key p S (stream_init idxs e) idx"
    using start by (auto simp: mirrors_def stream_init_def same_view_def source_applies_def p)
  then have m: "mirrors contents inv key p S st idx"
    by (rule exec_mirrors [OF _ base idx r un ttl key ok])
  have "delivery_inv st idx" using base_exec [OF base r un] idx by (simp add: base_inv_def)
  moreover have "p_table (pipeline (ss_engine st) idx) = p_table p" using m fin by (simp add: mirrors_def same_view_def)
  ultimately have "ss_applied st idx = events_of (p_table p) (ss_emitted st)"
    using fin by (auto simp: delivery_inv_def waiting_def)
  with m fin show ?thesis by (simp add: mirrors_def)
qed

end

text \<open>A keyed target follows updates that keep the key, a rekeying one every update.\<close>

sublocale keyed_target \<subseteq> fixed_keys: mirroring vt key contents inv "same_key key"
  by unfold_locales (rule apply_mirror)

sublocale rekeying_target \<subseteq> any_keys: mirroring vt key contents inv "\<lambda>ev. True"
  by unfold_locales (rule apply_mirror_rekey)

section \<open>Examples\<close>

definition solo_target :: IndexedTarget where
  "solo_target = (NewIndexedTarget [])\<lparr>pkCols := [''id'']\<rparr>"

definition solo_row :: row where
  "solo_row = [''id'' \<mapsto> VInt64 1]"

definition solo :: "(IndexedTarget, unit) coreEngine" where
  "solo = example_engine [example_pipeline ''a'' tab_t solo_target]"

definition solo_event :: ChangeEvent where
  "solo_event = example_insert tab_t (PosLSN 10) solo_row"

definition solo_run :: "action list" where
  "solo_run = [Emit (ItemEvent solo_event), Dispatch (example_env [''a'']), Dispatch (example_env [''a'']),
     Consume 0 (example_env [''a''])]"

lemma solo_group: "group_ok ''src'' [0] solo"
  by (auto simp: group_ok_def solo_def example_defs ack_ops)

lemma solo_run_returns:
  "\<exists>st. stream_exec IndexedTarget_vt ''src'' [0] solo_run (stream_init [0] solo) = Returns st \<and>
     ss_emitted st = [ItemEvent solo_event] \<and> \<not> ss_failed st \<and> loadState (ss_engine st) 0 = PipelineStreaming \<and>
     ss_call st = None \<and> map_option ch (ss_buffers st 0) = Some []"
  by (simp add: solo_run_def solo_def solo_event_def example_defs stream_eval tab_t_def Table_def IndexedTarget_vt_def
      indexed_OnInsert_def)

lemma solo_image: "view_of (example_pipeline i table t) table' S = S"
  by (auto simp: view_of_def example_pipeline_def applyFiltersAndTransforms_def fun_eq_iff split: option.split)

section \<open>Properties\<close>

text \<open>C6: Delivery is exactly once and in order.  In every interleaving without pauses, as long as a
  pipeline that drops nothing is streaming and no handler call has failed, the events applied to its
  target, followed by those in its buffer and by the one the dispatcher has not yet handed to it, are
  exactly the events that the source emitted for its table, in the order of emission.\<close>
theorem delivery_in_order:
  assumes "group_ok sid idxs e" and "stream_exec vt sid idxs acts (stream_init idxs e) = Returns st"
    and "\<forall>act \<in> set acts. unpaused act" and "idx \<in> set idxs"
    and "\<not> ss_failed st" and "loadState (ss_engine st) idx = PipelineStreaming"
  shows "\<exists>b. ss_buffers st idx = Some b \<and>
    ss_applied st idx @ concat (map item_events (ch b)) @ waiting st idx (p_table (pipeline (ss_engine st) idx)) =
    events_of (p_table (pipeline (ss_engine st) idx)) (ss_emitted st)"
  using base_exec [OF base_init [OF assms(1)] assms(2,3)] assms(4-6) by (auto simp: base_inv_def delivery_inv_def)

theorem delivery_in_order_witness:
  "\<exists>st b. stream_exec IndexedTarget_vt ''src'' [0] solo_run (stream_init [0] solo) = Returns st \<and>
     ss_buffers st 0 = Some b \<and>
     ss_applied st 0 @ concat (map item_events (ch b)) @ waiting st 0 (p_table (pipeline (ss_engine st) 0)) =
     events_of (p_table (pipeline (ss_engine st) 0)) (ss_emitted st)"
proof -
  obtain st where st: "stream_exec IndexedTarget_vt ''src'' [0] solo_run (stream_init [0] solo) = Returns st"
    "\<not> ss_failed st" "loadState (ss_engine st) 0 = PipelineStreaming"
    using solo_run_returns by blast
  have "\<exists>b. ss_buffers st 0 = Some b \<and>
     ss_applied st 0 @ concat (map item_events (ch b)) @ waiting st 0 (p_table (pipeline (ss_engine st) 0)) =
     events_of (p_table (pipeline (ss_engine st) 0)) (ss_emitted st)"
    by (rule delivery_in_order [OF solo_group st(1)]) (use st in \<open>auto simp: solo_run_def unpaused_def\<close>)
  with st(1) show ?thesis by blast
qed



text \<open>C34: An update that takes a row out of the pipeline's filters is skipped, so the old row stays: the
  target then differs from the image of the source table, in which the row is absent.\<close>
theorem filtered_update_stale:
  assumes "ev_Action ev = ActionUpdate" and "ev_NewValues ev = Some new" and "ev_OldValues ev = Some old"
    and "buildKey new pk = buildKey old pk"
    and "applyFiltersAndTransforms p (ev_Table ev) (Some new) = None"
    and "it_store (p_target p) (buildKey old pk) = Some r"
  shows "\<exists>p'. applyChangeToTarget IndexedTarget_vt now p ev = (None, p') \<and>
    it_store (p_target p') (buildKey old pk) = Some r \<and>
    view_of p (ev_Table ev) (source_apply (pk_key pk) ev S) (buildKey old pk) = None"
  using assms
  by (simp add: applyChangeToTarget_def set_position_def IndexedTarget_vt_def source_apply_def view_of_upd)

theorem filtered_update_stale_witness:
  "let p = (example_pipeline ''a'' tab_t (solo_target\<lparr>it_store := [''1'' \<mapsto> solo_row]\<rparr>))
         \<lparr>p_filters := [\<lambda>table r. row_get r ''gone'' = VNil]\<rparr>;
       ev = (example_insert tab_t PosNil (solo_row(''gone'' \<mapsto> VBool True)))
         \<lparr>ev_Action := ActionUpdate, ev_OldValues := Some solo_row\<rparr>
   in \<exists>p'. applyChangeToTarget IndexedTarget_vt (\<lambda>i. 0) p ev = (None, p') \<and> it_store (p_target p') ''1'' = Some solo_row"
proof -
  let ?p = "(example_pipeline ''a'' tab_t (solo_target\<lparr>it_store := [''1'' \<mapsto> solo_row]\<rparr>))
      \<lparr>p_filters := [\<lambda>table r. row_get r ''gone'' = VNil]\<rparr>"
  let ?ev = "(example_insert tab_t PosNil (solo_row(''gone'' \<mapsto> VBool True)))
      \<lparr>ev_Action := ActionUpdate, ev_OldValues := Some solo_row\<rparr>"
  have key: "buildKey solo_row [''id''] = ''1''" "buildKey (solo_row(''gone'' \<mapsto> VBool True)) [''id''] = ''1''"
  proof -
    have "Itoa 1 = ''1''" by code_simp
    then show "buildKey solo_row [''id''] = ''1''" "buildKey (solo_row(''gone'' \<mapsto> VBool True)) [''id''] = ''1''"
      by (simp_all add: buildKey_def solo_row_def row_get_def)
  qed
  have "\<exists>p'. applyChangeToTarget IndexedTarget_vt (\<lambda>i. 0) ?p ?ev = (None, p') \<and>
      it_store (p_target p') (buildKey solo_row [''id'']) = Some solo_row \<and>
      view_of ?p (ev_Table ?ev) (source_apply (pk_key [''id'']) ?ev Map.empty) (buildKey solo_row [''id'']) = None"
    by (rule filtered_update_stale [where new = "solo_row(''gone'' \<mapsto> VBool True)"])
      (simp_all add: key example_insert_def example_pipeline_def applyFiltersAndTransforms_def row_get_def)
  then show ?thesis by (auto simp: key)
qed

end
