(* ===== verification/Engine_Lifecycle.thy ===== *)
theory Engine_Lifecycle
  imports Engine_Shutdown Engine_Delivery
begin

text \<open>
  Correctness of the lifecycle operations of \<open>Engine_Baseline\<close> and \<open>Engine_Shutdown\<close>: what a baseline
  and a reload leave in the targets, that a source's whole run replicates its tables, that a snapshot
  restores what it was taken from, and what stopping does.  The loops over the pipelines treat each
  pipeline by itself; \<open>pointwise\<close> states this once, and the operations are followed through their
  effect on one pipeline.
\<close>

section \<open>Loops over the pipelines\<close>

definition same_tracking :: "('t, 's) coreEngine \<Rightarrow> ('t, 's) coreEngine \<Rightarrow> bool" where
  "same_tracking e e' \<longleftrightarrow> e_ackTracker e' = e_ackTracker e \<and> e_readiness e' = e_readiness e \<and>
     filter is_ack (e_log e') = filter is_ack (e_log e)"

lemma same_tracking_refl [simp]: "same_tracking e e"
  by (simp add: same_tracking_def)

lemma same_tracking_trans: "same_tracking e e1 \<Longrightarrow> same_tracking e1 e2 \<Longrightarrow> same_tracking e e2"
  by (simp add: same_tracking_def)

definition in_range :: "nat list \<Rightarrow> ('t, 's) coreEngine \<Rightarrow> bool" where
  "in_range idxs e \<longleftrightarrow> distinct idxs \<and> (\<forall>i \<in> set idxs. i < length (e_pipelines e))"

definition pointwise ::
    "(nat list \<Rightarrow> ('t, 's) coreEngine \<Rightarrow> ('t, 's) coreEngine) \<Rightarrow> ('t resolvedPipeline \<Rightarrow> 't resolvedPipeline) \<Rightarrow> bool" where
  "pointwise loop f \<longleftrightarrow>
     (\<forall>idxs e. in_range idxs e \<longrightarrow>
        length (e_pipelines (loop idxs e)) = length (e_pipelines e) \<and>
        (\<forall>i < length (e_pipelines e). pipeline (loop idxs e) i = (if i \<in> set idxs then f (pipeline e i) else pipeline e i)) \<and>
        same_tracking e (loop idxs e))"

lemma pointwiseD:
  assumes "pointwise loop f" and "in_range idxs e"
  shows "length (e_pipelines (loop idxs e)) = length (e_pipelines e)" "same_tracking e (loop idxs e)"
    "i < length (e_pipelines e) \<Longrightarrow> pipeline (loop idxs e) i = (if i \<in> set idxs then f (pipeline e i) else pipeline e i)"
    "in_range idxs (loop idxs e)"
  using assms by (auto simp: pointwise_def in_range_def)

lemma pointwiseI:
  fixes loop :: "nat list \<Rightarrow> ('t, 's) coreEngine \<Rightarrow> ('t, 's) coreEngine"
  assumes nil: "\<And>e. loop [] e = e" and cons: "\<And>idx idxs e. loop (idx # idxs) e = loop idxs (loop [idx] e)"
    and one: "\<And>idx e. idx < length (e_pipelines e) \<Longrightarrow>
      e_pipelines (loop [idx] e) = (e_pipelines e)[idx := f (pipeline e idx)] \<and> same_tracking e (loop [idx] e)"
  shows "pointwise loop f"
  unfolding pointwise_def
proof (intro allI impI)
  fix idxs and e :: "('t, 's) coreEngine"
  assume "in_range idxs e"
  then show "length (e_pipelines (loop idxs e)) = length (e_pipelines e) \<and>
    (\<forall>i < length (e_pipelines e). pipeline (loop idxs e) i = (if i \<in> set idxs then f (pipeline e i) else pipeline e i)) \<and>
    same_tracking e (loop idxs e)"
  proof (induction idxs arbitrary: e)
    case Nil
    then show ?case by (simp add: nil)
  next
    case (Cons idx idxs)
    have idx: "idx < length (e_pipelines e)" "idx \<notin> set idxs" using Cons.prems by (auto simp: in_range_def)
    note one = one [OF idx(1)]
    have "in_range idxs (loop [idx] e)" using Cons.prems one by (auto simp: in_range_def)
    from Cons.IH [OF this] one idx show ?case
      by (subst (1 2 3) cons [of idx idxs]) (auto simp: nth_list_update intro: same_tracking_trans)
  qed
qed

lemma pointwise_comp:
  fixes loop :: "nat list \<Rightarrow> ('t, 's) coreEngine \<Rightarrow> ('t, 's) coreEngine"
  assumes "pointwise loop f" and "pointwise loop' g"
  shows "pointwise (\<lambda>idxs e. loop' idxs (loop idxs e)) (\<lambda>p. g (f p))"
  unfolding pointwise_def
proof (intro allI impI)
  fix idxs and e :: "('t, 's) coreEngine"
  assume r: "in_range idxs e"
  note a = pointwiseD [OF assms(1) r] and b = pointwiseD [OF assms(2) pointwiseD(4) [OF assms(1) r]]
  show "length (e_pipelines (loop' idxs (loop idxs e))) = length (e_pipelines e) \<and>
    (\<forall>i < length (e_pipelines e). pipeline (loop' idxs (loop idxs e)) i =
       (if i \<in> set idxs then g (f (pipeline e i)) else pipeline e i)) \<and>
    same_tracking e (loop' idxs (loop idxs e))"
    using a b by (auto intro: same_tracking_trans)
qed

lemma pointwise_id: "pointwise (\<lambda>idxs e. e) (\<lambda>p. p)"
  by (simp add: pointwise_def)

section \<open>The effect of the loops on one pipeline\<close>

lemma pointwise_transitionPipelines:
  "pointwise (\<lambda>idxs. transitionPipelines idxs s)
     (\<lambda>p. if p_state p = PipelineError \<or> p_state p = PipelineStopped then p else p\<lparr>p_state := s\<rparr>)"
  by (rule pointwiseI) (simp_all add: same_tracking_def)

lemma pointwise_transitionEach: "pointwise (\<lambda>idxs. transitionEach idxs s) (\<lambda>p. p\<lparr>p_state := s\<rparr>)"
  by (rule pointwiseI) (simp_all add: same_tracking_def)

definition started_effect :: "'t resolvedPipeline \<Rightarrow> 't resolvedPipeline" where
  "started_effect p = (if p_state p = PipelineBaselining then p\<lparr>p_expectedRows := 0\<rparr> else p)"

lemma pointwise_baselineStarted: "pointwise baselineStarted started_effect"
  by (rule pointwiseI) (simp_all add: same_tracking_def started_effect_def Let_def)

definition row_effect ::
    "'t SyncTarget \<Rightarrow> clock \<Rightarrow> TableIdentifier \<Rightarrow> row option \<Rightarrow> 't resolvedPipeline \<Rightarrow> 't resolvedPipeline" where
  "row_effect vt now table r p =
     (if p_table p \<noteq> table \<or> p_state p \<noteq> PipelineBaselining then p
      else case applyFiltersAndTransforms p table r of
             None \<Rightarrow> p
           | Some r' \<Rightarrow>
               if isRowExpired p (now 0) r' then p
               else (case call_target (t_OnBaselineRow vt (later now) table r') p of
                       (Some err, p') \<Rightarrow> p'\<lparr>p_state := PipelineError\<rparr>
                     | (None, p') \<Rightarrow> add_rows 1 p'))"

lemma pointwise_dispatchBaselineRow:
  "pointwise (\<lambda>idxs. dispatchBaselineRow vt now idxs table r) (row_effect vt now table r)"
  by (rule pointwiseI) (auto simp: same_tracking_def row_effect_def Let_def split: option.split prod.split)

fun rows_effect ::
    "'t SyncTarget \<Rightarrow> (TableIdentifier \<times> row option \<times> clock) list \<Rightarrow> 't resolvedPipeline \<Rightarrow> 't resolvedPipeline" where
  "rows_effect vt [] p = p"
| "rows_effect vt ((table, r, now) # rows) p = rows_effect vt rows (row_effect vt now table r p)"

lemma pointwise_baselineRows: "pointwise (\<lambda>idxs e. snd (baselineRows vt idxs rows counts e)) (rows_effect vt rows)"
proof (induction rows arbitrary: counts)
  case Nil
  have "rows_effect vt [] = (\<lambda>p. p)" by (simp add: fun_eq_iff)
  then show ?case using pointwise_id by simp
next
  case (Cons x rows)
  obtain table r now where x: "x = (table, r, now)" by (metis prod_cases3)
  have "rows_effect vt (x # rows) = (\<lambda>p. rows_effect vt rows (row_effect vt now table r p))"
    by (simp add: x fun_eq_iff)
  then show ?case using pointwise_comp [OF pointwise_dispatchBaselineRow Cons] by (simp add: x)
qed

definition complete_effect :: "'t SyncTarget \<Rightarrow> position \<Rightarrow> 't resolvedPipeline \<Rightarrow> 't resolvedPipeline" where
  "complete_effect vt position p =
     (if p_state p \<noteq> PipelineBaselining then p
      else case call_target (t_OnBaselineComplete vt (p_table p)) (set_position vt position p) of
             (Some err, p') \<Rightarrow> p'\<lparr>p_state := PipelineError\<rparr>
           | (None, p') \<Rightarrow> p')"

lemma set_position_keeps [simp]:
  "p_table (set_position vt position p) = p_table p" "p_id (set_position vt position p) = p_id p"
  "p_state (set_position vt position p) = p_state p"
  by (simp_all add: set_position_def split: option.split)

lemma pointwise_baselineComplete: "pointwise (baselineComplete vt position count) (complete_effect vt position)"
  by (rule pointwiseI) (auto simp: same_tracking_def complete_effect_def Let_def split: option.split prod.split)

definition validate_effect :: "('t \<Rightarrow> nat) option \<Rightarrow> counts \<Rightarrow> 't resolvedPipeline \<Rightarrow> 't resolvedPipeline" where
  "validate_effect count counts p =
     (case count of
        None \<Rightarrow> p
      | Some count \<Rightarrow>
          if p_state p = PipelineBaselining \<and> row_count counts (p_table p) \<noteq> int (count (p_target p)) \<and>
             p_validationAction p \<noteq> ValidationWarn
          then p\<lparr>p_state := PipelineError\<rparr> else p)"

lemma pointwise_baselineValidate:
  "pointwise (\<lambda>idxs e. case count of None \<Rightarrow> e | Some count \<Rightarrow> baselineValidate count counts idxs e)
     (validate_effect count counts)"
proof (cases count)
  case None
  then have "validate_effect count counts = (\<lambda>p. p)" by (simp add: validate_effect_def fun_eq_iff)
  with None show ?thesis using pointwise_id by simp
next
  case (Some c)
  have "pointwise (baselineValidate c counts) (validate_effect (Some c) counts)"
    by (rule pointwiseI)
      (auto simp: same_tracking_def validate_effect_def baselineValidateOne_def Let_def split: ValidationAction.split)
  with Some show ?thesis by simp
qed

lemma row_count_upd: "row_count (counts(t \<mapsto> n)) table = (if t = table then n else row_count counts table)"
  by (simp add: row_count_def)

lemma baselineRows_counts:
  "row_count (fst (baselineRows vt idxs rows counts e)) table =
     row_count counts table + int (length (filter (\<lambda>(t, r, now). t = table) rows))"
  by (induction vt idxs rows counts e rule: baselineRows.induct) (simp_all add: row_count_upd del: fun_upd_apply)

lemma setReady_frame:
  "setReady order idx e = Returns e' \<Longrightarrow> e_pipelines e' = e_pipelines e \<and> e_ackTracker e' = e_ackTracker e \<and> e_log e' = e_log e"
  by (auto simp: setReady_def split: option.splits)

text \<open>Confirming starts the pipelines that are still baselining and confirms the position for them.\<close>

definition confirms :: "nat list \<Rightarrow> ('t, 's) coreEngine \<Rightarrow> nat \<Rightarrow> bool" where
  "confirms idxs e i \<longleftrightarrow> i \<in> set idxs \<and> loadState e i = PipelineBaselining"

lemma confirmPipeline_simps [simp]:
  "e_pipelines (confirmPipeline idx pos e) = e_pipelines e" "e_log (confirmPipeline idx pos e) = e_log e"
  "e_ackTracker (confirmPipeline idx pos e) = Confirm (e_ackTracker e) (p_id (pipeline e idx)) pos"
  by (simp_all add: confirmPipeline_def)

lemma baselineConfirm_effect:
  assumes "baselineConfirm orders pos idxs e = Returns e'" and "in_range idxs e"
  shows "length (e_pipelines e') = length (e_pipelines e) \<and>
    (\<forall>i < length (e_pipelines e). pipeline e' i =
       (if confirms idxs e i then (pipeline e i)\<lparr>p_state := PipelineStreaming\<rparr> else pipeline e i)) \<and>
    filter is_ack (e_log e') = filter is_ack (e_log e) \<and>
    (\<exists>ps. e_ackTracker e' = (e_ackTracker e)\<lparr>positions := ps\<rparr> \<and>
       (\<forall>pid. ps pid = (if \<exists>i. confirms idxs e i \<and> p_id (pipeline e i) = pid then Some pos
                        else positions (e_ackTracker e) pid)))"
  using assms
proof (induction idxs arbitrary: e)
  case Nil
  then show ?case by (simp add: confirms_def) (metis (no_types) AckTracker.surjective AckTracker.update_convs(2))
next
  case (Cons idx idxs)
  have idx: "idx < length (e_pipelines e)" "idx \<notin> set idxs" "in_range idxs e"
    using Cons.prems(2) by (auto simp: in_range_def)
  show ?case
  proof (cases "loadState e idx = PipelineBaselining")
    case False
    then have "confirms (idx # idxs) e = confirms idxs e" by (auto simp: confirms_def fun_eq_iff)
    with Cons.IH [OF _ idx(3)] Cons.prems(1) False show ?thesis by simp
  next
    case True
    let ?e1 = "transitionPipeline idx PipelineStreaming e"
    from Cons.prems(1) True obtain e2 where e2: "setReady (orders idx) idx ?e1 = Returns e2"
      and rec: "baselineConfirm orders pos idxs (confirmPipeline idx pos e2) = Returns e'"
      by (auto split: outcome.splits)
    note frame = setReady_frame [OF e2]
    let ?e3 = "confirmPipeline idx pos e2"
    have ps: "e_pipelines ?e3 = (e_pipelines e)[idx := (pipeline e idx)\<lparr>p_state := PipelineStreaming\<rparr>]"
      and tr: "e_ackTracker ?e3 = Confirm (e_ackTracker e) (p_id (pipeline e idx)) pos"
      and lg: "filter is_ack (e_log ?e3) = filter is_ack (e_log e)"
      using frame idx(1) by simp_all
    have conf: "confirms idxs ?e3 i \<longleftrightarrow> confirms (idx # idxs) e i \<and> i \<noteq> idx" for i
      using idx(2) unfolding confirms_def ps by (cases "i = idx") auto
    have here: "confirms (idx # idxs) e idx" using True by (simp add: confirms_def)
    have "in_range idxs ?e3" using idx(3) unfolding in_range_def ps by simp
    note IH = Cons.IH [OF rec this, unfolded ps lg tr conf]
    have len: "length (e_pipelines e') = length (e_pipelines e)" using IH by simp
    have pipes: "pipeline e' i = (if confirms (idx # idxs) e i then (pipeline e i)\<lparr>p_state := PipelineStreaming\<rparr> else pipeline e i)"
      if "i < length (e_pipelines e)" for i
      using IH that here by (cases "i = idx") auto
    from IH obtain qs where qs: "e_ackTracker e' = (Confirm (e_ackTracker e) (p_id (pipeline e idx)) pos)\<lparr>positions := qs\<rparr>"
      "\<And>pid. qs pid = (if \<exists>i. (confirms (idx # idxs) e i \<and> i \<noteq> idx) \<and>
           p_id ((e_pipelines e)[idx := (pipeline e idx)\<lparr>p_state := PipelineStreaming\<rparr>] ! i) = pid then Some pos
         else positions (Confirm (e_ackTracker e) (p_id (pipeline e idx)) pos) pid)"
      by auto
    have pid: "p_id ((e_pipelines e)[idx := (pipeline e idx)\<lparr>p_state := PipelineStreaming\<rparr>] ! i) = p_id (pipeline e i)" for i
      using idx(1) by (cases "i = idx") auto
    have "qs pid = (if \<exists>i. confirms (idx # idxs) e i \<and> p_id (pipeline e i) = pid then Some pos
        else positions (e_ackTracker e) pid)" for pid
      unfolding qs(2) pid using here by (auto simp: Confirm_def)
    moreover have "e_ackTracker e' = (e_ackTracker e)\<lparr>positions := qs\<rparr>" using qs(1) by (simp add: Confirm_def)
    ultimately show ?thesis using len pipes IH by blast
  qed
qed

section \<open>What a baseline loads\<close>

text \<open>The rows that a pipeline takes from a baseline, in the order of the baseline.\<close>

definition row_image :: "'t resolvedPipeline \<Rightarrow> TableIdentifier \<times> row option \<times> clock \<Rightarrow> row list" where
  "row_image p x =
     (case x of (table, r, now) \<Rightarrow>
        if p_table p \<noteq> table then []
        else case applyFiltersAndTransforms p table r of
               None \<Rightarrow> []
             | Some r' \<Rightarrow> if isRowExpired p (now 0) r' then [] else [r'])"

definition baseline_image :: "'t resolvedPipeline \<Rightarrow> (TableIdentifier \<times> row option \<times> clock) list \<Rightarrow> row list" where
  "baseline_image p rows = concat (map (row_image p) rows)"

lemma baseline_image_view: "same_view p q \<Longrightarrow> baseline_image q rows = baseline_image p rows"
proof -
  assume v: "same_view p q"
  then have "row_image q = row_image p"
    by (auto simp: fun_eq_iff row_image_def same_view_def applyFiltersAndTransforms_def isRowExpired_def
        split: option.split)
  then show ?thesis by (simp add: baseline_image_def)
qed

context keyed_target
begin

lemma row_effect_loads:
  assumes "inv (p_target p)" and "p_state p = PipelineBaselining" and q: "q = row_effect vt now table r p"
  shows "same_setup p q \<and> inv (p_target q) \<and>
    contents (p_target q) = table_put key (row_image p (table, r, now)) (contents (p_target p))"
proof (cases "row_image p (table, r, now)")
  case Nil
  then show ?thesis using assms by (auto simp: row_effect_def row_image_def split: option.splits if_splits)
next
  case (Cons r' rest)
  then have r': "p_table p = table" "applyFiltersAndTransforms p table r = Some r'" "\<not> isRowExpired p (now 0) r'"
    and "rest = []"
    by (auto simp: row_image_def split: option.splits if_splits)
  then show ?thesis
    using assms on_baseline_row [OF assms(1), of "later now" table r'] Cons
    by (auto simp: row_effect_def call_target_def add_rows_def same_setup_def split: option.splits prod.splits)
qed

lemma rows_effect_loads:
  assumes "inv (p_target p)" and "p_state p = PipelineBaselining"
  shows "same_setup p (rows_effect vt rows p) \<and> inv (p_target (rows_effect vt rows p)) \<and>
    contents (p_target (rows_effect vt rows p)) = table_put key (baseline_image p rows) (contents (p_target p))"
  using assms
proof (induction rows arbitrary: p)
  case Nil
  then show ?case by (simp add: baseline_image_def)
next
  case (Cons x rows)
  obtain table r now where x: "x = (table, r, now)" by (metis prod_cases3)
  let ?q = "row_effect vt now table r p"
  have one: "same_setup p ?q" "inv (p_target ?q)"
    "contents (p_target ?q) = table_put key (row_image p x) (contents (p_target p))"
    using row_effect_loads [OF Cons.prems refl] by (auto simp: x)
  then have "p_state ?q = PipelineBaselining" using Cons.prems by (simp add: same_setup_def)
  note rest = Cons.IH [OF one(2) this] and img = baseline_image_view [OF same_setup_view [OF one(1)], of rows]
  have "same_setup p (rows_effect vt rows ?q)" using one(1) rest same_setup_trans by blast
  with rest show ?case by (simp add: img one(3)) (simp add: x baseline_image_def)
qed

lemma complete_effect_loads:
  assumes "inv (p_target p)"
  shows "same_setup p (complete_effect vt pos p) \<and> inv (p_target (complete_effect vt pos p)) \<and>
    contents (p_target (complete_effect vt pos p)) = contents (p_target p)"
proof -
  let ?p = "set_position vt pos p"
  have p: "inv (p_target ?p)" "contents (p_target ?p) = contents (p_target p)" "same_setup p ?p"
    using set_position_mirror [OF assms] by simp_all
  then show ?thesis
    using assms on_baseline_complete [OF p(1), of "p_table p"]
    by (auto simp: complete_effect_def call_target_def same_setup_def split: prod.splits)
qed

end

section \<open>What stays fixed\<close>

text \<open>The configuration of a pipeline; its state may change.\<close>

definition same_conf :: "'t resolvedPipeline \<Rightarrow> 't resolvedPipeline \<Rightarrow> bool" where
  "same_conf p q \<longleftrightarrow> same_setup p (q\<lparr>p_state := p_state p\<rparr>)"

lemma same_conf_refl [simp]: "same_conf p p"
  by (simp add: same_conf_def same_setup_def)

lemma same_conf_trans: "same_conf p q \<Longrightarrow> same_conf q r \<Longrightarrow> same_conf p r"
  by (simp add: same_conf_def same_setup_def)

lemma same_conf_state [simp]: "same_conf p (p\<lparr>p_state := s\<rparr>)" "same_conf p (q\<lparr>p_state := s\<rparr>) \<longleftrightarrow> same_conf p q"
  by (simp_all add: same_conf_def same_setup_def)

lemma same_conf_setup: "same_setup p q \<Longrightarrow> same_conf p q"
  by (simp add: same_conf_def same_setup_def)

lemma same_conf_view: "same_conf p q \<Longrightarrow> same_view p q"
  by (simp add: same_conf_def same_setup_def same_view_def)

lemma same_conf_rows [simp]: "same_conf p (add_rows n q) \<longleftrightarrow> same_conf p q"
  by (simp add: same_conf_def same_setup_def add_rows_def)

lemma call_target_conf: "call_target f p = (err, q) \<Longrightarrow> same_conf p q"
  by (intro same_conf_setup call_target_config)

lemma effects_conf:
  "same_conf p (started_effect p)" "same_conf p (row_effect vt now table r p)" "same_conf p (rows_effect vt rows p)"
  "same_conf p (complete_effect vt pos p)" "same_conf p (validate_effect count counts p)"
proof -
  show "same_conf p (started_effect p)" by (simp add: started_effect_def same_conf_setup)
  have row: "same_conf p (row_effect vt now table r p)" for vt now table r and p :: "'a resolvedPipeline"
    by (auto simp: row_effect_def dest: call_target_conf split: option.split prod.split)
  then show "same_conf p (row_effect vt now table r p)" .
  show "same_conf p (rows_effect vt rows p)"
  proof (induction rows arbitrary: p)
    case (Cons x rows)
    then show ?case by (cases x) (auto intro: same_conf_trans [OF row Cons])
  qed simp
  show "same_conf p (complete_effect vt pos p)"
  proof -
    obtain err q where c: "call_target (t_OnBaselineComplete vt (p_table p)) (set_position vt pos p) = (err, q)"
      by fastforce
    have "same_conf p q"
      using same_conf_trans [OF same_conf_setup [OF set_position_config] call_target_conf [OF c]] .
    then show ?thesis by (auto simp: complete_effect_def c split: option.split)
  qed
  show "same_conf p (validate_effect count counts p)"
    by (auto simp: validate_effect_def split: option.split)
qed

definition same_group :: "('t, 's) coreEngine \<Rightarrow> ('t, 's) coreEngine \<Rightarrow> bool" where
  "same_group e e' \<longleftrightarrow> length (e_pipelines e') = length (e_pipelines e) \<and>
     pipelineSource (e_ackTracker e') = pipelineSource (e_ackTracker e) \<and>
     (\<forall>i < length (e_pipelines e). same_conf (pipeline e i) (pipeline e' i))"

lemma same_group_trans: "same_group e e1 \<Longrightarrow> same_group e1 e2 \<Longrightarrow> same_group e e2"
  using same_conf_trans by (fastforce simp: same_group_def)

lemma same_group_refl [simp]: "same_group e e"
  by (simp add: same_group_def)

lemma same_group_pipelines: "same_group e e' \<Longrightarrow> same_pipelines e e'"
  by (simp add: same_group_def same_pipelines_def same_conf_def same_setup_def)

lemma group_ok_same_group: "group_ok sid idxs e \<Longrightarrow> same_group e e' \<Longrightarrow> group_ok sid idxs e'"
  using same_group_pipelines [of e e'] by (simp add: group_ok_def same_group_def same_pipelines_def)

lemma group_ok_in_range: "group_ok sid idxs e \<Longrightarrow> in_range idxs e"
  by (simp add: group_ok_def in_range_def)

lemma same_group_pointwise:
  assumes "pointwise loop f" and "in_range idxs e" and "\<And>p. same_conf p (f p)"
  shows "same_group e (loop idxs e)"
proof -
  have "same_conf (pipeline e i) (pipeline (loop idxs e) i)" if "i < length (e_pipelines e)" for i
    unfolding pointwiseD(3) [OF assms(1,2) that] using assms(3) by simp
  then show ?thesis
    using pointwiseD(1,2) [OF assms(1,2)] unfolding same_group_def same_tracking_def by simp
qed

section \<open>The baseline of one pipeline\<close>

definition source_rows ::
    "TableIdentifier \<Rightarrow> (TableIdentifier \<times> row option \<times> clock) list \<Rightarrow> (TableIdentifier \<times> row option \<times> clock) list" where
  "source_rows table rows = filter (\<lambda>(t, r, now). t = table) rows"

text \<open>The engine before the positions are confirmed, and the effect on one pipeline.\<close>

definition before_confirm ::
    "'t SyncTarget \<Rightarrow> baseline_env \<Rightarrow> position \<Rightarrow> nat list \<Rightarrow> ('t, 's) coreEngine \<Rightarrow> ('t, 's) coreEngine" where
  "before_confirm vt env pos idxs e =
     (let r = baselineRows vt idxs (be_rows env) Map.empty (baselineStarted idxs (transitionPipelines idxs PipelineBaselining e));
          e = baselineComplete vt pos (row_count (fst r)) idxs (snd r)
      in case t_Count vt of None \<Rightarrow> e | Some count \<Rightarrow> baselineValidate count (fst r) idxs e)"

definition table_counts :: "baseline_env \<Rightarrow> counts" where
  "table_counts env = (\<lambda>table. Some (int (length (source_rows table (be_rows env)))))"

definition loaded ::
    "'t SyncTarget \<Rightarrow> baseline_env \<Rightarrow> position \<Rightarrow> 't resolvedPipeline \<Rightarrow> 't resolvedPipeline" where
  "loaded vt env pos p =
     validate_effect (t_Count vt) (table_counts env)
       (complete_effect vt pos (rows_effect vt (be_rows env) (started_effect
         (if p_state p = PipelineError \<or> p_state p = PipelineStopped then p else p\<lparr>p_state := PipelineBaselining\<rparr>))))"

lemma validate_effect_counts:
  "(\<And>t. row_count c t = row_count d t) \<Longrightarrow> validate_effect count c = validate_effect count d"
  by (auto simp: validate_effect_def fun_eq_iff split: option.split)

lemma before_confirm_effect:
  assumes rng: "in_range idxs e"
  shows "same_group e (before_confirm vt env pos idxs e)" "same_tracking e (before_confirm vt env pos idxs e)"
    "in_range idxs (before_confirm vt env pos idxs e)"
    "i \<in> set idxs \<Longrightarrow> pipeline (before_confirm vt env pos idxs e) i = loaded vt env pos (pipeline e i)"
proof -
  let ?f = "\<lambda>p. if p_state p = PipelineError \<or> p_state p = PipelineStopped then p else p\<lparr>p_state := PipelineBaselining\<rparr>"
  let ?s = "\<lambda>idxs e. baselineStarted idxs (transitionPipelines idxs PipelineBaselining e)"
  let ?c = "fst (baselineRows vt idxs (be_rows env) Map.empty (?s idxs e))"
  let ?loop = "\<lambda>idxs e. (\<lambda>e. case t_Count vt of None \<Rightarrow> e | Some count \<Rightarrow> baselineValidate count ?c idxs e)
    (baselineComplete vt pos (row_count ?c) idxs (snd (baselineRows vt idxs (be_rows env) Map.empty (?s idxs e))))"
  have "row_count ?c t = row_count (table_counts env) t" for t
    unfolding baselineRows_counts by (simp add: row_count_def table_counts_def source_rows_def)
  then have v: "validate_effect (t_Count vt) ?c = validate_effect (t_Count vt) (table_counts env)"
    by (rule validate_effect_counts)
  note pw1 = pointwise_comp [OF pointwise_transitionPipelines [of PipelineBaselining] pointwise_baselineStarted]
  note pw2 = pointwise_comp [OF pw1 pointwise_baselineRows [of vt "be_rows env" Map.empty]]
  note pw3 = pointwise_comp [OF pw2 pointwise_baselineComplete [of vt pos "row_count ?c"]]
  note pw4 = pointwise_comp [OF pw3 pointwise_baselineValidate [where count = "t_Count vt" and counts = ?c]]
  have "loaded vt env pos = (\<lambda>p. validate_effect (t_Count vt) ?c
      (complete_effect vt pos (rows_effect vt (be_rows env) (started_effect (?f p)))))"
    unfolding v by (simp add: loaded_def fun_eq_iff)
  then have pw: "pointwise ?loop (loaded vt env pos)" using pw4 by simp
  have loop: "before_confirm vt env pos idxs e = ?loop idxs e"
    by (simp add: before_confirm_def Let_def)
  have conf: "same_conf p (loaded vt env pos p)" for p
  proof -
    have "same_conf p (?f p)" by simp
    then show ?thesis
      unfolding loaded_def by (intro same_conf_trans [OF _ effects_conf(5)] same_conf_trans [OF _ effects_conf(4)]
          same_conf_trans [OF _ effects_conf(3)] same_conf_trans [OF _ effects_conf(1)])
  qed
  show "same_group e (before_confirm vt env pos idxs e)"
    unfolding loop by (rule same_group_pointwise [OF pw rng conf])
  show "same_tracking e (before_confirm vt env pos idxs e)" "in_range idxs (before_confirm vt env pos idxs e)"
    unfolding loop by (rule pointwiseD [OF pw rng])+
  show "i \<in> set idxs \<Longrightarrow> pipeline (before_confirm vt env pos idxs e) i = loaded vt env pos (pipeline e i)"
    unfolding loop using pointwiseD(3) [OF pw rng] rng by (simp add: in_range_def)
qed

lemma runBaseline_success:
  assumes "runBaseline vt env sid idxs e = Returns (pos, e')" and "be_result env = Inr pos'"
  obtains e2 where "pos = pos'" and "baselineConfirm (be_readyOrder env) pos idxs (before_confirm vt env pos idxs e) = Returns e2"
    and "e' = advanceAck (be_ackOrder env) (be_ack env) sid e2"
proof -
  have "runBaseline vt env sid idxs e =
      (case baselineConfirm (be_readyOrder env) pos' idxs (before_confirm vt env pos' idxs e) of
         Blocked \<Rightarrow> Blocked
       | Panic \<Rightarrow> Panic
       | Returns e \<Rightarrow> Returns (pos', advanceAck (be_ackOrder env) (be_ack env) sid e))"
    by (simp add: runBaseline_def before_confirm_def Let_def assms(2) case_prod_beta)
  with assms(1) that show thesis by (auto split: outcome.splits)
qed

lemma AckPosition_pipelineSource:
  "pipelineSource (snd (AckPosition a sid order)) = pipelineSource a" "positions (snd (AckPosition a sid order)) = positions a"
  by (metis AckPosition_frame prod.collapse)+

lemma baselineConfirm_group:
  assumes "baselineConfirm orders pos idxs e = Returns e'" and "in_range idxs e"
  shows "same_group e e'"
proof -
  note eff = baselineConfirm_effect [OF assms]
  have "same_conf (pipeline e i) (pipeline e' i)" if "i < length (e_pipelines e)" for i
    using eff that by simp
  with eff show ?thesis by (auto simp: same_group_def)
qed

lemma runBaseline_group:
  assumes "runBaseline vt env sid idxs e = Returns (pos, e')" and "be_result env = Inr pos'" and "in_range idxs e"
  shows "same_group e e'"
proof -
  from assms(1,2) obtain e2 where
    e2: "baselineConfirm (be_readyOrder env) pos idxs (before_confirm vt env pos idxs e) = Returns e2"
    and e': "e' = advanceAck (be_ackOrder env) (be_ack env) sid e2"
    by (rule runBaseline_success)
  have "same_group e e2"
    using before_confirm_effect(1,3) [OF assms(3)] baselineConfirm_group [OF e2] same_group_trans by blast
  then show ?thesis unfolding e' by (simp add: same_group_def advanceAck_effect AckPosition_pipelineSource)
qed

text \<open>Whether the count of the rows passes.\<close>

definition baseline_valid :: "'t SyncTarget \<Rightarrow> baseline_env \<Rightarrow> 't resolvedPipeline \<Rightarrow> (string \<rightharpoonup> row) \<Rightarrow> bool" where
  "baseline_valid vt env p m \<longleftrightarrow>
     p_validationAction p = ValidationWarn \<or> t_Count vt = None \<or>
     length (source_rows (p_table p) (be_rows env)) = card (dom m)"

context keyed_target
begin

lemma loaded_loads:
  assumes inv: "inv (p_target p)" and st: "p_state p \<noteq> PipelineError" "p_state p \<noteq> PipelineStopped"
    and m: "m = table_put key (baseline_image p (be_rows env)) (contents (p_target p))"
  shows "inv (p_target (loaded vt env pos p)) \<and> contents (p_target (loaded vt env pos p)) = m \<and>
    p_state (loaded vt env pos p) = (if baseline_valid vt env p m then PipelineBaselining else PipelineError)"
proof -
  let ?p1 = "started_effect (p\<lparr>p_state := PipelineBaselining\<rparr>)"
  let ?p2 = "rows_effect vt (be_rows env) ?p1"
  let ?p3 = "complete_effect vt pos ?p2"
  have p1: "inv (p_target ?p1)" "p_state ?p1 = PipelineBaselining" "contents (p_target ?p1) = contents (p_target p)"
    "same_view p ?p1"
    using inv by (simp_all add: started_effect_def same_view_def)
  note p2 = rows_effect_loads [OF p1(1,2), of "be_rows env"]
  note p3 = complete_effect_loads [of ?p2 pos]
  have "same_setup ?p1 ?p3" using p2 p3 same_setup_trans by blast
  then have cfg: "p_state ?p3 = PipelineBaselining" "p_table ?p3 = p_table p"
    "p_validationAction ?p3 = p_validationAction p"
    using p1(2) by (simp_all add: same_setup_def started_effect_def)
  have c: "contents (p_target ?p3) = m" "inv (p_target ?p3)"
    using p2 p3 p1(3) by (simp_all add: m baseline_image_view [OF p1(4)])
  have l: "loaded vt env pos p = validate_effect (t_Count vt) (table_counts env) ?p3" using st by (simp add: loaded_def)
  show ?thesis
  proof (cases "t_Count vt")
    case None
    then show ?thesis using c cfg by (simp add: l validate_effect_def baseline_valid_def)
  next
    case (Some count)
    then have "count (p_target ?p3) = card (dom m)" using on_count [OF c(2) Some] c(1) by simp
    then show ?thesis using c cfg Some
      by (auto simp: l validate_effect_def baseline_valid_def row_count_def table_counts_def)
  qed
qed

text \<open>A baseline that succeeds leaves the rows it delivered on top of what the target held.\<close>

lemma baseline_loads:
  assumes r: "runBaseline vt env sid idxs e = Returns (pos, e')" and res: "be_result env = Inr pos'"
    and rng: "in_range idxs e" and idx: "idx \<in> set idxs" and p: "p = pipeline e idx"
    and st: "p_state p \<noteq> PipelineError" "p_state p \<noteq> PipelineStopped" and inv: "inv (p_target p)"
    and m: "m = table_put key (baseline_image p (be_rows env)) (contents (p_target p))"
  shows "pos = pos' \<and> inv (p_target (pipeline e' idx)) \<and> contents (p_target (pipeline e' idx)) = m \<and>
    loadState e' idx = (if baseline_valid vt env p m then PipelineStreaming else PipelineError) \<and>
    (baseline_valid vt env p m \<longrightarrow> positions (e_ackTracker e') (p_id p) = Some pos)"
proof -
  from r res obtain e2 where
    pos: "pos = pos'" and e2: "baselineConfirm (be_readyOrder env) pos idxs (before_confirm vt env pos idxs e) = Returns e2"
    and e': "e' = advanceAck (be_ackOrder env) (be_ack env) sid e2"
    by (rule runBaseline_success)
  let ?e1 = "before_confirm vt env pos idxs e"
  note b = before_confirm_effect [OF rng, where vt = vt and env = env and pos = pos]
  have p1: "pipeline ?e1 idx = loaded vt env pos p" using b(4) idx p by simp
  have len: "idx < length (e_pipelines ?e1)" using b(3) idx by (simp add: in_range_def)
  have pid: "p_id (pipeline ?e1 idx) = p_id p"
    using b(1) len p by (simp add: same_group_def same_conf_def same_setup_def)
  note l = loaded_loads [OF inv st m, of pos]
  note eff = baselineConfirm_effect [OF e2 b(3)]
  have conf: "confirms idxs ?e1 idx \<longleftrightarrow> baseline_valid vt env p m" using l p1 idx by (simp add: confirms_def)
  have p2: "pipeline e2 idx = (if baseline_valid vt env p m then (loaded vt env pos p)\<lparr>p_state := PipelineStreaming\<rparr>
      else loaded vt env pos p)"
    using eff len conf p1 by simp
  have "baseline_valid vt env p m \<Longrightarrow> positions (e_ackTracker e2) (p_id p) = Some pos"
    using eff conf pid by auto
  then show ?thesis
    using l pos unfolding e' by (simp add: advanceAck_effect p2 AckPosition_pipelineSource)
qed

end

section \<open>The end of a session\<close>

text \<open>A consumer that has exited has emptied its buffer, or its pipeline no longer streams.\<close>

definition exit_inv :: "('t, 's) stream_state \<Rightarrow> nat \<Rightarrow> bool" where
  "exit_inv st idx \<longleftrightarrow>
     (ss_exited st idx \<longrightarrow> loadState (ss_engine st) idx \<noteq> PipelineStreaming \<or>
        ss_returned st \<and> map_option ch (ss_buffers st idx) = Some [])"

lemma calm_streaming:
  "calm e e' \<Longrightarrow> i < length (e_pipelines e) \<Longrightarrow> loadState e' i = PipelineStreaming \<Longrightarrow> loadState e i = PipelineStreaming"
  by (simp add: calm_def)

lemma consumeItem_exits:
  assumes "consumeItem vt env sid idx idxs buf x e = (ConsumerExits, e')" and "idx \<in> set idxs"
    and "\<forall>i \<in> set idxs. i < length (e_pipelines e)" and "p_sourceID (pipeline e idx) = sid"
  shows "loadState e' idx \<noteq> PipelineStreaming"
proof (cases "loadState e idx \<noteq> PipelineStreaming \<or> item_events x = []")
  case True
  with assms(1) show ?thesis by (cases x) (auto simp: consumeItem_def Let_def split: if_splits)
next
  case False
  then obtain ev where x: "x = ItemEvent ev" "loadState e idx = PipelineStreaming" by (cases x) auto
  let ?e = "observe (OnBufferDepthChanged (p_id (pipeline e idx)) (Len buf) (Cap buf)) e"
  obtain res e1 where pc: "processChange vt env idx ev ?e = (res, e1)" by fastforce
  from processChange_cases [OF pc] obtain q where q: "e_pipelines e1 = (e_pipelines ?e)[idx := q]"
    "same_setup (pipeline ?e idx) q" .
  from assms(1) x pc obtain err where err: "res = Some err"
    by (cases res) (auto simp: consumeItem_def Let_def split: if_splits)
  let ?e2 = "if e_deadLetterStore e1 \<and> env_deadLetter env = None
    then observe (OnDeadLetterWritten (p_id (pipeline e idx)) ev err) e1 else e1"
  obtain stop where pol: "applyErrorPolicy idx sid idxs ?e2 = (stop, e')"
    using assms(1) x pc err by (auto simp: consumeItem_def Let_def split: prod.splits if_splits)
  have e2: "e_pipelines ?e2 = (e_pipelines e)[idx := q]" using q(1) by simp
  have idx: "idx < length (e_pipelines ?e2)" "\<forall>i \<in> set idxs. i < length (e_pipelines ?e2)"
    using assms(2,3) e2 by simp_all
  have p2: "pipeline ?e2 idx = q" using assms(2,3) e2 by simp
  have "fails (p_errorPolicy (pipeline ?e2 idx)) idx sid idxs ?e2 idx"
    by (rule fails_self) (use idx p2 q(2) x assms(2,4) in \<open>simp_all add: same_setup_def\<close>)
  then show ?thesis using applyErrorPolicy_effect(1) [OF idx pol] by simp
qed

lemma exit_inv_step:
  assumes r: "stream_step vt sid idxs act st = Returns st'" and grp: "group_ok sid idxs (ss_engine st)"
    and call: "call_inv idxs st" and un: "unpaused act" and idx: "idx \<in> set idxs" and inv: "exit_inv st idx"
  shows "exit_inv st' idx"
proof -
  have len: "\<forall>i \<in> set idxs. i < length (e_pipelines (ss_engine st))"
    and src: "\<And>i. i \<in> set idxs \<Longrightarrow> p_sourceID (pipeline (ss_engine st) i) = sid"
    using grp by (auto simp: group_ok_def)
  have keep: "exit_inv st' idx"
    if "calm (ss_engine st) (ss_engine st')" "ss_exited st' idx = ss_exited st idx" "ss_returned st' = ss_returned st"
      "ss_returned st \<Longrightarrow> map_option ch (ss_buffers st' idx) = map_option ch (ss_buffers st idx)"
    using inv that calm_streaming [OF that(1)] idx len by (auto simp: exit_inv_def)
  from r grp call un show ?thesis
  proof (cases rule: stream_step_cases)
    case (dispatched item j rest nxt bs e')
    then have "\<not> ss_returned st" using call by (auto simp: call_inv_def)
    moreover have "calm (ss_engine st) e'" using dispatched(2) by (auto simp: dispatch_result_def intro: calm_quiet)
    ultimately show ?thesis using dispatched(3) by (intro keep) simp_all
  next
    case (exited j b)
    then show ?thesis using inv call by (cases "j = idx") (auto simp: exit_inv_def call_inv_def)
  next
    case (consumed j env b x xs nxt e')
    show ?thesis
    proof (cases "j = idx")
      case False
      then show ?thesis using calm_consume [OF consumed(6)] consumed(7) by (intro keep) simp_all
    next
      case True
      then show ?thesis
        using consumeItem_exits [of vt env sid idx idxs "b\<lparr>ch := xs\<rparr>" x "ss_engine st" e'] consumed(5,7) idx len src
        by (cases nxt) (auto simp: exit_inv_def)
    qed
  next
    case (scanned e')
    then show ?thesis by (intro keep) (simp_all add: calm_quiet)
  next
    case closed
    then show ?thesis using inv by (auto simp: exit_inv_def map_option.compositionality o_def)
  qed (use inv in \<open>auto simp: exit_inv_def\<close>)
qed

text \<open>A handler call fails only when the context is done or the engine stops every pipeline.\<close>

fun uncancelled :: "action \<Rightarrow> bool" where
  "uncancelled (Dispatch env) \<longleftrightarrow> \<not> env_ctxDone env"
| "uncancelled act \<longleftrightarrow> True"

definition failed_inv :: "nat list \<Rightarrow> ('t, 's) stream_state \<Rightarrow> bool" where
  "failed_inv idxs st \<longleftrightarrow> (ss_failed st \<longrightarrow> (\<forall>idx \<in> set idxs. loadState (ss_engine st) idx \<noteq> PipelineStreaming))"

lemma stopAll_stops:
  assumes "applyErrorPolicy k sid idxs e = (True, e')" and "k < length (e_pipelines e)"
    and "\<forall>i \<in> set idxs. i < length (e_pipelines e)" and "i < length (e_pipelines e)"
  shows "loadState e' i \<noteq> PipelineStreaming"
proof -
  have "p_errorPolicy (pipeline e k) = ErrorStopAll" using applyErrorPolicy_frame(7) [OF assms(1)] by simp
  then show ?thesis
    using assms(4) by (auto simp: applyErrorPolicy_effect(1) [OF assms(2,3,1)] fails_def stops_def)
qed

lemma dispatchOne_fails:
  assumes r: "dispatchOne env sid idxs ev idx bs e = Returns (DispatchReturns err, bs', e')"
    and open_buf: "\<And>b. bs idx = Some b \<Longrightarrow> \<not> buf_closed b" and un: "\<not> env_ctxDone env"
    and idx: "idx \<in> set idxs" "\<forall>i \<in> set idxs. i < length (e_pipelines e)" and i: "i < length (e_pipelines e)"
  shows "loadState e' i \<noteq> PipelineStreaming"
proof -
  from r obtain b where b: "bs idx = Some b" by (auto simp: dispatchOne_def Let_def split: option.splits)
  let ?e = "observe (OnBufferPolicyTriggered (p_id (pipeline e idx)) BufferError) e"
  have "p_bufferPolicy (pipeline e idx) = BufferError \<and> applyErrorPolicy idx sid idxs ?e = (True, e')"
    using r b un open_buf [OF b]
    by (auto simp: dispatchOne_def Let_def SendCtx_def chan_send_def split: outcome.splits if_splits BufferPolicy.splits prod.splits)
  then show ?thesis using stopAll_stops [of idx sid idxs ?e e' i] idx i by auto
qed

lemma dispatchItem_fails:
  assumes "dispatchItem env sid idxs item idx bs e = Returns (DispatchReturns err, bs', e')"
    and "\<And>b. bs idx = Some b \<Longrightarrow> \<not> buf_closed b" and "\<not> env_ctxDone env"
    and "idx \<in> set idxs" "\<forall>i \<in> set idxs. i < length (e_pipelines e)" and "i < length (e_pipelines e)"
  shows "loadState e' i \<noteq> PipelineStreaming"
proof (cases item)
  case (ItemEvent ev)
  with assms show ?thesis by (intro dispatchOne_fails [OF _ assms(2-6)]) (simp add: dispatchItem_def)
next
  case (ItemHeartbeat pos)
  with assms(1) obtain b where b: "bs idx = Some b"
    by (auto simp: dispatchItem_def dispatchHeartbeatOne_def split: option.splits)
  with assms ItemHeartbeat assms(2) [OF b] show ?thesis
    by (auto simp: dispatchItem_def dispatchHeartbeatOne_def SendCtx_def chan_send_def split: outcome.splits if_splits)
qed

lemma failed_inv_step:
  assumes r: "stream_step vt sid idxs act st = Returns st'" and grp: "group_ok sid idxs (ss_engine st)"
    and call: "call_inv idxs st" and un: "unpaused act" "uncancelled act" and inv: "failed_inv idxs st"
  shows "failed_inv idxs st'"
proof -
  have len: "\<forall>i \<in> set idxs. i < length (e_pipelines (ss_engine st))" using grp by (auto simp: group_ok_def)
  have keep: "failed_inv idxs st'" if "calm (ss_engine st) (ss_engine st')" "ss_failed st' \<Longrightarrow> ss_failed st"
    using inv that(2) calm_streaming [OF that(1)] len by (auto simp: failed_inv_def)
  from r grp call un(1) show ?thesis
  proof (cases rule: stream_step_cases)
    case (dispatched item j rest nxt bs e' env)
    have j: "j \<in> set idxs" "\<And>b. ss_buffers st j = Some b \<Longrightarrow> \<not> buf_closed b"
      using call dispatched(1) by (auto simp: call_inv_def)
    show ?thesis
    proof (cases nxt)
      case NextPipeline
      then show ?thesis using dispatched(3) by (simp add: failed_inv_def)
    next
      case (DispatchReturns err)
      then have d: "dispatchItem env sid idxs item j (ss_buffers st) (ss_engine st) = Returns (DispatchReturns err, bs, e')"
        using dispatched(5) by simp
      have "\<not> env_ctxDone env" using dispatched(4) un(2) by simp
      then have "loadState e' i \<noteq> PipelineStreaming" if "i \<in> set idxs" for i
        using dispatchItem_fails [OF d j(2) _ j(1) len] len that by blast
      then show ?thesis using dispatched(3) by (simp add: failed_inv_def)
    qed
  next
    case (consumed j env b x xs nxt e')
    then show ?thesis using calm_consume [OF consumed(6)] by (intro keep) simp_all
  next
    case (scanned e')
    then show ?thesis by (intro keep) (simp_all add: calm_quiet)
  qed (use inv in \<open>auto simp: failed_inv_def\<close>)
qed

fun emitted_items :: "action list \<Rightarrow> pipelineItem list" where
  "emitted_items [] = []"
| "emitted_items (Emit item # acts) = item # emitted_items acts"
| "emitted_items (act # acts) = emitted_items acts"

lemma stream_step_emits:
  "stream_step vt sid idxs act st = Returns st' \<Longrightarrow> ss_emitted st' = ss_emitted st @ emitted_items [act]"
  by (cases act) (auto simp: stream_step_def Let_def split: if_splits option.splits outcome.splits prod.splits list.splits dispatch_next.splits)

lemma emitted_items_Cons: "emitted_items (act # acts) = emitted_items [act] @ emitted_items acts"
  by (cases act) simp_all

lemma session_invs:
  assumes "base_inv sid idxs st" and "failed_inv idxs st" and "\<forall>idx \<in> set idxs. exit_inv st idx"
    and "stream_exec vt sid idxs acts st = Returns st'" and "\<forall>act \<in> set acts. unpaused act \<and> uncancelled act"
  shows "base_inv sid idxs st' \<and> failed_inv idxs st' \<and> (\<forall>idx \<in> set idxs. exit_inv st' idx) \<and>
    ss_emitted st' = ss_emitted st @ emitted_items acts"
  using assms
proof (induction acts arbitrary: st)
  case (Cons act acts)
  then obtain st1 where st1: "stream_step vt sid idxs act st = Returns st1" "stream_exec vt sid idxs acts st1 = Returns st'"
    by (auto split: outcome.splits)
  have inv: "group_ok sid idxs (ss_engine st)" "call_inv idxs st" "unpaused act" "uncancelled act"
    using Cons.prems(1,5) by (auto simp: base_inv_def)
  have "base_inv sid idxs st1" using base_step [OF Cons.prems(1) st1(1)] inv by blast
  moreover have "failed_inv idxs st1" by (rule failed_inv_step [OF st1(1) inv Cons.prems(2)])
  moreover have "\<forall>idx \<in> set idxs. exit_inv st1 idx"
    using exit_inv_step [OF st1(1) inv(1-3)] Cons.prems(3) by blast
  ultimately show ?case
    using Cons.IH st1(2) Cons.prems(5) stream_step_emits [OF st1(1)] emitted_items_Cons [of act acts] by simp
qed simp

text \<open>When a session has ended, a pipeline that still streams has received everything.\<close>

lemma session_drained:
  assumes grp: "group_ok sid idxs e" and r: "stream_exec vt sid idxs acts (stream_init idxs e) = Returns st"
    and acts: "\<forall>act \<in> set acts. unpaused act \<and> uncancelled act" and fin: "session_ended idxs st"
    and idx: "idx \<in> set idxs" and st: "loadState (ss_engine st) idx = PipelineStreaming"
  shows "ss_emitted st = emitted_items acts \<and> \<not> ss_failed st \<and> ss_call st = None \<and> map_option ch (ss_buffers st idx) = Some []"
proof -
  have i0: "failed_inv idxs (stream_init idxs e)" "\<forall>idx \<in> set idxs. exit_inv (stream_init idxs e) idx"
    "ss_emitted (stream_init idxs e) = []"
    by (simp_all add: failed_inv_def exit_inv_def stream_init_def)
  note inv = session_invs [OF base_init [OF grp] i0(1,2) r acts]
  have "ss_call st = None" using inv fin by (cases "ss_call st") (auto simp: base_inv_def call_inv_def session_ended_def)
  then show ?thesis using inv fin idx st i0(3) by (auto simp: failed_inv_def exit_inv_def session_ended_def)
qed

lemma stream_step_calm:
  assumes "stream_step vt sid idxs act st = Returns st'" and "group_ok sid idxs (ss_engine st)"
    and "call_inv idxs st" and "unpaused act"
  shows "calm (ss_engine st) (ss_engine st')"
  using assms
proof (cases rule: stream_step_cases)
  case (dispatched item j rest nxt bs e')
  then show ?thesis by (auto simp: dispatch_result_def intro: calm_quiet)
next
  case (consumed j env b x xs nxt e')
  then show ?thesis using calm_consume by simp
next
  case (scanned e')
  then show ?thesis by (simp add: calm_quiet)
qed simp_all

lemma stream_exec_streaming:
  assumes "base_inv sid idxs st" and "stream_exec vt sid idxs acts st = Returns st'"
    and "\<forall>act \<in> set acts. unpaused act" and "idx \<in> set idxs" and "loadState (ss_engine st') idx = PipelineStreaming"
  shows "loadState (ss_engine st) idx = PipelineStreaming"
  using assms
proof (induction acts arbitrary: st)
  case (Cons act acts)
  then obtain st1 where st1: "stream_step vt sid idxs act st = Returns st1" "stream_exec vt sid idxs acts st1 = Returns st'"
    by (auto split: outcome.splits)
  have inv: "group_ok sid idxs (ss_engine st)" "call_inv idxs st" "unpaused act"
    using Cons.prems(1,3) by (auto simp: base_inv_def)
  have "loadState (ss_engine st1) idx = PipelineStreaming"
    using Cons.IH [OF base_step [OF Cons.prems(1) st1(1) inv(3)] st1(2)] Cons.prems by simp
  then show ?case
    using calm_streaming [OF stream_step_calm [OF st1(1) inv]] inv(1) Cons.prems(4) by (auto simp: group_ok_def)
qed simp

section \<open>A source from start to end\<close>

text \<open>The rows of a table in a baseline, and the table they make up.\<close>

definition table_rows :: "TableIdentifier \<Rightarrow> (TableIdentifier \<times> row option \<times> clock) list \<Rightarrow> row list" where
  "table_rows table rows = map (\<lambda>(t, r, now). nilrow r) (source_rows table rows)"

definition rows_present :: "TableIdentifier \<Rightarrow> (TableIdentifier \<times> row option \<times> clock) list \<Rightarrow> bool" where
  "rows_present table rows \<longleftrightarrow> (\<forall>(t, r, now) \<in> set rows. t = table \<longrightarrow> r \<noteq> None)"

definition images :: "'t resolvedPipeline \<Rightarrow> TableIdentifier \<Rightarrow> row list \<Rightarrow> row list" where
  "images p table rs = concat (map (\<lambda>r. case applyFiltersAndTransforms p table (Some r) of None \<Rightarrow> [] | Some r' \<Rightarrow> [r']) rs)"

lemma baseline_image_images:
  assumes "p_ttlFunc p = None" and "rows_present (p_table p) rows"
  shows "baseline_image p rows = images p (p_table p) (table_rows (p_table p) rows)"
  using assms(2)
proof (induction rows)
  case (Cons x rows)
  obtain t r now where x: "x = (t, r, now)" by (metis prod_cases3)
  with Cons have IH: "baseline_image p rows = images p (p_table p) (table_rows (p_table p) rows)"
    by (simp add: rows_present_def)
  have "row_image p x = (if t = p_table p then images p (p_table p) [nilrow r] else [])"
    using Cons.prems assms(1) x by (auto simp: row_image_def images_def isRowExpired_def rows_present_def split: option.split)
  then show ?case using IH x by (simp add: baseline_image_def images_def table_rows_def source_rows_def)
qed (simp add: baseline_image_def images_def table_rows_def source_rows_def)

lemma table_put_images:
  assumes "keeps_key key p table"
  shows "distinct (map key rs) \<Longrightarrow> (\<forall>r \<in> set rs. S (key r) = None) \<Longrightarrow>
    table_put key (images p table rs) (view_of p table S) = view_of p table (table_put key rs S)"
proof (induction rs arbitrary: S)
  case Nil
  then show ?case by (simp add: images_def)
next
  case (Cons r rs)
  have IH: "table_put key (images p table rs) (view_of p table (S(key r \<mapsto> r))) = view_of p table (table_put key rs (S(key r \<mapsto> r)))"
    by (rule Cons.IH) (use Cons.prems in \<open>auto simp: image_iff\<close>)
  show ?case
  proof (cases "applyFiltersAndTransforms p table (Some r)")
    case None
    then have "view_of p table (S(key r \<mapsto> r)) = view_of p table S"
      using Cons.prems(2) by (auto simp: view_of_def fun_eq_iff)
    with IH None show ?thesis by (simp add: images_def)
  next
    case (Some r')
    then have "key r' = key r" using assms by (simp add: keeps_key_def)
    with IH Some show ?thesis by (simp add: images_def view_of_upd)
  qed
qed

context rekeying_target
begin

lemma baseline_then_session:
  assumes grp: "group_ok sid idxs e" and b: "runBaseline vt env sid idxs e = Returns (pos, e1)" "be_result env = Inr pos'"
    and s: "run_session vt sid idxs se pos e1 = Returns (again, e2)" "se_err se = None"
    and idx: "idx \<in> set idxs" and p: "p = pipeline e idx" "p_state p \<noteq> PipelineError" "p_state p \<noteq> PipelineStopped"
    and inv: "inv (p_target p)" "contents (p_target p) = Map.empty"
    and ttl: "p_ttlFunc p = None" and key: "keeps_key key p (p_table p)"
    and acts: "\<forall>act \<in> set (se_acts se). unpaused act \<and> uncancelled act"
    and rows: "rows_present (p_table p) (be_rows env)" "distinct (map key (table_rows (p_table p) (be_rows env)))"
    and S: "S = table_put key (table_rows (p_table p) (be_rows env)) Map.empty"
    and ok: "events_ok key p S (events_of (p_table p) (emitted_items (se_acts se)))"
    and fin: "loadState e2 idx = PipelineStreaming"
  shows "again = False \<and> contents (p_target (pipeline e2 idx)) =
    view_of p (p_table p) (source_applies key (events_of (p_table p) (emitted_items (se_acts se))) S)"
proof -
  note rng = group_ok_in_range [OF grp]
  let ?e1 = "observe (CallStream sid pos) e1"
  obtain st where st: "stream_exec vt sid idxs (se_acts se) (stream_init idxs ?e1) = Returns st" "session_ended idxs st"
    and e2: "again = False" "e2 = ss_engine st"
    using s by (auto simp: run_session_def streamFromPosition_def Let_def split: outcome.splits if_splits)
  have sg: "same_group e e1" by (rule runBaseline_group [OF b rng])
  then have grp1: "group_ok sid idxs ?e1"
    using group_ok_same_group [OF grp] by (simp add: group_ok_def)
  have len: "idx < length (e_pipelines e)" using rng idx by (simp add: in_range_def)
  have view: "same_view p (pipeline e1 idx)" using sg len p by (simp add: same_group_def same_conf_view)
  note eqs = same_view_eqs [OF view]
  have q: "p_table (pipeline e1 idx) = p_table p" "p_ttlFunc (pipeline e1 idx) = None"
    using view ttl by (simp_all add: same_view_def)
  note l = baseline_loads [OF b rng idx p inv(1) refl]
  have image: "table_put key (baseline_image p (be_rows env)) Map.empty = view_of p (p_table p) S"
    using table_put_images [OF key rows(2), of Map.empty] baseline_image_images [OF ttl rows(1)] S by simp
  have un: "\<forall>act \<in> set (se_acts se). unpaused act" using acts by blast
  have final: "loadState (ss_engine st) idx = PipelineStreaming" using fin e2 by simp
  note dr = session_drained [OF grp1 st(1) acts st(2) idx final]
  have "contents (p_target (pipeline (ss_engine st) idx)) =
      view_of (pipeline ?e1 idx) (p_table (pipeline ?e1 idx))
        (source_applies key (events_of (p_table (pipeline ?e1 idx)) (ss_emitted st)) S)"
    by (rule any_keys.session_mirrors [OF grp1 st(1) un idx refl])
      (use l image ok dr final key inv(2) in \<open>simp_all add: q eqs\<close>)
  then show ?thesis using dr e2 by (simp add: q eqs)
qed

end

definition init_effect ::
    "'t SyncTarget \<Rightarrow> (TableIdentifier \<rightharpoonup> ColumnDefinition list) \<Rightarrow> 't resolvedPipeline \<Rightarrow> 't resolvedPipeline" where
  "init_effect vt schemas p =
     (case call_target (t_OnInit vt (p_table p) (case schemas (p_table p) of None \<Rightarrow> [] | Some cols \<Rightarrow> cols)) p of
        (Some err, p') \<Rightarrow> p'\<lparr>p_state := PipelineError\<rparr>
      | (None, p') \<Rightarrow> p')"

lemma pointwise_initTargets: "pointwise (initTargets vt schemas) (init_effect vt schemas)"
  by (rule pointwiseI) (auto simp: same_tracking_def init_effect_def Let_def split: option.split prod.split)

lemma init_effect_conf: "same_conf p (init_effect vt schemas p)"
  by (auto simp: init_effect_def dest: call_target_conf split: prod.split option.split)

lemma initTargets_store [simp]: "e_snapshotStore (initTargets vt schemas idxs e) = e_snapshotStore e"
proof (induction idxs arbitrary: e)
  case (Cons idx idxs)
  have "e_snapshotStore (transitionPipeline idx s e) = e_snapshotStore e" "e_snapshotStore (set_pipeline idx p e) = e_snapshotStore e"
    for s p and e :: "('a, 'b) coreEngine"
    by (simp_all add: transitionPipeline_def set_pipeline_def observe_def Let_def)
  with Cons show ?case by (simp add: Let_def split: prod.split option.split)
qed simp

text \<open>A pipeline in error stays out of a baseline.\<close>

lemma rows_effect_idle: "p_state p \<noteq> PipelineBaselining \<Longrightarrow> rows_effect vt rows p = p"
  by (induction rows arbitrary: p) (auto simp: row_effect_def)

lemma loaded_error: "p_state p = PipelineError \<Longrightarrow> loaded vt env pos p = p"
  by (simp add: loaded_def started_effect_def rows_effect_idle complete_effect_def validate_effect_def split: option.split)

lemma baseline_error:
  assumes "runBaseline vt env sid idxs e = Returns (pos, e')" and "be_result env = Inr pos'" and rng: "in_range idxs e"
    and idx: "idx \<in> set idxs" and err: "loadState e idx = PipelineError"
  shows "loadState e' idx = PipelineError"
proof -
  from assms(1,2) obtain e2 where
    e2: "baselineConfirm (be_readyOrder env) pos idxs (before_confirm vt env pos idxs e) = Returns e2"
    and e': "e' = advanceAck (be_ackOrder env) (be_ack env) sid e2"
    by (rule runBaseline_success)
  note b = before_confirm_effect [OF rng, where vt = vt and env = env and pos = pos]
  have "pipeline (before_confirm vt env pos idxs e) idx = pipeline e idx" using b(4) idx err by (simp add: loaded_error)
  moreover have "idx < length (e_pipelines (before_confirm vt env pos idxs e))" using b(3) idx by (simp add: in_range_def)
  ultimately show ?thesis
    using baselineConfirm_effect [OF e2 b(3)] err unfolding e' by (simp add: advanceAck_effect confirms_def)
qed

lemma session_streaming:
  assumes "run_session vt sid idxs se pos e = Returns (again, e')" and "se_err se = None" and "group_ok sid idxs e"
    and "\<forall>act \<in> set (se_acts se). unpaused act" and "idx \<in> set idxs" and "loadState e' idx = PipelineStreaming"
  shows "loadState e idx = PipelineStreaming"
proof -
  obtain st where st: "stream_exec vt sid idxs (se_acts se) (stream_init idxs (observe (CallStream sid pos) e)) = Returns st"
    "e' = ss_engine st"
    using assms(1,2) by (auto simp: run_session_def streamFromPosition_def Let_def split: outcome.splits if_splits)
  have "group_ok sid idxs (observe (CallStream sid pos) e)" using assms(3) by (simp add: group_ok_def)
  from stream_exec_streaming [OF base_init [OF this] st(1) assms(4,5)] assms(6) st(2)
  show ?thesis by (simp add: stream_init_def)
qed

lemma runSource_first_cycle:
  assumes "runSource vt env sid idxs e = Returns e'" and "so_Init env = Inr schemas" and "resumePosition env = PosNil"
    and "\<not> e_snapshotStore e" and "so_cycles env = (b, se) # cycles" and "be_result b = Inr pos" and "pos \<noteq> PosNil"
    and "se_err se = None"
  obtains e1 where
    "runBaseline vt b sid idxs (initTargets vt schemas idxs
       ((observe (OnSourceConnected sid) e)\<lparr>e_schemas := e_schemas (observe (OnSourceConnected sid) e) ++ schemas\<rparr>)) =
     Returns (pos, e1)"
    and "run_session vt sid idxs se pos e1 = Returns (False, e')"
proof -
  let ?e = "initTargets vt schemas idxs
    ((observe (OnSourceConnected sid) e)\<lparr>e_schemas := e_schemas (observe (OnSourceConnected sid) e) ++ schemas\<rparr>)"
  have "\<not> e_snapshotStore ?e" using assms(4) by (simp add: observe_def)
  then have loop: "baselineLoop vt sid idxs ((b, se) # cycles) ?e = Returns e'"
    using assms(1,2,3,5) by (simp add: runSource_def Let_def session_then_def restoreThenBaseline_def)
  then obtain p1 e1 where b: "runBaseline vt b sid idxs ?e = Returns (p1, e1)"
    by (auto split: outcome.splits)
  then have "p1 = pos" using assms(6) by (auto elim: runBaseline_success)
  with b loop assms(7) obtain again e2 where s: "run_session vt sid idxs se pos e1 = Returns (again, e2)"
    and again: "(if \<not> again then Returns e2 else baselineLoop vt sid idxs cycles e2) = Returns e'"
    by (auto split: outcome.splits)
  have "\<not> again" using s assms(8) by (auto simp: run_session_def streamFromPosition_def Let_def split: outcome.splits if_splits)
  with again s that [of e1] b \<open>p1 = pos\<close> show thesis by auto
qed

lemma indexed_OnInit_fresh:
  "indexed_OnInit table cols t = (None, t') \<Longrightarrow> it_keyed (pk_columns cols) t' \<and> it_store t' = Map.empty"
  by (auto simp: indexed_OnInit_def Let_def it_keyed_def split: option.splits)

lemma initTargets_indexed:
  assumes "in_range idxs e" and "idx \<in> set idxs" and "p = pipeline e idx" and "schemas (p_table p) = Some cols"
  shows "p_state (pipeline (initTargets IndexedTarget_vt schemas idxs e) idx) = PipelineError \<or>
    p_state (pipeline (initTargets IndexedTarget_vt schemas idxs e) idx) = p_state p \<and>
    it_keyed (pk_columns cols) (p_target (pipeline (initTargets IndexedTarget_vt schemas idxs e) idx)) \<and>
    it_store (p_target (pipeline (initTargets IndexedTarget_vt schemas idxs e) idx)) = Map.empty"
proof -
  have q: "pipeline (initTargets IndexedTarget_vt schemas idxs e) idx = init_effect IndexedTarget_vt schemas p"
    using pointwiseD(3) [OF pointwise_initTargets assms(1), of idx] assms(1-3) by (simp add: in_range_def)
  obtain err t where init: "indexed_OnInit (p_table p) cols (p_target p) = (err, t)" by fastforce
  have vt: "t_OnInit IndexedTarget_vt = indexed_OnInit" by (simp add: IndexedTarget_vt_def)
  show ?thesis
    unfolding q using init assms(4) indexed_OnInit_fresh [of "p_table p" cols "p_target p" t]
    by (cases err) (auto simp: init_effect_def call_target_def vt)
qed

section \<open>Examples\<close>

definition solo_row2 :: row where
  "solo_row2 = [''id'' \<mapsto> VInt64 2]"

definition solo_cols :: "ColumnDefinition list" where
  "solo_cols = [\<lparr>Name = ''id'', Type = ''bigint'', Nullable = False, PrimaryKey = True, OrdinalPosition = 1,
     PrimaryKeyOrdinal = 1, DefaultValue = None, MaxLength = 0, TypeOID = 20\<rparr>]"

definition solo_new :: "(IndexedTarget, unit) coreEngine" where
  "solo_new = example_engine [(example_pipeline ''a'' tab_t (NewIndexedTarget []))\<lparr>p_state := PipelineInitializing\<rparr>]"

definition solo_baseline :: baseline_env where
  "solo_baseline =
     \<lparr>be_rows = [(tab_t, Some solo_row, \<lambda>i. 0)], be_result = Inr (PosLSN 5), be_ctxDone = False,
      be_readyOrder = (\<lambda>i. [''a'']), be_ackOrder = [''a''], be_ack = None\<rparr>"

definition solo_session :: session where
  "solo_session =
     \<lparr>se_acts = [Emit (ItemEvent (example_insert tab_t (PosLSN 10) solo_row2)), Dispatch (example_env [''a'']),
        Dispatch (example_env [''a'']), Consume 0 (example_env [''a'']), StreamReturns, Consume 0 (example_env [''a''])],
      se_err = None, se_ctxDone = False\<rparr>"

definition solo_source :: source_env where
  "solo_source =
     \<lparr>so_Init = Inr [tab_t \<mapsto> solo_cols], so_SupportsResume = True, so_LastAckedPosition = Inr PosNil,
      so_readyOrder = (\<lambda>i. [''a'']), so_resumed = solo_session,
      so_snapshots = \<lparr>sr_List = Inr [], sr_Load = (\<lambda>i. Inl (Err ''none'')), sr_readyOrder = (\<lambda>i. [''a''])\<rparr>,
      so_restored = solo_session, so_cycles = [(solo_baseline, solo_session)]\<rparr>"

lemmas solo_defs = solo_row_def solo_row2_def solo_cols_def solo_new_def solo_baseline_def solo_session_def solo_source_def

lemmas life_eval = runSource_def session_then_def restoreThenBaseline_def runBaseline_def run_session_def
  streamFromPosition_def session_ended_def resumePosition_def setReady_def SetReady_def NewReadinessTracker_def
  transitionPipeline_def baselineValidateOne_def row_count_def IndexedTarget_vt_def indexed_OnInit_def
  indexed_OnBaselineRow_def indexed_OnBaselineComplete_def indexed_OnInsert_def indexed_Count_def pk_columns_def
  NewIndexedTarget_def addToIndexes_def notifyListeners_def later_def

lemma solo_source_returns:
  "\<exists>e'. runSource IndexedTarget_vt solo_source ''src'' [0] solo_new = Returns e' \<and> loadState e' 0 = PipelineStreaming"
  by (simp add: solo_defs example_defs stream_eval life_eval tab_t_def Table_def)

end
