(* ===== verification/Engine_Recovery.thy ===== *)
theory Engine_Recovery
  imports Engine_Lifecycle
begin

text \<open>
  What the lifecycle operations guarantee: a source's run from start to end, baselines, restoring a
  snapshot, reloading a table and stopping.
\<close>

section \<open>Snapshots\<close>

definition exports :: "('t, 's) coreEngine \<Rightarrow> TableIdentifier \<Rightarrow> nat \<Rightarrow> bool" where
  "exports e table i \<longleftrightarrow>
     (loadState e i = PipelinePaused \<or> loadState e i = PipelineStreaming) \<and> p_table (pipeline e i) = table"

lemma exportTargets_entries:
  "exportTargets vt typeName orders is e (m, infos, n) = Inr (m', infos', n') \<Longrightarrow>
   \<exists>rss. list_all2 (\<lambda>i rs. t_ExportSnapshot vt (orders i) (p_target (pipeline e i)) = Inr rs) (filter (exports e table) is) rss \<and>
     table_entries m' table = table_entries m table @ concat rss"
proof (induction "is" arbitrary: m infos n)
  case Nil
  then show ?case by simp
next
  case (Cons i "is")
  let ?p = "pipeline e i"
  show ?case
  proof (cases "p_state ?p \<noteq> PipelinePaused \<and> p_state ?p \<noteq> PipelineStreaming")
    case True
    then have "\<not> exports e table i" by (auto simp: exports_def)
    with Cons True show ?thesis by simp
  next
    case False
    with Cons.prems obtain rs where rs: "t_ExportSnapshot vt (orders i) (p_target ?p) = Inr rs"
      by (auto simp: Let_def split: sum.splits)
    let ?m = "m(p_table ?p \<mapsto> table_entries m (p_table ?p) @ rs)"
    obtain infos1 n1 where "exportTargets vt typeName orders is e (?m, infos1, n1) = Inr (m', infos', n')"
      using Cons.prems False rs by (auto simp: Let_def)
    from Cons.IH [OF this] obtain rss where
      rss: "list_all2 (\<lambda>i rs. t_ExportSnapshot vt (orders i) (p_target (pipeline e i)) = Inr rs) (filter (exports e table) is) rss"
        "table_entries m' table = table_entries ?m table @ concat rss"
      by blast
    show ?thesis
    proof (cases "p_table ?p = table")
      case True
      then have "exports e table i" using False by (auto simp: exports_def)
      with rss rs True show ?thesis by (intro exI [of _ "rs # rss"]) (simp add: table_entries_def)
    next
      case other: False
      then have "\<not> exports e table i" by (simp add: exports_def)
      with other rss show ?thesis by (intro exI [of _ rss]) (simp add: table_entries_def)
    qed
  qed
qed

lemma singleton_list: "distinct xs \<Longrightarrow> set xs = {x} \<Longrightarrow> xs = [x]"
  by (cases xs) (simp, metis empty_iff insert_iff list.set_intros(1,2) distinct.simps(2) list.set(1) list.exhaust)

lemma exportTargets_one:
  assumes "exportTargets vt typeName orders [0..<n] e (Map.empty, [], 0) = Inr (m, infos, k)"
    and "idx < n" and "exports e table idx" and "\<And>i. i < n \<Longrightarrow> exports e table i \<Longrightarrow> i = idx"
  shows "t_ExportSnapshot vt (orders idx) (p_target (pipeline e idx)) = Inr (table_entries m table)"
proof -
  have "filter (exports e table) [0..<n] = [idx]"
  proof -
    have "set (filter (exports e table) [0..<n]) = {i. i < n \<and> exports e table i}" by auto
    also have "\<dots> = {idx}" using assms(2-4) by blast
    finally have one: "set (filter (exports e table) [0..<n]) = {idx}" .
    then show ?thesis by (intro singleton_list) simp_all
  qed
  with exportTargets_entries [OF assms(1), of table] show ?thesis
    by (auto simp: list_all2_Cons1 table_entries_def)
qed

definition restore_effect ::
    "'t SyncTarget \<Rightarrow> SnapshotMetadata \<Rightarrow> snapshot_entries \<Rightarrow> 't resolvedPipeline \<Rightarrow> 't resolvedPipeline" where
  "restore_effect vt metadata entries p =
     (if p_state p = PipelineInitializing
      then snd (call_target (t_RestoreSnapshot vt (findSnapshotTableInfo (Tables metadata) (p_table p))
                               (table_entries entries (p_table p))) p)
      else p)"

lemma restoreTargets_effect:
  "restoreTargets vt metadata entries snapID idxs e = (True, e') \<Longrightarrow> in_range idxs e \<Longrightarrow>
   length (e_pipelines e') = length (e_pipelines e) \<and> e_ackTracker e' = e_ackTracker e \<and>
   (\<forall>i < length (e_pipelines e). pipeline e' i =
      (if i \<in> set idxs then restore_effect vt metadata entries (pipeline e i) else pipeline e i))"
proof (induction idxs arbitrary: e)
  case Nil
  then show ?case by simp
next
  case (Cons idx idxs)
  have idx: "idx < length (e_pipelines e)" "idx \<notin> set idxs" "in_range idxs e"
    using Cons.prems(2) by (auto simp: in_range_def)
  let ?e = "set_pipeline idx (restore_effect vt metadata entries (pipeline e idx)) e"
  have rec: "restoreTargets vt metadata entries snapID idxs ?e = (True, e')"
    using Cons.prems(1) by (auto simp: restore_effect_def Let_def set_pipeline_def split: if_splits prod.splits option.splits)
  have "in_range idxs ?e" using idx(3) by (simp add: in_range_def)
  from Cons.IH [OF rec this] idx show ?case
    by (auto simp: set_pipeline_def nth_list_update)
qed

lemma startInitialized_effect:
  "startInitialized orders idxs e = Returns e' \<Longrightarrow> in_range idxs e \<Longrightarrow>
   length (e_pipelines e') = length (e_pipelines e) \<and> e_ackTracker e' = e_ackTracker e \<and>
   (\<forall>i < length (e_pipelines e). pipeline e' i =
      (if i \<in> set idxs \<and> loadState e i = PipelineInitializing
       then (pipeline e i)\<lparr>p_state := PipelineStreaming\<rparr> else pipeline e i))"
proof (induction idxs arbitrary: e)
  case Nil
  then show ?case by simp
next
  case (Cons idx idxs)
  have idx: "idx < length (e_pipelines e)" "idx \<notin> set idxs" "in_range idxs e"
    using Cons.prems(2) by (auto simp: in_range_def)
  show ?case
  proof (cases "loadState e idx = PipelineInitializing")
    case False
    with Cons.IH [OF _ idx(3)] Cons.prems(1) show ?thesis by auto
  next
    case True
    with Cons.prems(1) obtain e2 where e2: "setReady (orders idx) idx (transitionPipeline idx PipelineStreaming e) = Returns e2"
      and rec: "startInitialized orders idxs e2 = Returns e'"
      by (auto split: outcome.splits)
    have ps: "e_pipelines e2 = (e_pipelines e)[idx := (pipeline e idx)\<lparr>p_state := PipelineStreaming\<rparr>]"
      "e_ackTracker e2 = e_ackTracker e"
      using setReady_frame [OF e2] idx(1) by simp_all
    have "in_range idxs e2" using idx(3) unfolding in_range_def ps by simp
    note IH = Cons.IH [OF rec this, unfolded ps]
    have "pipeline e' i = (if i \<in> set (idx # idxs) \<and> loadState e i = PipelineInitializing
        then (pipeline e i)\<lparr>p_state := PipelineStreaming\<rparr> else pipeline e i)" if "i < length (e_pipelines e)" for i
      using IH that idx True by (cases "i = idx") simp_all
    with IH show ?thesis by simp
  qed
qed

lemma pauseSources_frame:
  "pauseSources pause snapID sids e = (err, e') \<Longrightarrow>
   e_pipelines e' = e_pipelines e \<and> e_ackTracker e' = e_ackTracker e \<and> e_sources e' = e_sources e \<and> e_schemas e' = e_schemas e"
proof (induction sids arbitrary: e)
  case (Cons sid sids)
  have "e_sources (observe ob e) = e_sources e" "e_schemas (observe ob e) = e_schemas e" for ob and e :: "('a, 'b) coreEngine"
    by (simp_all add: observe_def)
  with Cons show ?case by (fastforce simp: Let_def split: option.splits)
qed simp

lemma doSnapshot_saved:
  fixes e :: "('t, 's) coreEngine"
  assumes "doSnapshot vt typeName env meta e = (None, CallSave snapID md entries # calls, e')"
  obtains infos n and e1 :: "('t, 's) coreEngine" where "e_pipelines e1 = e_pipelines e"
    and "exportTargets vt typeName (sn_exportOrder env) [0..<length (e_pipelines e)] e1 (Map.empty, [], 0) = Inr (entries, infos, n)"
    and "SourcePositions md = sourcePositions e"
proof -
  let ?e = "observe (OnSnapshotStarted (''snap-'' @ Itoa (sn_unixNano env))) e"
  obtain err e1 where p: "pauseSources (sn_pause env) (''snap-'' @ Itoa (sn_unixNano env)) (sn_order env) ?e = (err, e1)" by fastforce
  note fr = pauseSources_frame [OF p]
  have "e_sources e1 = e_sources e" "e_ackTracker e1 = e_ackTracker e" using fr by (simp_all add: observe_def)
  then have "sourcePositions e1 = sourcePositions e" by (simp add: sourcePositions_def cong: if_cong)
  have len: "length (e_pipelines e1) = length (e_pipelines e)" "e_pipelines e1 = e_pipelines e" using fr by simp_all
  have err: "err = None" using assms p by (cases err) (simp_all add: doSnapshot_def Let_def split: if_splits)
  let ?ex = "exportTargets vt typeName (sn_exportOrder env) [0..<length (e_pipelines e)] e1 (Map.empty, [], 0)"
  obtain m infos n where ex: "?ex = Inr (m, infos, n)"
    using assms p err len(1) by (cases ?ex) (auto simp: doSnapshot_def Let_def split: if_splits)
  have "entries = m" "SourcePositions md = sourcePositions e1"
    using assms p err len(1) ex by (auto simp: doSnapshot_def Let_def split: if_splits option.splits)
  with that [OF len(2)] ex \<open>sourcePositions e1 = sourcePositions e\<close> show thesis by simp
qed

lemma trySnapshotRestore_restores:
  fixes e :: "('t, 's) coreEngine"
  assumes "trySnapshotRestore vt reads sid idxs e = Returns (pos, e')" and "sr_List reads = Inr (snapID # older)"
    and "sr_Load reads snapID = Inr (md, entries)" and "SourcePositions md sid = Some pos'" and "pos' \<noteq> PosNil"
    and nofail: "\<And>info rs t. fst (t_RestoreSnapshot vt info rs t) = None"
    and rng: "in_range idxs e" and "k \<in> set idxs" and "loadState e k = PipelineInitializing"
  shows "pos = pos' \<and> pipeline e' k = (restore_effect vt md entries (pipeline e k))\<lparr>p_state := PipelineStreaming\<rparr>"
proof -
  let ?e = "observe (OnSnapshotRestoreStarted snapID) e"
  have ok: "fst (restoreTargets vt md entries snapID is f)" for "is" and f :: "('t, 's) coreEngine"
  proof (induction "is" arbitrary: f)
    case (Cons i "is")
    have "\<exists>q. call_target (t_RestoreSnapshot vt info rs) p = (None, q)" for info rs and p :: "'t resolvedPipeline"
      using nofail [of info rs "p_target p"]
      by (cases "t_RestoreSnapshot vt info rs (p_target p)") (simp add: call_target_def)
    then obtain q where "call_target (t_RestoreSnapshot vt (findSnapshotTableInfo (Tables md) (p_table (pipeline f i)))
        (table_entries entries (p_table (pipeline f i)))) (pipeline f i) = (None, q)"
      by blast
    with Cons show ?case by (simp add: Let_def)
  qed simp
  obtain e1 where e1: "restoreTargets vt md entries snapID idxs ?e = (True, e1)"
    using ok [of idxs ?e] by (metis prod.collapse)
  obtain e2 where e2: "startInitialized (sr_readyOrder reads) idxs e1 = Returns e2" "e' = observe (OnSnapshotRestoreCompleted snapID) e2"
    and pos: "pos = pos'"
    using assms(1-5) e1 by (auto simp: trySnapshotRestore_def Let_def split: outcome.splits)
  have rng1: "in_range idxs ?e" using rng by (simp add: in_range_def)
  note r = restoreTargets_effect [OF e1 rng1]
  have len: "k < length (e_pipelines e)" using rng \<open>k \<in> set idxs\<close> by (simp add: in_range_def)
  have pk: "pipeline e1 k = restore_effect vt md entries (pipeline e k)" using r len \<open>k \<in> set idxs\<close> by simp
  have "in_range idxs e1" using r rng by (simp add: in_range_def)
  from startInitialized_effect [OF e2(1) this] have
    "pipeline e2 k = (if loadState e1 k = PipelineInitializing then (pipeline e1 k)\<lparr>p_state := PipelineStreaming\<rparr> else pipeline e1 k)"
    using len r \<open>k \<in> set idxs\<close> by simp
  moreover have "loadState e1 k = PipelineInitializing"
    unfolding pk using assms(9) by (simp add: restore_effect_def call_target_def split: prod.split)
  ultimately show ?thesis using pos pk e2(2) by simp
qed

section \<open>Reloading\<close>

definition truncate_effect :: "'t SyncTarget \<Rightarrow> clock \<Rightarrow> 't resolvedPipeline \<Rightarrow> 't resolvedPipeline" where
  "truncate_effect vt now p =
     (case call_target (t_OnTruncate vt now (p_table p)) p of
        (Some err, p') \<Rightarrow> p'\<lparr>p_state := PipelineError\<rparr>
      | (None, p') \<Rightarrow> p')"

lemma truncateTargets_effect:
  "in_range idxs e \<Longrightarrow>
   length (e_pipelines (truncateTargets vt now idxs e)) = length (e_pipelines e) \<and>
   same_tracking e (truncateTargets vt now idxs e) \<and>
   (\<forall>i < length (e_pipelines e). pipeline (truncateTargets vt now idxs e) i =
      (if i \<in> set idxs then truncate_effect vt (now i) (pipeline e i) else pipeline e i))"
proof (induction idxs arbitrary: e)
  case Nil
  then show ?case by simp
next
  case (Cons idx idxs)
  have idx: "idx < length (e_pipelines e)" "idx \<notin> set idxs" using Cons.prems by (auto simp: in_range_def)
  obtain err p' where c: "call_target (t_OnTruncate vt (now idx) (p_table (pipeline e idx))) (pipeline e idx) = (err, p')"
    by fastforce
  let ?e = "if err = None then set_pipeline idx p' e else transitionPipeline idx PipelineError (set_pipeline idx p' e)"
  have rec: "truncateTargets vt now (idx # idxs) e = truncateTargets vt now idxs ?e"
    by (cases err) (simp_all add: c Let_def)
  have ps: "e_pipelines ?e = (e_pipelines e)[idx := truncate_effect vt (now idx) (pipeline e idx)]"
    using idx(1) c by (cases err) (simp_all add: truncate_effect_def)
  have tr: "same_tracking e ?e" by (simp add: same_tracking_def)
  have rng: "in_range idxs ?e" using Cons.prems unfolding in_range_def ps by simp
  note IH = Cons.IH [OF rng, unfolded ps]
  have "pipeline (truncateTargets vt now idxs ?e) i = (if i \<in> set (idx # idxs) then truncate_effect vt (now i) (pipeline e i) else pipeline e i)"
    if "i < length (e_pipelines e)" for i
    using IH that idx by (cases "i = idx") simp_all
  then show ?case unfolding rec using IH same_tracking_trans [OF tr] by simp
qed

definition finish_effect :: "'t resolvedPipeline \<Rightarrow> 't resolvedPipeline" where
  "finish_effect p = (if p_state p = PipelineBaselining then p\<lparr>p_state := PipelineStreaming\<rparr> else p)"

lemma pointwise_finishReload: "pointwise finishReload finish_effect"
  by (rule pointwiseI) (simp_all add: finish_effect_def same_tracking_def)

definition reload_effect :: "'t SyncTarget \<Rightarrow> reload_env \<Rightarrow> nat \<Rightarrow> 't resolvedPipeline \<Rightarrow> 't resolvedPipeline" where
  "reload_effect vt env idx p =
     (let q = rows_effect vt (rl_rows env)
                (started_effect (truncate_effect vt (rl_truncate env idx) (p\<lparr>p_state := PipelineBaselining\<rparr>)))
      in case rl_result env of
           Inl err \<Rightarrow> q\<lparr>p_state := PipelineError\<rparr>
         | Inr pos \<Rightarrow> finish_effect (complete_effect vt pos q))"

lemma transitionEach_log: "\<exists>os. e_log (transitionEach idxs s e) = e_log e @ os"
proof (induction idxs arbitrary: e)
  case (Cons idx idxs)
  have "\<exists>os. e_log (transitionPipeline idx s e) = e_log e @ os" by (simp add: transitionPipeline_def Let_def)
  with Cons [of "transitionPipeline idx s e"] show ?case by auto
qed simp

lemma reloadTargets_effect:
  assumes rng: "in_range idxs e" and "reloadTargets vt env sid idxs e = (res, e')" and idx: "idx \<in> set idxs"
  shows "pipeline e' idx = reload_effect vt env idx (pipeline e idx) \<and> e_ackTracker e' = e_ackTracker e \<and>
    res = (case rl_result env of Inl err \<Rightarrow> Some (Wrap ''reload baseline failed'' err)
           | Inr pos \<Rightarrow> map_option (Wrap ''resume source after reload'') (rl_resume env)) \<and>
    (\<exists>os os'. e_log e' = os @ CallResume sid # os')"
proof -
  let ?e1 = "transitionEach idxs PipelineBaselining e"
  let ?e2 = "truncateTargets vt (rl_truncate env) idxs ?e1"
  let ?rows = "\<lambda>idxs e. snd (baselineRows vt idxs (rl_rows env) Map.empty (baselineStarted idxs e))"
  let ?e3 = "?rows idxs ?e2"
  have len: "idx < length (e_pipelines e)" using rng idx by (simp add: in_range_def)
  note s1 = pointwiseD [OF pointwise_transitionEach [of PipelineBaselining] rng]
  note s2 = truncateTargets_effect [OF s1(4), of vt "rl_truncate env"]
  have rng2: "in_range idxs ?e2" using s1(4) s2 by (simp add: in_range_def)
  note pw3 = pointwise_comp [OF pointwise_baselineStarted pointwise_baselineRows [of vt "rl_rows env" Map.empty]]
  note s3 = pointwiseD [OF pw3 rng2]
  let ?q = "rows_effect vt (rl_rows env) (started_effect (truncate_effect vt (rl_truncate env idx) ((pipeline e idx)\<lparr>p_state := PipelineBaselining\<rparr>)))"
  have q: "pipeline ?e3 idx = ?q" using s1 s2 s3 len idx by simp
  have tr: "e_ackTracker ?e3 = e_ackTracker e" using s1(2) s2 s3(2) by (simp add: same_tracking_def)
  show ?thesis
  proof (cases "rl_result env")
    case (Inl err)
    let ?e4 = "observe (CallResume sid) ?e3"
    have rng4: "in_range idxs ?e4" using s3(4) by (simp add: in_range_def)
    note s4 = pointwiseD [OF pointwise_transitionEach [of PipelineError] rng4]
    have e': "res = Some (Wrap ''reload baseline failed'' err)" "e' = transitionEach idxs PipelineError ?e4"
      using assms(2) Inl by (simp_all add: reloadTargets_def Let_def)
    from transitionEach_log [of idxs PipelineError ?e4] have "\<exists>os os'. e_log e' = os @ CallResume sid # os'" unfolding e' by (auto simp: observe_def)
    then show ?thesis using s4 len idx q tr s1(1) s2 s3(1)
      by (simp add: e' Inl reload_effect_def same_tracking_def)
  next
    case (Inr pos)
    note pw5 = pointwise_comp [OF pointwise_baselineComplete [of vt pos "\<lambda>table. int (length (rl_rows env))"] pointwise_finishReload]
    note s5 = pointwiseD [OF pw5 s3(4)]
    have e': "e' = observe (CallResume sid) (finishReload idxs (baselineComplete vt pos (\<lambda>table. int (length (rl_rows env))) idxs ?e3))"
      "res = map_option (Wrap ''resume source after reload'') (rl_resume env)"
      using assms(2) Inr by (auto simp: reloadTargets_def Let_def split: option.splits)
    have "\<exists>os os'. e_log e' = os @ CallResume sid # os'" unfolding e' by (auto simp: observe_def)
    then show ?thesis using s5 len idx q tr s1(1) s2 s3(1)
      by (simp add: e' Inr reload_effect_def same_tracking_def)
  qed
qed

context keyed_target
begin

lemma reload_effect_loads:
  assumes inv: "inv (p_target p)"
  shows "contents (p_target (reload_effect vt env idx p)) = table_put key (baseline_image p (rl_rows env)) Map.empty \<and>
    p_state (reload_effect vt env idx p) = (if isl (rl_result env) then PipelineError else PipelineStreaming)"
proof -
  let ?p0 = "p\<lparr>p_state := PipelineBaselining\<rparr>"
  let ?p1 = "started_effect (truncate_effect vt (rl_truncate env idx) ?p0)"
  let ?q = "rows_effect vt (rl_rows env) ?p1"
  have p1: "inv (p_target ?p1)" "p_state ?p1 = PipelineBaselining" "contents (p_target ?p1) = Map.empty" "same_view p ?p1"
    using on_truncate [OF inv, of "rl_truncate env idx" "p_table p"]
    by (auto simp: truncate_effect_def started_effect_def call_target_def same_view_def split: prod.splits option.splits)
  note q = rows_effect_loads [OF p1(1,2), of "rl_rows env"]
  note c = complete_effect_loads [of ?q]
  have st: "p_state (complete_effect vt pos ?q) = PipelineBaselining" for pos
    using q c [of pos] p1(2) by (auto simp: same_setup_def)
  show ?thesis
    using q c p1(3) st baseline_image_view [OF p1(4)]
    by (auto simp: reload_effect_def Let_def finish_effect_def split: sum.split)
qed

end

section \<open>Stopping\<close>

definition ended :: "('t, 's) coreEngine \<Rightarrow> bool" where
  "ended e \<longleftrightarrow> e_stopped e \<and> e_cancelled e"

lemma ended_frame [simp]:
  "ended (observe ob e) = ended e" "ended (set_pipeline idx p e) = ended e" "ended (transitionPipeline idx s e) = ended e"
  "ended (advanceAck order ack sid e) = ended e"
  by (simp_all add: ended_def observe_def set_pipeline_def transitionPipeline_def advanceAck_def Let_def
      split: option.split prod.split)

lemma ended_loops:
  "ended (finalAcks orders ack sids e) = ended e" "ended (closeTargets vt idxs e) = ended e"
  "ended (closeSources close sids e) = ended e"
  "ended (resumeIgnoring sids e) = ended e" "ended (resumeSources resume snapID sids e) = ended e"
proof -
  show "ended (finalAcks orders ack sids e) = ended e" by (induction sids arbitrary: e) simp_all
  show "ended (closeTargets vt idxs e) = ended e"
    by (induction idxs arbitrary: e) (simp_all add: Let_def split: prod.split)
  show "ended (closeSources close sids e) = ended e"
    by (induction sids arbitrary: e) (simp_all add: Let_def split: option.split)
  show "ended (resumeIgnoring sids e) = ended e" by (induction sids arbitrary: e) simp_all
  show "ended (resumeSources resume snapID sids e) = ended e"
    by (induction sids arbitrary: e) (simp_all add: Let_def split: option.split)
qed

lemma pauseSources_ended: "ended (snd (pauseSources pause snapID sids e)) = ended e"
  by (induction sids arbitrary: e) (simp_all add: Let_def split: option.split)

lemma doSnapshot_ended: "ended (snd (snd (doSnapshot vt typeName env meta e))) = ended e"
proof -
  let ?id = "''snap-'' @ Itoa (sn_unixNano env)"
  obtain err e1 where p: "pauseSources (sn_pause env) ?id (sn_order env) (observe (OnSnapshotStarted ?id) e) = (err, e1)"
    by fastforce
  then have "ended e1 = ended e" using pauseSources_ended [of _ _ _ "observe (OnSnapshotStarted ?id) e"] by (metis ended_frame(1) snd_conv)
  with p show ?thesis
    by (simp add: doSnapshot_def Let_def ended_loops split: option.split sum.split prod.split)
qed

lemma triggerSnapshot_ended: "ended e \<Longrightarrow> triggerSnapshot tr prefix vt typeName env e = (calls, e') \<Longrightarrow> ended e'"
  using doSnapshot_ended [of vt typeName env "[''trigger'' \<mapsto> VString tr]" e]
  by (auto simp: triggerSnapshot_def split: prod.splits option.splits)

lemma doSnapshot_pipelines: "e_pipelines (snd (snd (doSnapshot vt typeName env meta e))) = e_pipelines e"
proof -
  let ?id = "''snap-'' @ Itoa (sn_unixNano env)"
  obtain err e1 where p: "pauseSources (sn_pause env) ?id (sn_order env) (observe (OnSnapshotStarted ?id) e) = (err, e1)"
    by fastforce
  have "e_pipelines (resumeIgnoring sids f) = e_pipelines f" for sids and f :: "('a, 'b) coreEngine"
    by (induction sids arbitrary: f) simp_all
  moreover have "e_pipelines (resumeSources resume snapID sids f) = e_pipelines f" for resume snapID sids and f :: "('a, 'b) coreEngine"
    by (induction sids arbitrary: f) (simp_all add: Let_def split: option.split)
  ultimately show ?thesis using p pauseSources_frame [OF p]
    by (simp add: doSnapshot_def Let_def split: option.split sum.split prod.split)
qed

lemma triggerSnapshot_pipelines: "triggerSnapshot tr prefix vt typeName env e = (calls, e') \<Longrightarrow> e_pipelines e' = e_pipelines e"
  using doSnapshot_pipelines [of vt typeName env "[''trigger'' \<mapsto> VString tr]" e]
  by (auto simp: triggerSnapshot_def split: prod.splits option.splits)

lemma finalAcks_pipelines: "e_pipelines (finalAcks orders ack sids e) = e_pipelines e"
  by (induction sids arbitrary: e) (simp_all add: advanceAck_effect)

lemma closeTargets_stops:
  "\<forall>i \<in> set idxs. i < length (e_pipelines e) \<Longrightarrow>
   length (e_pipelines (closeTargets vt idxs e)) = length (e_pipelines e) \<and>
   (\<forall>i < length (e_pipelines e). i \<in> set idxs \<or> loadState e i = PipelineStopped \<longrightarrow>
      loadState (closeTargets vt idxs e) i = PipelineStopped)"
proof (induction idxs arbitrary: e)
  case (Cons idx idxs)
  let ?p = "pipeline e idx"
  let ?e = "if p_state ?p = PipelineStopped then e
    else transitionPipeline idx PipelineStopped (set_pipeline idx (snd (call_target (t_OnClose vt (p_table ?p)) ?p)) e)"
  have rec: "closeTargets vt (idx # idxs) e = closeTargets vt idxs ?e" by (simp add: Let_def split: prod.split)
  have len: "length (e_pipelines ?e) = length (e_pipelines e)" by simp
  have st: "i = idx \<or> loadState e i = PipelineStopped \<Longrightarrow> loadState ?e i = PipelineStopped" if "i < length (e_pipelines e)" for i
    using that by (cases "i = idx") auto
  have "\<forall>i \<in> set idxs. i < length (e_pipelines ?e)" using Cons.prems len by simp
  from Cons.IH [OF this] show ?case unfolding rec len using st by (metis set_ConsD)
qed simp

lemma closeSources_pipelines: "e_pipelines (closeSources close sids e) = e_pipelines e"
  by (induction sids arbitrary: e) (simp_all add: Let_def split: option.split)

lemma closeSources_log: "set (e_log e) \<subseteq> set (e_log (closeSources close sids e))"
proof (induction sids arbitrary: e)
  case (Cons sid sids)
  show ?case
  proof (cases "close sid")
    case None
    with Cons [of "observe (CallClose sid) e"] show ?thesis by (simp add: Let_def)
  next
    case (Some err)
    with Cons [of "observe (OnSourceDisconnected sid (''close error: '' @ error_text err)) (observe (CallClose sid) e)"]
    show ?thesis by (simp add: Let_def)
  qed
qed simp

lemma closeSources_closes: "sid \<in> set sids \<Longrightarrow> CallClose sid \<in> set (e_log (closeSources close sids e))"
proof (induction sids arbitrary: e)
  case (Cons s sids)
  show ?case
  proof (cases "sid \<in> set sids")
    case True
    with Cons.IH show ?thesis by (simp add: Let_def split: option.split)
  next
    case False
    with Cons.prems have "s = sid" by simp
    then show ?thesis
      using closeSources_log [of "observe (CallClose sid) e" close sids]
        closeSources_log [of "observe (OnSourceDisconnected sid ob) (observe (CallClose sid) e)" close sids for ob]
      by (auto simp: Let_def split: option.split)
  qed
qed simp

section \<open>Examples\<close>

lemma solo_keys: "buildKey solo_row [''id''] = ''1''" "buildKey solo_row2 [''id''] = ''2''"
proof -
  have "Itoa 1 = ''1''" "Itoa 2 = ''2''" by (code_simp, code_simp)
  then show "buildKey solo_row [''id''] = ''1''" "buildKey solo_row2 [''id''] = ''2''"
    by (simp_all add: buildKey_def solo_row_def solo_row2_def row_get_def)
qed

text \<open>An engine with a snapshot store that holds one row and has acknowledged a position, and a fresh one.\<close>

definition snap_engine :: "(IndexedTarget, unit) coreEngine" where
  "snap_engine =
     (let e = example_engine [example_pipeline ''a'' tab_t (solo_target\<lparr>it_store := [''1'' \<mapsto> solo_row]\<rparr>)]
      in e\<lparr>e_snapshotStore := True, e_ackTracker := (e_ackTracker e)\<lparr>lastAcked := [''src'' \<mapsto> PosLSN 7]\<rparr>\<rparr>)"

definition snap_fresh :: "(IndexedTarget, unit) coreEngine" where
  "snap_fresh = example_engine [(example_pipeline ''a'' tab_t solo_target)\<lparr>p_state := PipelineInitializing\<rparr>]"

definition snap_env :: snapshot_env where
  "snap_env =
     \<lparr>sn_unixNano = 1, sn_createdAt = 1, sn_order = [''src''], sn_resumeOrder = [''src''], sn_pause = (\<lambda>sid. None),
      sn_resume = (\<lambda>sid. None), sn_exportOrder = (\<lambda>i. [''1'']), sn_save = None\<rparr>"

definition snap_reads :: "SnapshotMetadata \<Rightarrow> snapshot_entries \<Rightarrow> snapshot_reads" where
  "snap_reads md entries =
     \<lparr>sr_List = Inr [''snap-1''], sr_Load = (\<lambda>i. Inr (md, entries)), sr_readyOrder = (\<lambda>i. [''a''])\<rparr>"

definition snap_reload :: reload_env where
  "snap_reload =
     \<lparr>rl_pause = None, rl_truncate = (\<lambda>i j. 0), rl_rows = [(tab_t, Some solo_row2, \<lambda>i. 0)], rl_result = Inr (PosLSN 9),
      rl_resume = None\<rparr>"

definition snap_stop :: stop_env where
  "snap_stop =
     \<lparr>sp_waited = True, sp_snapshot = snap_env, sp_order = [''src''], sp_ackOrder = (\<lambda>sid. [''a'']), sp_ack = (\<lambda>sid. None),
      sp_closeOrder = [''src''], sp_close = (\<lambda>sid. None)\<rparr>"

lemmas snap_defs = snap_engine_def snap_fresh_def snap_env_def snap_reads_def snap_reload_def snap_stop_def

lemma snap_taken:
  "\<exists>md entries calls e1. doSnapshot IndexedTarget_vt (\<lambda>t. ''indexed'') snap_env Map.empty snap_engine =
     (None, CallSave ''snap-1'' md entries # calls, e1)"
proof -
  have "Itoa 1 = ''1''" by code_simp
  then show ?thesis
    by (simp add: doSnapshot_def snap_env_def snap_engine_def example_defs Let_def observe_def IndexedTarget_vt_def
        indexed_ExportSnapshot_def)
qed

lemma snap_restored:
  "SourcePositions md ''src'' = Some (PosLSN 7) \<Longrightarrow>
   \<exists>pos f'. trySnapshotRestore IndexedTarget_vt (snap_reads md entries) ''src'' [0] snap_fresh = Returns (pos, f')"
  by (simp add: trySnapshotRestore_def snap_reads_def snap_fresh_def example_defs Let_def observe_def set_pipeline_def
      call_target_def IndexedTarget_vt_def indexed_RestoreSnapshot_def setReady_def SetReady_def NewReadinessTracker_def
      transitionPipeline_def)

section \<open>Properties\<close>



text \<open>C8: What a baseline leaves behind.  A baseline that succeeds stores the filtered and transformed
  rows over what the in-memory target already held, so a row whose key it does not deliver stays; it then
  compares the number of rows that the source sent for the table, before filtering, with the number of
  rows in the target, and unless the action is to warn a difference puts the pipeline into the error
  state; otherwise the pipeline streams and the baseline position is confirmed for it.\<close>
theorem baseline_upserts:
  assumes "runBaseline IndexedTarget_vt env sid idxs e = Returns (pos, e')" and "be_result env = Inr pos"
    and "distinct idxs" and "\<forall>i \<in> set idxs. i < length (e_pipelines e)" and "idx \<in> set idxs" and "p = pipeline e idx"
    and "p_state p \<noteq> PipelineError" and "p_state p \<noteq> PipelineStopped" and "it_keyed pk (p_target p)"
    and "new = table_put (pk_key pk) (baseline_image p (be_rows env)) (it_store (p_target p))"
    and "ok \<longleftrightarrow> p_validationAction p = ValidationWarn \<or> length (source_rows (p_table p) (be_rows env)) = card (dom new)"
  shows "it_store (p_target (pipeline e' idx)) = new \<and>
    (\<forall>k. k \<notin> pk_key pk ` set (baseline_image p (be_rows env)) \<longrightarrow> new k = it_store (p_target p) k) \<and>
    loadState e' idx = (if ok then PipelineStreaming else PipelineError) \<and>
    (ok \<longrightarrow> positions (e_ackTracker e') (p_id p) = Some pos)"
proof -
  have rng: "in_range idxs e" using assms(3,4) by (simp add: in_range_def)
  have "baseline_valid IndexedTarget_vt env p new = ok"
    unfolding assms(11) by (simp add: baseline_valid_def IndexedTarget_vt_def)
  with indexed.baseline_loads [OF assms(1,2) rng assms(5-10)] show ?thesis
    using table_put_other [where key = "pk_key pk" and rs = "baseline_image p (be_rows env)" and m = "it_store (p_target p)"]
      assms(10) by simp
qed

theorem baseline_upserts_witness:
  "\<exists>e'. runBaseline IndexedTarget_vt solo_baseline ''src'' [0]
       (example_engine [example_pipeline ''a'' tab_t (solo_target\<lparr>it_store := [''2'' \<mapsto> solo_row2]\<rparr>)]) =
       Returns (PosLSN 5, e') \<and>
     it_store (p_target (pipeline e' 0)) ''2'' = Some solo_row2"
proof -
  let ?p = "example_pipeline ''a'' tab_t (solo_target\<lparr>it_store := [''2'' \<mapsto> solo_row2]\<rparr>)"
  let ?e = "example_engine [?p]"
  obtain e' where e': "runBaseline IndexedTarget_vt solo_baseline ''src'' [0] ?e = Returns (PosLSN 5, e')"
    using solo_keys
    by (simp add: solo_target_def solo_baseline_def example_defs stream_eval life_eval tab_t_def Table_def)
  have img: "baseline_image ?p (be_rows solo_baseline) = [solo_row]"
    by (simp add: baseline_image_def row_image_def solo_baseline_def example_pipeline_def applyFiltersAndTransforms_def
        isRowExpired_def)
  have "it_store (p_target (pipeline e' 0)) =
      table_put (pk_key [''id'']) (baseline_image ?p (be_rows solo_baseline)) (it_store (p_target ?p))"
    using baseline_upserts [OF e', of 0 ?p "[''id'']", OF _ _ _ _ _ _ _ _ refl refl] solo_keys
    by (simp add: solo_baseline_def example_defs it_keyed_def keyed_def solo_target_def NewIndexedTarget_def)
  then have "it_store (p_target (pipeline e' 0)) ''2'' = Some solo_row2"
    unfolding img using solo_keys by (simp add: example_pipeline_def)
  with e' show ?thesis by blast
qed



text \<open>C9: Reloading a table replaces the contents.  After a reload that reaches the source, the in-memory
  target of every affected pipeline holds exactly the filtered and transformed rows that the source
  sent, whatever it held before, and the source has been resumed.  A reload that succeeded leaves the
  pipeline streaming, also one that was paused, and one that failed leaves it in error with the rows
  sent until then; neither changes the positions to acknowledge.\<close>
theorem Reload_replaces:
  assumes "Reload IndexedTarget_vt env sid table e = (res, e')" and "checkRunning sid e = None" and "rl_pause env = None"
    and "idx \<in> set (affectedIdxs sid table e)" and "p = pipeline e idx" and "it_keyed pk (p_target p)"
  shows "it_store (p_target (pipeline e' idx)) = table_put (pk_key pk) (baseline_image p (rl_rows env)) Map.empty \<and>
    loadState e' idx = (if isl (rl_result env) then PipelineError else PipelineStreaming) \<and>
    e_ackTracker e' = e_ackTracker e \<and> CallResume sid \<in> set (e_log e') \<and>
    (res = None \<longleftrightarrow> \<not> isl (rl_result env) \<and> rl_resume env = None)"
proof -
  let ?idxs = "affectedIdxs sid table e" and ?e = "observe (CallPause sid) e"
  have ne: "?idxs \<noteq> []" using assms(4) by auto
  have r: "reloadTargets IndexedTarget_vt env sid ?idxs ?e = (res, e')"
    using assms(1-3) ne by (simp add: Reload_def Let_def)
  have rng: "in_range ?idxs ?e" by (auto simp: in_range_def affectedIdxs_def)
  note eff = reloadTargets_effect [OF rng r assms(4)]
  then show ?thesis
    using indexed.reload_effect_loads [OF assms(6), of env idx] assms(5) by (auto split: sum.splits)
qed

theorem Reload_replaces_witness:
  "\<exists>res e'. Reload IndexedTarget_vt snap_reload ''src'' tab_t snap_engine = (res, e') \<and>
     it_store (p_target (pipeline e' 0)) = [''2'' \<mapsto> solo_row2] \<and> loadState e' 0 = PipelineStreaming"
proof -
  let ?p = "example_pipeline ''a'' tab_t (solo_target\<lparr>it_store := [''1'' \<mapsto> solo_row]\<rparr>)"
  obtain res e' where r: "Reload IndexedTarget_vt snap_reload ''src'' tab_t snap_engine = (res, e')" by fastforce
  have "baseline_image ?p (rl_rows snap_reload) = [solo_row2]"
    by (simp add: baseline_image_def row_image_def snap_reload_def example_pipeline_def applyFiltersAndTransforms_def isRowExpired_def)
  then have "it_store (p_target (pipeline e' 0)) = table_put (pk_key [''id'']) [solo_row2] Map.empty \<and> loadState e' 0 = PipelineStreaming"
    using Reload_replaces [OF r, of 0 ?p "[''id'']"]
    by (simp add: snap_defs checkRunning_def affectedIdxs_def example_defs it_keyed_def keyed_def solo_target_def NewIndexedTarget_def solo_keys)
  then show ?thesis using r by (simp add: solo_keys)
qed

text \<open>C10: Stopping the engine.  A call of \<^verbatim>\<open>Stop\<close> on a running engine marks it stopped and cancels its
  context.  If the goroutines finish in time it succeeds, every pipeline is in the stopped state and
  every source has been closed; if they do not, it returns the context's error and has not touched a
  pipeline, a source or the snapshot store.  Either way a later \<^verbatim>\<open>Stop\<close> is refused and changes
  nothing, so after a timeout nothing closes the targets and the sources.\<close>
theorem Stop_closes:
  assumes "Stop vt typeName env e = (res, calls, e')" and "e_started e" and "\<not> e_stopped e"
  shows "e_stopped e' \<and> e_cancelled e' \<and> length (e_pipelines e') = length (e_pipelines e) \<and>
    (if sp_waited env
     then res = None \<and> (\<forall>i < length (e_pipelines e'). loadState e' i = PipelineStopped) \<and>
       (\<forall>sid \<in> set (sp_closeOrder env). CallClose sid \<in> set (e_log e'))
     else res = Some CtxErr \<and> calls = [] \<and> e_pipelines e' = e_pipelines e \<and> e_log e' = e_log e) \<and>
    Stop vt typeName env' e' = (Some errStopped, [], e')"
proof (cases "sp_waited env")
  case False
  with assms have "e' = cancelEngine (e\<lparr>e_stopped := True\<rparr>)" "res = Some CtxErr" "calls = []"
    by (simp_all add: Stop_def)
  with False assms(2) show ?thesis by (simp add: Stop_def cancelEngine_def)
next
  case True
  let ?e0 = "cancelEngine (e\<lparr>e_stopped := True\<rparr>)"
  obtain calls' e1 where e1: "(if e_snapshotOnShutdown ?e0 \<and> e_snapshotStore ?e0
      then triggerSnapshot ''shutdown'' ''shutdown snapshot'' vt typeName (sp_snapshot env) ?e0 else ([], ?e0)) = (calls', e1)"
    by fastforce
  let ?e2 = "finalAcks (sp_ackOrder env) (sp_ack env) (sp_order env) e1"
  let ?e3 = "closeTargets vt [0..<length (e_pipelines ?e2)] ?e2"
  have e': "e' = closeSources (sp_close env) (sp_closeOrder env) ?e3" "res = None"
    using assms True e1 by (simp_all add: Stop_def Let_def)
  have "ended e1" using e1 assms(2) triggerSnapshot_ended [of ?e0] by (auto simp: ended_def cancelEngine_def split: if_splits)
  then have "ended e'" unfolding e' by (simp add: ended_loops)
  have "e_pipelines e1 = e_pipelines e" using e1 triggerSnapshot_pipelines [of _ _ _ _ _ ?e0] by (auto split: if_splits)
  then have "length (e_pipelines e') = length (e_pipelines e)"
    using closeTargets_stops [of "[0..<length (e_pipelines ?e2)]" ?e2 vt] unfolding e'
    by (simp add: closeSources_pipelines finalAcks_pipelines)
  moreover note \<open>ended e'\<close>
  moreover have "loadState e' i = PipelineStopped" if "i < length (e_pipelines e')" for i
    using that closeTargets_stops [of "[0..<length (e_pipelines ?e2)]" ?e2 vt] unfolding e' by (simp add: closeSources_pipelines)
  moreover have "CallClose sid \<in> set (e_log e')" if "sid \<in> set (sp_closeOrder env)" for sid
    unfolding e' using that by (rule closeSources_closes)
  ultimately show ?thesis using True e'(2) by (simp add: Stop_def ended_def)
qed

theorem Stop_closes_witness:
  "\<exists>calls e'. Stop IndexedTarget_vt (\<lambda>t. ''indexed'') snap_stop snap_engine = (None, calls, e') \<and>
     loadState e' 0 = PipelineStopped \<and> CallClose ''src'' \<in> set (e_log e') \<and>
     Stop IndexedTarget_vt (\<lambda>t. ''indexed'') snap_stop e' = (Some errStopped, [], e')"
proof -
  obtain res calls e' where st: "Stop IndexedTarget_vt (\<lambda>t. ''indexed'') snap_stop snap_engine = (res, calls, e')"
    by (metis prod.exhaust)
  have "e_started snap_engine" "\<not> e_stopped snap_engine" by (simp_all add: snap_engine_def example_defs)
  from Stop_closes [OF st this, of snap_stop] st show ?thesis by (auto simp: snap_stop_def snap_engine_def example_defs Let_def)
qed

end
