(* ===== verification/Go_Floats.thy ===== *)
theory Go_Floats
  imports Laredo_Prelude "HOL-Library.Log_Nat" Complex_Main
begin

text \<open>
  The \<^verbatim>\<open>float64\<close> arithmetic that the program uses: the conversion of an integer and a product.  A
  finite \<^verbatim>\<open>float64\<close> stands for its exact value, a rational number, and \<open>round64\<close> rounds to 53
  significant bits, ties to even.  The magnitudes that occur (byte counts, row counts and fractions)
  are far from the limits of the exponent.
\<close>

definition round_even :: "rat \<Rightarrow> int" where
  "round_even x =
     (let f = \<lfloor>x\<rfloor>; d = x - of_int f in
      if d < 1 / 2 then f else if 1 / 2 < d then f + 1 else if even f then f else f + 1)"

definition pow2 :: "int \<Rightarrow> rat" where
  "pow2 e = (if 0 \<le> e then 2 ^ nat e else 1 / 2 ^ nat (- e))"

text \<open>The exponent of the last of the 53 bits of a positive number.\<close>

definition last_bit :: "rat \<Rightarrow> int" where
  "last_bit x =
     (case quotient_of x of (p, q) \<Rightarrow>
        let e = int (floorlog 2 (nat p)) - int (floorlog 2 (nat q)) - 53
        in if pow2 (e + 53) \<le> x then e + 1 else e)"

definition round64 :: "rat \<Rightarrow> rat" where
  "round64 x =
     (if x = 0 then 0
      else let e = last_bit \<bar>x\<bar> in (if x < 0 then - 1 else 1) * of_int (round_even (\<bar>x\<bar> / pow2 e)) * pow2 e)"

definition float64_of_int :: "int \<Rightarrow> rat" where
  "float64_of_int n = round64 (of_int n)"

definition float64_mul :: "rat \<Rightarrow> rat \<Rightarrow> rat" where
  "float64_mul a b = round64 (a * b)"

section \<open>Integers that a float64 holds exactly\<close>

lemma round_even_of_int [simp]: "round_even (of_int n) = n"
  by (simp add: round_even_def)

lemma pow2_nonzero [simp]: "pow2 e \<noteq> 0" "0 < pow2 e"
  by (simp_all add: pow2_def)

lemma last_bit_of_int:
  assumes "0 < n" and "n \<le> 2 ^ 53"
  shows "last_bit (of_int n) \<le> 0 \<or> n = 2 ^ 53"
proof (cases "n = 2 ^ 53")
  case False
  with assms have "nat n < 2 ^ 53" by (simp add: nat_less_iff)
  then have "floorlog 2 (nat n) \<le> 53" by (rule floorlog_leI) simp_all
  moreover have "floorlog 2 (nat 1) = 1" by (simp add: floorlog_def)
  ultimately have e: "int (floorlog 2 (nat n)) - int (floorlog 2 (nat 1)) - 53 \<le> - 1" by simp
  then show ?thesis by (auto simp: last_bit_def Let_def)
qed simp

lemma round64_exact:
  assumes "0 < n" and "n < 2 ^ 53"
  shows "round64 (of_int n) = of_int n"
proof -
  let ?e = "last_bit (of_int n)"
  have e: "?e \<le> 0" using last_bit_of_int [of n] assms by auto
  then have "of_int n / pow2 ?e = (of_int (n * 2 ^ nat (- ?e)) :: rat)"
    by (cases "?e = 0") (simp_all add: pow2_def)
  then have "round_even (of_int n / pow2 ?e) = n * 2 ^ nat (- ?e)" by (simp only: round_even_of_int)
  moreover have "of_int (n * 2 ^ nat (- ?e)) * pow2 ?e = (of_int n :: rat)"
    using e by (cases "?e = 0") (simp_all add: pow2_def)
  ultimately show ?thesis using assms(1) by (simp add: round64_def Let_def)
qed

lemma float64_of_int_exact:
  assumes "\<bar>n\<bar> < 2 ^ 53"
  shows "float64_of_int n = of_int n"
proof (cases "n = 0")
  case True
  then show ?thesis by (simp add: float64_of_int_def round64_def)
next
  case False
  then consider "0 < n" | "0 < - n" by linarith
  then show ?thesis
  proof cases
    case 1
    then show ?thesis using assms round64_exact [of n] by (simp add: float64_of_int_def)
  next
    case 2
    then have "round64 (of_int (- n)) = of_int (- n)" using assms by (intro round64_exact) simp_all
    moreover have "round64 (of_int n) = - round64 (of_int (- n))"
      using 2 by (simp add: round64_def Let_def)
    ultimately show ?thesis by (simp add: float64_of_int_def)
  qed
qed

lemma float64_of_int_inj:
  "\<bar>n\<bar> < 2 ^ 53 \<Longrightarrow> \<bar>m\<bar> < 2 ^ 53 \<Longrightarrow> float64_of_int n = float64_of_int m \<longleftrightarrow> n = m"
  by (simp add: float64_of_int_exact)

end
