(* ===== verification/Archive_Types.thy ===== *)
theory Archive_Types
  imports Core_Types Go_Floats
begin

text \<open>
  The data of the snapshot writer (\<^verbatim>\<open>types.go\<close>, \<^verbatim>\<open>keys.go\<close>, \<^verbatim>\<open>policy.go\<close>, \<^verbatim>\<open>format.go\<close> and
  \<^verbatim>\<open>destination.go\<close> of \<^verbatim>\<open>snapshotter\<close>): changes, artifacts, the manifest that indexes them, object
  keys and the decision between a diff and a new base.  Formats and destinations are Go interfaces,
  records of their methods here.  A stored object is a manifest, standing for its JSON text, or the
  bytes of an encoded artifact.
\<close>

section \<open>Changes, artifacts and the manifest\<close>

record Change =
  ch_Action :: ChangeAction
  ch_Key :: string
  ch_Old :: "row option"
  ch_New :: "row option"

type_synonym ArtifactKind = string

definition KindSnapshot :: ArtifactKind where
  "KindSnapshot = ''snapshot''"

definition KindDiff :: ArtifactKind where
  "KindDiff = ''diff''"

record FormatRef =
  fr_URI :: string
  fr_SizeBytes :: int

record Artifact =
  a_Kind :: ArtifactKind
  a_Epoch :: int
  a_FromPosition :: "string option"
  a_ToPosition :: string
  a_CreatedAt :: int
  a_RowCount :: int
  a_ChangeCount :: int
  a_Formats :: "string \<rightharpoonup> FormatRef"

record Manifest =
  m_ManifestVersion :: int
  m_Table :: string
  m_Epoch :: int
  m_UpdatedAt :: int
  m_HeadPosition :: string
  m_Artifacts :: "Artifact list"
  m_Columns :: "ColumnDefinition list"

definition ManifestVersion :: int where
  "ManifestVersion = 1"

record ArtifactEvent =
  ae_Table :: string
  ae_Kind :: ArtifactKind
  ae_Epoch :: int
  ae_FromPosition :: "string option"
  ae_ToPosition :: string
  ae_HeadPosition :: string
  ae_ManifestURI :: string
  ae_Formats :: "string \<rightharpoonup> string"
  ae_CreatedAt :: int

fun latest_loop :: "Artifact list \<Rightarrow> Artifact option \<Rightarrow> Artifact option" where
  "latest_loop [] latest = latest"
| "latest_loop (a # as) latest =
     (if a_Kind a \<noteq> KindSnapshot then latest_loop as latest
      else case latest of
             None \<Rightarrow> latest_loop as (Some a)
           | Some l \<Rightarrow> latest_loop as (if a_Epoch l < a_Epoch a then Some a else latest))"

definition latestSnapshot :: "Manifest \<Rightarrow> Artifact option" where
  "latestSnapshot m = latest_loop (m_Artifacts m) None"

definition prune :: "int \<Rightarrow> Manifest \<Rightarrow> Manifest" where
  "prune keepEpochs m =
     (if keepEpochs \<le> 0 then m
      else let minEpoch = m_Epoch m - keepEpochs + 1
           in m\<lparr>m_Artifacts := filter (\<lambda>a. minEpoch \<le> a_Epoch a) (m_Artifacts m)\<rparr>)"

section \<open>Object keys and row keys\<close>

definition ManifestObjectKey :: "string \<Rightarrow> string" where
  "ManifestObjectKey keyPrefix = keyPrefix @ ''manifest.json''"

definition sanitizePosition :: "string \<Rightarrow> string" where
  "sanitizePosition p =
     (if p = [] then ''0''
      else map (\<lambda>c. if c = CHR ''/'' \<or> c = CHR '':'' \<or> c = CHR '' '' then CHR ''_'' else c) p)"

definition ArtifactObjectKey :: "string \<Rightarrow> Artifact \<Rightarrow> string \<Rightarrow> string" where
  "ArtifactObjectKey keyPrefix art ext =
     (let to = sanitizePosition (a_ToPosition art);
          name = (if a_Kind art = KindSnapshot then ''snapshot-'' @ to @ ext
                  else let from = (case a_FromPosition art of None \<Rightarrow> ''start'' | Some p \<Rightarrow> sanitizePosition p)
                       in ''diff-'' @ from @ ''-'' @ to @ ext)
      in keyPrefix @ ''epoch='' @ Itoa (a_Epoch art) @ ''/'' @ name)"

fun join_space :: "string list \<Rightarrow> string" where
  "join_space [] = []"
| "join_space [s] = s"
| "join_space (s # t # ss) = s @ '' '' @ join_space (t # ss)"

definition RowKey :: "row \<Rightarrow> string list \<Rightarrow> string" where
  "RowKey r keyFields =
     (let keyFields = (if keyFields = [] then [''id''] else keyFields) in
      if length keyFields = 1 then Sprint_v (row_get r (keyFields ! 0))
      else ''['' @ join_space (map (\<lambda>f. Sprint_v (row_get r f)) keyFields) @ '']'')"

section \<open>The policy\<close>

text \<open>The two fractions are \<^verbatim>\<open>float64\<close> values.\<close>

record Policy =
  po_DiffInterval :: int
  po_MinInterval :: int
  po_MaxInterval :: int
  po_MaxDiffBytes :: int
  po_MaxDiffFraction :: rat
  po_MaxChurnRecords :: int
  po_MaxChurnFraction :: rat

record triggerState =
  ts_sinceSnapshot :: int
  ts_diffBytes :: int
  ts_churnRecords :: int
  ts_datasetSize :: int
  ts_lastSnapshotBytes :: int

definition shouldSnapshot :: "Policy \<Rightarrow> triggerState \<Rightarrow> bool \<times> string" where
  "shouldSnapshot p st =
     (if 0 < po_MinInterval p \<and> ts_sinceSnapshot st < po_MinInterval p then (False, [])
      else if 0 < po_MaxInterval p \<and> po_MaxInterval p \<le> ts_sinceSnapshot st then (True, ''max_interval'')
      else if 0 < po_MaxDiffBytes p \<and> po_MaxDiffBytes p \<le> ts_diffBytes st then (True, ''max_diff_bytes'')
      else if 0 < po_MaxDiffFraction p \<and> 0 < ts_lastSnapshotBytes st \<and>
              float64_mul (po_MaxDiffFraction p) (float64_of_int (ts_lastSnapshotBytes st)) \<le> float64_of_int (ts_diffBytes st)
           then (True, ''max_diff_fraction'')
      else if 0 < po_MaxChurnRecords p \<and> po_MaxChurnRecords p \<le> ts_churnRecords st then (True, ''max_churn_records'')
      else if 0 < po_MaxChurnFraction p \<and> 0 < ts_datasetSize st \<and>
              float64_mul (po_MaxChurnFraction p) (float64_of_int (ts_datasetSize st)) \<le> float64_of_int (ts_churnRecords st)
           then (True, ''max_churn_fraction'')
      else (False, []))"

section \<open>Formats and destinations\<close>

record Format =
  f_FormatID :: string
  f_Extension :: string
  f_WriteSnapshot :: "row list \<Rightarrow> goerror + string"
  f_ReadSnapshot :: "string \<Rightarrow> goerror + row list"
  f_WriteDiff :: "Change list \<Rightarrow> goerror + string"
  f_ReadDiff :: "string \<Rightarrow> goerror + Change list"

datatype object = ManifestObject Manifest | BytesObject string

definition ErrCASConflict :: goerror where
  "ErrCASConflict = Err ''snapshotter: compare-and-swap conflict''"

text \<open>\<open>'d\<close> is the state of a destination.  \<^verbatim>\<open>Put\<close> returns the URI and the size, \<^verbatim>\<open>Get\<close> the object and
  its revision, if there is one.\<close>

record 'd Destination =
  d_Name :: "'d \<Rightarrow> string"
  d_Put :: "string \<Rightarrow> object \<Rightarrow> 'd \<Rightarrow> (goerror + string \<times> int) \<times> 'd"
  d_Get :: "string \<Rightarrow> 'd \<Rightarrow> goerror + (object \<times> string) option"
  d_PutCAS :: "string \<Rightarrow> object \<Rightarrow> string \<Rightarrow> 'd \<Rightarrow> (goerror + string) \<times> 'd"

section \<open>Facts\<close>

lemma KindDiff_neq [simp]: "KindDiff \<noteq> KindSnapshot"
  by (simp add: KindDiff_def KindSnapshot_def)

lemma latest_loop_skip:
  "\<forall>a \<in> set as. a_Kind a = KindSnapshot \<longrightarrow> a_Epoch a < a_Epoch s \<Longrightarrow> latest_loop as (Some s) = Some s"
  by (induction as) auto

lemma latest_loop_later:
  assumes "a_Kind s = KindSnapshot" and "\<forall>a \<in> set as. a_Kind a = KindSnapshot \<longrightarrow> a_Epoch a < a_Epoch s"
    and "case l of None \<Rightarrow> True | Some l \<Rightarrow> a_Epoch l < a_Epoch s"
  shows "latest_loop (as @ s # bs) l = latest_loop bs (Some s)"
  using assms(2,3)
proof (induction as arbitrary: l)
  case Nil
  then show ?case using assms(1) by (cases l) auto
next
  case (Cons a as)
  then show ?case by (cases l) auto
qed

text \<open>The newest snapshot is the one with the highest epoch.\<close>

lemma latestSnapshot_newest:
  assumes "m_Artifacts m = as @ s # bs" and "a_Kind s = KindSnapshot"
    and "\<forall>a \<in> set as \<union> set bs. a_Kind a = KindSnapshot \<longrightarrow> a_Epoch a < a_Epoch s"
  shows "latestSnapshot m = Some s"
  using assms latest_loop_later [of s as None bs] latest_loop_skip [of bs s] by (simp add: latestSnapshot_def)

end
