(* ===== verification/Archive_Reader.thy ===== *)
theory Archive_Reader
  imports Archive_Types Row_Keys
begin

text \<open>
  Reading an archive (\<^verbatim>\<open>reader.go\<close> of \<^verbatim>\<open>snapshotter\<close>): loading the manifest, planning the chain of
  artifacts from a position to the head or back to an earlier position, and folding the chain into
  the rows of the table.  The loops that follow the chain from position to position are
  \<^theory_text>\<open>partial_function\<close>s, with \<open>None\<close> for a loop that never ends.
\<close>

section \<open>Reading artifacts\<close>

record 'd Reader =
  r_dest :: 'd
  r_prefix :: string
  r_formats :: "Format list"

definition ErrManifestNotFound :: goerror where
  "ErrManifestNotFound = Err ''snapshotter: manifest not found''"

definition ErrUnsupportedManifestVersion :: goerror where
  "ErrUnsupportedManifestVersion = Err ''snapshotter: unsupported manifest version''"

definition NewReader :: "'d option \<Rightarrow> string \<Rightarrow> Format list \<Rightarrow> goerror + 'd Reader" where
  "NewReader dest keyPrefix formats =
     (case dest of
        None \<Rightarrow> Inl (Err ''snapshotter: Reader requires a destination'')
      | Some d \<Rightarrow>
          if formats = [] then Inl (Err ''snapshotter: Reader requires at least one format'')
          else Inr \<lparr>r_dest = d, r_prefix = keyPrefix, r_formats = formats\<rparr>)"

text \<open>The version numbers in the text of the error are left out.\<close>

definition LoadManifest :: "'d Destination \<Rightarrow> 'd Reader \<Rightarrow> goerror + Manifest" where
  "LoadManifest vt r =
     (case d_Get vt (ManifestObjectKey (r_prefix r)) (r_dest r) of
        Inl err \<Rightarrow> Inl (Wrap ''snapshotter: read manifest'' err)
      | Inr None \<Rightarrow> Inl ErrManifestNotFound
      | Inr (Some (BytesObject data, rv)) \<Rightarrow> Inl (Wrap ''snapshotter: parse manifest'' (Err ''invalid manifest''))
      | Inr (Some (ManifestObject m, rv)) \<Rightarrow>
          if ManifestVersion < m_ManifestVersion m then Inl ErrUnsupportedManifestVersion else Inr m)"

fun format_loop :: "Format list \<Rightarrow> Artifact \<Rightarrow> Format option" where
  "format_loop [] art = None"
| "format_loop (f # fs) art = (if a_Formats art (f_FormatID f) \<noteq> None then Some f else format_loop fs art)"

definition formatFor :: "'d Reader \<Rightarrow> Artifact \<Rightarrow> Format option" where
  "formatFor r art = format_loop (r_formats r) art"

definition artifactBytes :: "'d Destination \<Rightarrow> 'd Reader \<Rightarrow> Artifact \<Rightarrow> Format \<Rightarrow> goerror + object" where
  "artifactBytes vt r art f =
     (let key = ArtifactObjectKey (r_prefix r) art (f_Extension f) in
      case d_Get vt key (r_dest r) of
        Inl err \<Rightarrow> Inl (Wrap (''snapshotter: read artifact '' @ key) err)
      | Inr None \<Rightarrow> Inl (Err (''snapshotter: artifact object missing: '' @ key))
      | Inr (Some (data, rv)) \<Rightarrow> Inr data)"

text \<open>No format decodes the JSON text of a manifest.\<close>

definition decode :: "(string \<Rightarrow> goerror + 'a) \<Rightarrow> object \<Rightarrow> goerror + 'a" where
  "decode read data = (case data of BytesObject b \<Rightarrow> read b | ManifestObject m \<Rightarrow> Inl (Err ''not an artifact''))"

definition ReadSnapshot :: "'d Destination \<Rightarrow> 'd Reader \<Rightarrow> Artifact \<Rightarrow> goerror + row list" where
  "ReadSnapshot vt r art =
     (case formatFor r art of
        None \<Rightarrow> Inl (Err (''snapshotter: no configured format can decode snapshot at epoch '' @ Itoa (a_Epoch art)))
      | Some f \<Rightarrow>
          (case artifactBytes vt r art f of Inl err \<Rightarrow> Inl err | Inr data \<Rightarrow> decode (f_ReadSnapshot f) data))"

definition ReadDiff :: "'d Destination \<Rightarrow> 'd Reader \<Rightarrow> Artifact \<Rightarrow> goerror + Change list" where
  "ReadDiff vt r art =
     (case formatFor r art of
        None \<Rightarrow> Inl (Err (''snapshotter: no configured format can decode diff at epoch '' @ Itoa (a_Epoch art)))
      | Some f \<Rightarrow>
          (case artifactBytes vt r art f of Inl err \<Rightarrow> Inl err | Inr data \<Rightarrow> decode (f_ReadDiff f) data))"

section \<open>Planning\<close>

record ReplayPlan =
  rp_Snapshot :: "Artifact option"
  rp_Diffs :: "Artifact list"
  rp_HeadPosition :: string

definition by_from :: "Artifact list \<Rightarrow> (string \<rightharpoonup> Artifact)" where
  "by_from deltas = foldl (\<lambda>m d. m(the (a_FromPosition d) \<mapsto> d)) Map.empty deltas"

definition is_diff :: "Artifact \<Rightarrow> bool" where
  "is_diff a \<longleftrightarrow> a_Kind a = KindDiff \<and> a_FromPosition a \<noteq> None"

partial_function (option) chain_loop :: "(string \<rightharpoonup> Artifact) \<Rightarrow> string \<Rightarrow> Artifact list option" where
  "chain_loop byFrom cur =
     (case byFrom cur of
        None \<Rightarrow> Some []
      | Some d \<Rightarrow> Option.bind (chain_loop byFrom (a_ToPosition d)) (\<lambda>ds. Some (d # ds)))"

definition contiguousDiffChain :: "Artifact list \<Rightarrow> string \<Rightarrow> (Artifact list \<times> string \<times> bool) option" where
  "contiguousDiffChain deltas startPos =
     map_option (\<lambda>chain. (chain, if chain = [] then [] else a_ToPosition (last chain), chain \<noteq> []))
       (chain_loop (by_from deltas) startPos)"

definition Plan :: "Manifest \<Rightarrow> string \<Rightarrow> (string \<Rightarrow> string \<Rightarrow> int) \<Rightarrow> ReplayPlan option option" where
  "Plan m fromPosition cmp =
     (if m_Artifacts m = [] then Some None
      else let deltas = filter is_diff (m_Artifacts m) in
        case contiguousDiffChain deltas fromPosition of
          None \<Rightarrow> None
        | Some (chain, head, ok) \<Rightarrow>
            if ok \<and> 0 \<le> cmp head (m_HeadPosition m)
            then Some (Some \<lparr>rp_Snapshot = None, rp_Diffs = chain, rp_HeadPosition = head\<rparr>)
            else case latestSnapshot m of
                   None \<Rightarrow> Some None
                 | Some snap \<Rightarrow>
                     (case contiguousDiffChain deltas (a_ToPosition snap) of
                        None \<Rightarrow> None
                      | Some (chain, head, ok) \<Rightarrow>
                          Some (Some \<lparr>rp_Snapshot = Some snap, rp_Diffs = chain,
                            rp_HeadPosition = (if head = [] then a_ToPosition snap else head)\<rparr>)))"

fun base_loop :: "(string \<Rightarrow> string \<Rightarrow> int) \<Rightarrow> string \<Rightarrow> Artifact list \<Rightarrow> Artifact option \<Rightarrow> Artifact option" where
  "base_loop cmp position [] base = base"
| "base_loop cmp position (a # as) base =
     (if a_Kind a = KindSnapshot \<and> cmp (a_ToPosition a) position \<le> 0 \<and>
         (case base of None \<Rightarrow> True | Some b \<Rightarrow> 0 < cmp (a_ToPosition a) (a_ToPosition b))
      then base_loop cmp position as (Some a) else base_loop cmp position as base)"

partial_function (option) asof_loop ::
    "(string \<Rightarrow> string \<Rightarrow> int) \<Rightarrow> string \<Rightarrow> (string \<rightharpoonup> Artifact) \<Rightarrow> string \<Rightarrow> Artifact list option" where
  "asof_loop cmp position byFrom cur =
     (case byFrom cur of
        None \<Rightarrow> Some []
      | Some d \<Rightarrow>
          if 0 < cmp (a_ToPosition d) position then Some []
          else Option.bind (asof_loop cmp position byFrom (a_ToPosition d)) (\<lambda>ds. Some (d # ds)))"

definition PlanAsOf :: "Manifest \<Rightarrow> string \<Rightarrow> (string \<Rightarrow> string \<Rightarrow> int) \<Rightarrow> ReplayPlan option option" where
  "PlanAsOf m position cmp =
     (case base_loop cmp position (m_Artifacts m) None of
        None \<Rightarrow> Some None
      | Some base \<Rightarrow>
          map_option (\<lambda>deltas. Some \<lparr>rp_Snapshot = Some base, rp_Diffs = deltas,
              rp_HeadPosition = (if deltas = [] then a_ToPosition base else a_ToPosition (last deltas))\<rparr>)
            (asof_loop cmp position (by_from (filter is_diff (m_Artifacts m))) (a_ToPosition base)))"

section \<open>Reconstruction\<close>

record Reconstruction =
  rc_Rows :: "row list"
  rc_Position :: string

definition load_base :: "string list \<Rightarrow> row list \<Rightarrow> (string \<rightharpoonup> row)" where
  "load_base keyFields rs = foldl (\<lambda>m r. m(RowKey r keyFields \<mapsto> r)) Map.empty rs"

text \<open>A nil row that is stored reads back as nil.\<close>

definition fold_change :: "(string \<rightharpoonup> row) \<Rightarrow> Change \<Rightarrow> (string \<rightharpoonup> row)" where
  "fold_change state ch =
     (case ch_Action ch of
        ActionDelete \<Rightarrow> state(ch_Key ch := None)
      | ActionTruncate \<Rightarrow> Map.empty
      | _ \<Rightarrow> state(ch_Key ch \<mapsto> nilrow (ch_New ch)))"

fun fold_diffs ::
    "'d Destination \<Rightarrow> 'd Reader \<Rightarrow> Artifact list \<Rightarrow> (string \<rightharpoonup> row) \<Rightarrow> goerror + (string \<rightharpoonup> row)" where
  "fold_diffs vt r [] state = Inr state"
| "fold_diffs vt r (d # ds) state =
     (case ReadDiff vt r d of
        Inl err \<Rightarrow> Inl err
      | Inr changes \<Rightarrow> fold_diffs vt r ds (foldl fold_change state changes))"

text \<open>The table as the reader folds it, before its rows are listed.\<close>

definition reconstruct_state ::
    "'d Destination \<Rightarrow> 'd Reader \<Rightarrow> string list \<Rightarrow> ReplayPlan \<Rightarrow> goerror + (string \<rightharpoonup> row)" where
  "reconstruct_state vt r keyFields plan =
     (case (case rp_Snapshot plan of
              None \<Rightarrow> Inr Map.empty
            | Some snap \<Rightarrow>
                (case ReadSnapshot vt r snap of Inl err \<Rightarrow> Inl err | Inr base \<Rightarrow> Inr (load_base keyFields base))) of
        Inl err \<Rightarrow> Inl err
      | Inr state \<Rightarrow> fold_diffs vt r (rp_Diffs plan) state)"

text \<open>\<open>order\<close> is the iteration order of the resulting map.  The outer option is for a plan that never
  ends, the inner one for the nil result.\<close>

definition ReconstructAsOf ::
    "'d Destination \<Rightarrow> ((string \<rightharpoonup> row) \<Rightarrow> string list) \<Rightarrow> 'd Reader \<Rightarrow> string \<Rightarrow> string list \<Rightarrow> (string \<Rightarrow> string \<Rightarrow> int) \<Rightarrow>
     (goerror + Reconstruction option) option" where
  "ReconstructAsOf vt order r position keyFields cmp =
     (case LoadManifest vt r of
        Inl err \<Rightarrow> Some (Inl err)
      | Inr m \<Rightarrow>
          (case PlanAsOf m position cmp of
             None \<Rightarrow> None
           | Some None \<Rightarrow> Some (Inr None)
           | Some (Some plan) \<Rightarrow>
               (case reconstruct_state vt r keyFields plan of
                  Inl err \<Rightarrow> Some (Inl err)
                | Inr state \<Rightarrow>
                    Some (Inr (Some \<lparr>rc_Rows = values_of (order state) state, rc_Position = rp_HeadPosition plan\<rparr>)))))"

section \<open>Chains\<close>

lemma by_from_append: "by_from (ds @ [d]) = (by_from ds)(the (a_FromPosition d) \<mapsto> d)"
  by (simp add: by_from_def)

lemma by_from_mem: "by_from ds p = Some d \<Longrightarrow> d \<in> set ds \<and> the (a_FromPosition d) = p"
  by (induction ds rule: rev_induct) (auto simp: by_from_append by_from_def split: if_splits)

text \<open>A diff that does not advance the position keeps the loop at the same position for ever.\<close>

lemma chain_loop_cycle:
  assumes "byFrom p = Some d" and "a_ToPosition d = p"
  shows "chain_loop byFrom p = None"
proof (cases "chain_loop byFrom p")
  case (Some ds)
  have "chain_loop byFrom p = Option.bind (chain_loop byFrom p) (\<lambda>ds. Some (d # ds))"
    by (subst chain_loop.simps) (simp add: assms)
  with Some show ?thesis by simp
qed simp

text \<open>If every diff advances along a strict order, the loop ends.\<close>

lemma chain_loop_ends:
  assumes "finite (ran byFrom)" and "\<And>p d. byFrom p = Some d \<Longrightarrow> before p (a_ToPosition d)"
    and "\<And>p q r. before p q \<Longrightarrow> before q r \<Longrightarrow> before p r" and "\<And>p. \<not> before p p"
  shows "\<exists>ds. chain_loop byFrom cur = Some ds"
proof -
  let ?above = "\<lambda>cur. {d \<in> ran byFrom. before cur (a_ToPosition d)}"
  have "card (?above cur) = n \<Longrightarrow> \<exists>ds. chain_loop byFrom cur = Some ds" for n
  proof (induction n arbitrary: cur rule: less_induct)
    case (less n)
    show ?case
    proof (cases "byFrom cur")
      case None
      then show ?thesis by (subst chain_loop.simps) simp
    next
      case (Some d)
      then have adv: "d \<in> ?above cur" using assms(2) by (auto simp: ran_def)
      have "?above (a_ToPosition d) \<subset> ?above cur"
        using adv assms(2) [OF Some] assms(3,4) by blast
      moreover have "finite (?above cur)" using assms(1) by simp
      ultimately have "card (?above (a_ToPosition d)) < n" using less.prems psubset_card_mono by metis
      then obtain ds where "chain_loop byFrom (a_ToPosition d) = Some ds" using less.IH by blast
      with Some show ?thesis by (subst chain_loop.simps) simp
    qed
  qed
  then show ?thesis by blast
qed

lemma ran_by_from: "ran (by_from ds) \<subseteq> set ds"
  by (auto simp: ran_def dest: by_from_mem)

lemma finite_ran_by_from [simp]: "finite (ran (by_from ds))"
  using ran_by_from finite_subset by blast

end
