(* ===== verification/Archive_Writer.thy ===== *)
theory Archive_Writer
  imports Archive_Reader
begin

text \<open>
  The snapshot writer (\<^verbatim>\<open>writer.go\<close>, \<^verbatim>\<open>writer_manifest.go\<close> and \<^verbatim>\<open>export.go\<close> of \<^verbatim>\<open>snapshotter\<close>): it
  buffers the changes of a table, collapsed by key, writes them as diffs, and writes base snapshots.
  What the subscription returns, the clock and the iteration order of the buffer are arguments; so
  are the changes that arrive while a flush or snapshot has released its lock before it asks the
  subscription.  Changes that arrive later than that touch only the buffer and the churn, so they are
  the same as changes after the flush.
\<close>

section \<open>State\<close>

record ArchiveConfig =
  c_Table :: string
  c_KeyPrefix :: string
  c_Policy :: Policy
  c_SnapshotFormats :: "Format list"
  c_DiffFormats :: "Format list"
  c_Sinks :: "string list"
  c_KeyFields :: "string list"
  c_ReadyTimeout :: int
  c_KeepEpochs :: int

record 'd Writer =
  w_cfg :: ArchiveConfig
  w_buffer :: "string \<rightharpoonup> Change"
  w_churn :: int
  w_epoch :: int
  w_fromPos :: string
  w_lastSnapshotAt :: int
  w_lastSnapshotBytes :: int
  w_headPos :: string
  w_manifest :: Manifest
  w_revs :: "string \<rightharpoonup> string"
  w_dests :: "'d list"
  w_published :: "(string \<times> ArtifactEvent) list"

definition NewWriter :: "ArchiveConfig \<Rightarrow> 'd list \<Rightarrow> goerror + 'd Writer" where
  "NewWriter cfg dests =
     (if c_Table cfg = [] then Inl (Err ''snapshotter: Table is required'')
      else if dests = [] then Inl (Err ''snapshotter: at least one destination is required'')
      else if c_SnapshotFormats cfg = [] \<or> c_DiffFormats cfg = []
           then Inl (Err ''snapshotter: at least one snapshot and one diff format are required'')
      else if po_DiffInterval (c_Policy cfg) \<le> 0 then Inl (Err ''snapshotter: Policy.DiffInterval must be > 0'')
      else
        let cfg = cfg\<lparr>c_KeyFields := (if c_KeyFields cfg = [] then [''id''] else c_KeyFields cfg),
                      c_ReadyTimeout := (if c_ReadyTimeout cfg \<le> 0 then 60000000000 else c_ReadyTimeout cfg)\<rparr>
        in Inr \<lparr>w_cfg = cfg, w_buffer = Map.empty, w_churn = 0, w_epoch = 0, w_fromPos = [], w_lastSnapshotAt = 0,
                w_lastSnapshotBytes = 0, w_headPos = [],
                w_manifest = \<lparr>m_ManifestVersion = ManifestVersion, m_Table = c_Table cfg, m_Epoch = 0, m_UpdatedAt = 0,
                  m_HeadPosition = [], m_Artifacts = [], m_Columns = []\<rparr>,
                w_revs = Map.empty, w_dests = dests, w_published = []\<rparr>)"

definition keyOf :: "'d Writer \<Rightarrow> row option \<Rightarrow> string" where
  "keyOf w r = RowKey (nilrow r) (c_KeyFields (w_cfg w))"

definition onChange :: "row option \<Rightarrow> row option \<Rightarrow> 'd Writer \<Rightarrow> 'd Writer" where
  "onChange old new w =
     (let key = keyOf w (case new of None \<Rightarrow> old | Some r \<Rightarrow> new);
          w = w\<lparr>w_churn := w_churn w + 1\<rparr>
      in case (old, new) of
           (None, Some r) \<Rightarrow>
             w\<lparr>w_buffer := (w_buffer w)(key \<mapsto> \<lparr>ch_Action = ActionInsert, ch_Key = key, ch_Old = None, ch_New = new\<rparr>)\<rparr>
         | (Some r0, Some r) \<Rightarrow>
             w\<lparr>w_buffer := (w_buffer w)(key \<mapsto> \<lparr>ch_Action = ActionUpdate, ch_Key = key, ch_Old = old, ch_New = new\<rparr>)\<rparr>
         | (Some r0, None) \<Rightarrow>
             w\<lparr>w_buffer := (w_buffer w)(key \<mapsto> \<lparr>ch_Action = ActionDelete, ch_Key = key, ch_Old = old, ch_New = None\<rparr>)\<rparr>
         | (None, None) \<Rightarrow>
             w\<lparr>w_buffer := [key \<mapsto> \<lparr>ch_Action = ActionTruncate, ch_Key = key, ch_Old = None, ch_New = None\<rparr>]\<rparr>)"

type_synonym raced = "(row option \<times> row option) list"

definition onChanges :: "raced \<Rightarrow> 'd Writer \<Rightarrow> 'd Writer" where
  "onChanges cs w = foldl (\<lambda>w (old, new). onChange old new w) w cs"

definition remerge :: "(string \<rightharpoonup> Change) \<Rightarrow> 'd Writer \<Rightarrow> 'd Writer" where
  "remerge drained w = w\<lparr>w_buffer := (\<lambda>k. case w_buffer w k of None \<Rightarrow> drained k | Some c \<Rightarrow> Some c)\<rparr>"

section \<open>Objects\<close>

text \<open>The loop over the destinations; an error comes with the name of the destination.\<close>

fun put_loop ::
    "'d Destination \<Rightarrow> string \<Rightarrow> object \<Rightarrow> 'd list \<Rightarrow> (string \<times> goerror + FormatRef list) \<times> 'd list" where
  "put_loop vt key data [] = (Inr [], [])"
| "put_loop vt key data (d # ds) =
     (case d_Put vt key data d of
        (Inl err, d') \<Rightarrow> (Inl (d_Name vt d, err), d' # ds)
      | (Inr (uri, sz), d') \<Rightarrow>
          (case put_loop vt key data ds of
             (Inl err, ds') \<Rightarrow> (Inl err, d' # ds')
           | (Inr refs, ds') \<Rightarrow> (Inr (\<lparr>fr_URI = uri, fr_SizeBytes = sz\<rparr> # refs), d' # ds')))"

definition putArtifact ::
    "'d Destination \<Rightarrow> string \<Rightarrow> Artifact \<Rightarrow> string \<Rightarrow> string \<Rightarrow> 'd list \<Rightarrow> (goerror + FormatRef) \<times> 'd list" where
  "putArtifact vt keyPrefix art ext data dests =
     (case put_loop vt (ArtifactObjectKey keyPrefix art ext) (BytesObject data) dests of
        (Inl (name, err), ds) \<Rightarrow> (Inl (Wrap (''put '' @ ArtifactObjectKey keyPrefix art ext @ '' to '' @ name) err), ds)
      | (Inr refs, ds) \<Rightarrow> (Inr (case refs of [] \<Rightarrow> \<lparr>fr_URI = [], fr_SizeBytes = 0\<rparr> | ref # _ \<Rightarrow> ref), ds))"

fun load_loop :: "'d Destination \<Rightarrow> string \<Rightarrow> string \<Rightarrow> 'd list \<Rightarrow> 'd Writer \<Rightarrow> goerror option \<times> 'd Writer" where
  "load_loop vt key first [] w = (None, w)"
| "load_loop vt key first (d # ds) w =
     (case d_Get vt key d of
        Inl err \<Rightarrow> (Some (Wrap (''read manifest from '' @ d_Name vt d) err), w)
      | Inr None \<Rightarrow> load_loop vt key first ds (w\<lparr>w_revs := (w_revs w)(d_Name vt d \<mapsto> [])\<rparr>)
      | Inr (Some (data, rv)) \<Rightarrow>
          let w = w\<lparr>w_revs := (w_revs w)(d_Name vt d \<mapsto> rv)\<rparr> in
          if d_Name vt d \<noteq> first then load_loop vt key first ds w
          else case data of
                 BytesObject b \<Rightarrow> (Some (Wrap (''parse manifest from '' @ d_Name vt d) (Err ''invalid manifest'')), w)
               | ManifestObject m \<Rightarrow>
                   load_loop vt key first ds
                     (w\<lparr>w_manifest := m, w_epoch := m_Epoch m, w_fromPos := m_HeadPosition m, w_headPos := m_HeadPosition m\<rparr>))"

definition loadManifest :: "'d Destination \<Rightarrow> 'd Writer \<Rightarrow> goerror option \<times> 'd Writer" where
  "loadManifest vt w =
     load_loop vt (ManifestObjectKey (c_KeyPrefix (w_cfg w))) (d_Name vt (hd (w_dests w))) (w_dests w) w"

fun cas_loop ::
    "'d Destination \<Rightarrow> string \<Rightarrow> object \<Rightarrow> 'd list \<Rightarrow> (string \<rightharpoonup> string) \<Rightarrow> goerror option \<times> (string \<rightharpoonup> string) \<times> 'd list" where
  "cas_loop vt key data [] revs = (None, revs, [])"
| "cas_loop vt key data (d # ds) revs =
     (case d_PutCAS vt key data (case revs (d_Name vt d) of None \<Rightarrow> [] | Some rv \<Rightarrow> rv) d of
        (Inl err, d') \<Rightarrow> (Some (Wrap (''commit manifest to '' @ d_Name vt d) err), revs, d' # ds)
      | (Inr newRev, d') \<Rightarrow>
          (case cas_loop vt key data ds (revs(d_Name vt d \<mapsto> newRev)) of
             (err, revs, ds') \<Rightarrow> (err, revs, d' # ds')))"

definition next_manifest :: "int \<Rightarrow> ColumnDefinition list option \<Rightarrow> Artifact \<Rightarrow> 'd Writer \<Rightarrow> Manifest" where
  "next_manifest now columns art w =
     (let m = w_manifest w;
          m = m\<lparr>m_ManifestVersion := ManifestVersion, m_Table := c_Table (w_cfg w)\<rparr>;
          m = (if a_Kind art = KindSnapshot then m\<lparr>m_Epoch := a_Epoch art\<rparr> else m);
          m = m\<lparr>m_UpdatedAt := now, m_HeadPosition := a_ToPosition art\<rparr>;
          m = (case columns of None \<Rightarrow> m | Some cols \<Rightarrow> m\<lparr>m_Columns := cols\<rparr>);
          m = m\<lparr>m_Artifacts := m_Artifacts m @ [art]\<rparr>
      in prune (c_KeepEpochs (w_cfg w)) m)"

text \<open>\<open>columns\<close> is what the subscription's \<^verbatim>\<open>Columns\<close> returns, if it has that method.\<close>

definition commit ::
    "'d Destination \<Rightarrow> int \<Rightarrow> ColumnDefinition list option \<Rightarrow> Artifact \<Rightarrow> 'd Writer \<Rightarrow> goerror option \<times> 'd Writer" where
  "commit vt now columns art w =
     (let m = next_manifest now columns art w;
          w = w\<lparr>w_manifest := m\<rparr>
      in case cas_loop vt (ManifestObjectKey (c_KeyPrefix (w_cfg w))) (ManifestObject m) (w_dests w) (w_revs w) of
           (err, revs, ds) \<Rightarrow> (err, w\<lparr>w_revs := revs, w_dests := ds\<rparr>))"

definition artifact_event :: "'d Writer \<Rightarrow> Artifact \<Rightarrow> ArtifactEvent" where
  "artifact_event w art =
     \<lparr>ae_Table = c_Table (w_cfg w), ae_Kind = a_Kind art, ae_Epoch = a_Epoch art, ae_FromPosition = a_FromPosition art,
      ae_ToPosition = a_ToPosition art, ae_HeadPosition = a_ToPosition art,
      ae_ManifestURI = ManifestObjectKey (c_KeyPrefix (w_cfg w)),
      ae_Formats = (\<lambda>i. map_option fr_URI (a_Formats art i)), ae_CreatedAt = a_CreatedAt art\<rparr>"

definition emit :: "Artifact \<Rightarrow> 'd Writer \<Rightarrow> 'd Writer" where
  "emit art w = w\<lparr>w_published := w_published w @ map (\<lambda>s. (s, artifact_event w art)) (c_Sinks (w_cfg w))\<rparr>"

section \<open>Base snapshots\<close>

text \<open>The loop over the formats; \<open>i\<close> counts them and \<open>primary\<close> is the size of the first.\<close>

fun snapshot_formats ::
    "'d Destination \<Rightarrow> string \<Rightarrow> row list \<Rightarrow> nat \<Rightarrow> Format list \<Rightarrow> Artifact \<times> int \<Rightarrow> 'd list \<Rightarrow>
     (goerror + Artifact \<times> int) \<times> 'd list" where
  "snapshot_formats vt keyPrefix rs i [] (art, primary) ds = (Inr (art, primary), ds)"
| "snapshot_formats vt keyPrefix rs i (f # fs) (art, primary) ds =
     (case f_WriteSnapshot f rs of
        Inl err \<Rightarrow> (Inl (Wrap (''encode snapshot ('' @ f_FormatID f @ '')'') err), ds)
      | Inr data \<Rightarrow>
          (case putArtifact vt keyPrefix art (f_Extension f) data ds of
             (Inl err, ds) \<Rightarrow> (Inl err, ds)
           | (Inr ref, ds) \<Rightarrow>
               snapshot_formats vt keyPrefix rs (i + 1) fs
                 (art\<lparr>a_Formats := (a_Formats art)(f_FormatID f \<mapsto> ref)\<rparr>, if i = 0 then fr_SizeBytes ref else primary) ds))"

record snap_env =
  sn_raced :: raced
  sn_rows :: "row list"
  sn_pos :: string
  sn_created :: int
  sn_updated :: int
  sn_at :: int
  sn_columns :: "ColumnDefinition list option"

definition snapshot :: "'d Destination \<Rightarrow> snap_env \<Rightarrow> 'd Writer \<Rightarrow> goerror option \<times> 'd Writer" where
  "snapshot vt env w =
     (let w = w\<lparr>w_buffer := Map.empty, w_churn := 0\<rparr>;
          epoch = w_epoch w + 1;
          w = onChanges (sn_raced env) w;
          art = \<lparr>a_Kind = KindSnapshot, a_Epoch = epoch, a_FromPosition = None, a_ToPosition = sn_pos env,
                 a_CreatedAt = sn_created env, a_RowCount = int (length (sn_rows env)), a_ChangeCount = 0, a_Formats = Map.empty\<rparr>
      in case snapshot_formats vt (c_KeyPrefix (w_cfg w)) (sn_rows env) 0 (c_SnapshotFormats (w_cfg w)) (art, 0) (w_dests w) of
           (Inl err, ds) \<Rightarrow> (Some err, w\<lparr>w_dests := ds\<rparr>)
         | (Inr (art, primarySize), ds) \<Rightarrow>
             (case commit vt (sn_updated env) (sn_columns env) art (w\<lparr>w_dests := ds\<rparr>) of
                (Some err, w) \<Rightarrow> (Some err, w)
              | (None, w) \<Rightarrow>
                  (None, emit art (w\<lparr>w_epoch := epoch, w_fromPos := sn_pos env, w_headPos := sn_pos env,
                                     w_lastSnapshotAt := sn_at env, w_lastSnapshotBytes := primarySize\<rparr>))))"

section \<open>Diffs\<close>

fun diff_formats ::
    "'d Destination \<Rightarrow> string \<Rightarrow> Change list \<Rightarrow> string \<Rightarrow> nat \<Rightarrow> Format list \<Rightarrow> Artifact \<Rightarrow> 'd list \<Rightarrow>
     (goerror + Artifact) \<times> 'd list" where
  "diff_formats vt keyPrefix cs primary i [] art ds = (Inr art, ds)"
| "diff_formats vt keyPrefix cs primary i (f # fs) art ds =
     (case (if i = 0 then Inr primary else f_WriteDiff f cs) of
        Inl err \<Rightarrow> (Inl (Wrap (''encode diff ('' @ f_FormatID f @ '')'') err), ds)
      | Inr data \<Rightarrow>
          (case putArtifact vt keyPrefix art (f_Extension f) data ds of
             (Inl err, ds) \<Rightarrow> (Inl err, ds)
           | (Inr ref, ds) \<Rightarrow>
               diff_formats vt keyPrefix cs primary (i + 1) fs (art\<lparr>a_Formats := (a_Formats art)(f_FormatID f \<mapsto> ref)\<rparr>) ds))"

record flush_env =
  fl_order :: "string list"
  fl_now :: int
  fl_raced :: raced
  fl_pos :: string
  fl_count :: int
  fl_created :: int
  fl_updated :: int
  fl_columns :: "ColumnDefinition list option"
  fl_rebase :: snap_env

text \<open>Whether the policy asks for a new base, given the encoded diff and the writer before the drain.\<close>

definition flush_rebases :: "flush_env \<Rightarrow> string \<Rightarrow> 'd Writer \<Rightarrow> bool" where
  "flush_rebases env primaryBuf w =
     fst (shouldSnapshot (c_Policy (w_cfg w))
       \<lparr>ts_sinceSnapshot = fl_now env - w_lastSnapshotAt w, ts_diffBytes = int (length primaryBuf), ts_churnRecords = w_churn w,
        ts_datasetSize = fl_count env, ts_lastSnapshotBytes = w_lastSnapshotBytes w\<rparr>)"

definition flush :: "'d Destination \<Rightarrow> flush_env \<Rightarrow> 'd Writer \<Rightarrow> goerror option \<times> 'd Writer" where
  "flush vt env w =
     (if w_buffer w = Map.empty then (None, w)
      else
        let drained = w_buffer w;
            changes = values_of (fl_order env) drained;
            from = w_fromPos w;
            epoch = w_epoch w;
            rebases = (\<lambda>primaryBuf. flush_rebases env primaryBuf w);
            w = onChanges (fl_raced env) (w\<lparr>w_buffer := Map.empty\<rparr>);
            to = fl_pos env;
            primary = hd (c_DiffFormats (w_cfg w))
        in case f_WriteDiff primary changes of
             Inl err \<Rightarrow> (Some (Wrap (''encode diff ('' @ f_FormatID primary @ '')'') err), remerge drained w)
           | Inr primaryBuf \<Rightarrow>
               if rebases primaryBuf then snapshot vt (fl_rebase env) w
               else
                 let art = \<lparr>a_Kind = KindDiff, a_Epoch = epoch, a_FromPosition = Some from, a_ToPosition = to,
                            a_CreatedAt = fl_created env, a_RowCount = 0, a_ChangeCount = int (length changes), a_Formats = Map.empty\<rparr>
                 in case diff_formats vt (c_KeyPrefix (w_cfg w)) changes primaryBuf 0 (c_DiffFormats (w_cfg w)) art (w_dests w) of
                      (Inl err, ds) \<Rightarrow> (Some err, remerge drained (w\<lparr>w_dests := ds\<rparr>))
                    | (Inr art, ds) \<Rightarrow>
                        (case commit vt (fl_updated env) (fl_columns env) art (w\<lparr>w_dests := ds\<rparr>) of
                           (Some err, w) \<Rightarrow> (Some err, remerge drained w)
                         | (None, w) \<Rightarrow> (None, emit art (w\<lparr>w_fromPos := to, w_headPos := to\<rparr>))))"

section \<open>Running\<close>

text \<open>What the main loop reacts to; \<open>WChange\<close> is the callback of the subscription.\<close>

datatype writer_event =
    WChange "row option" "row option"
  | WForce snap_env
  | WTick flush_env

definition writer_step :: "'d Destination \<Rightarrow> writer_event \<Rightarrow> 'd Writer \<Rightarrow> 'd Writer" where
  "writer_step vt ev w =
     (case ev of
        WChange old new \<Rightarrow> onChange old new w
      | WForce env \<Rightarrow> snd (snapshot vt env w)
      | WTick env \<Rightarrow> snd (flush vt env w))"

record run_env =
  ru_start :: "goerror option"
  ru_early :: raced
  ru_ready :: bool
  ru_initial :: snap_env
  ru_events :: "writer_event list"
  ru_final :: flush_env

definition Run :: "'d Destination \<Rightarrow> run_env \<Rightarrow> 'd Writer \<Rightarrow> goerror option \<times> 'd Writer" where
  "Run vt env w =
     (case ru_start env of
        Some err \<Rightarrow> (Some (Wrap ''snapshotter: start subscription'' err), w)
      | None \<Rightarrow>
          let w = onChanges (ru_early env) w in
          if \<not> ru_ready env then (Some (Err ''snapshotter: subscription not ready before timeout''), w)
          else case loadManifest vt w of
                 (Some err, w) \<Rightarrow> (Some err, w)
               | (None, w) \<Rightarrow>
                   (case snapshot vt (ru_initial env) w of
                      (Some err, w) \<Rightarrow> (Some (Wrap ''snapshotter: initial snapshot'' err), w)
                    | (None, w) \<Rightarrow>
                        let w = foldl (\<lambda>w ev. writer_step vt ev w) w (ru_events env)
                        in (Some CtxErr, snd (flush vt (ru_final env) w))))"

record Status =
  st_Table :: string
  st_Epoch :: int
  st_HeadPosition :: string
  st_BufferDepth :: nat
  st_ChurnRecords :: int
  st_LastSnapshotAt :: int

definition writer_Status :: "'d Writer \<Rightarrow> Status" where
  "writer_Status w =
     \<lparr>st_Table = c_Table (w_cfg w), st_Epoch = w_epoch w, st_HeadPosition = w_headPos w,
      st_BufferDepth = card (dom (w_buffer w)), st_ChurnRecords = w_churn w, st_LastSnapshotAt = w_lastSnapshotAt w\<rparr>"

section \<open>One-shot export\<close>

fun export_formats ::
    "'d Destination \<Rightarrow> string \<Rightarrow> row list \<Rightarrow> Format list \<Rightarrow> Artifact \<Rightarrow> 'd list \<Rightarrow> (goerror + Artifact) \<times> 'd list" where
  "export_formats vt keyPrefix rs [] art ds = (Inr art, ds)"
| "export_formats vt keyPrefix rs (f # fs) art ds =
     (case f_WriteSnapshot f rs of
        Inl err \<Rightarrow> (Inl (Wrap (''snapshotter: encode snapshot ('' @ f_FormatID f @ '')'') err), ds)
      | Inr data \<Rightarrow>
          let key = ArtifactObjectKey keyPrefix art (f_Extension f) in
          (case put_loop vt key (BytesObject data) ds of
             (Inl (name, err), ds) \<Rightarrow> (Inl (Wrap (''snapshotter: put snapshot '' @ key) err), ds)
           | (Inr refs, ds) \<Rightarrow>
               export_formats vt keyPrefix rs fs
                 (art\<lparr>a_Formats := (a_Formats art)(f_FormatID f \<mapsto>
                    (if refs = [] then \<lparr>fr_URI = [], fr_SizeBytes = 0\<rparr> else last refs))\<rparr>) ds))"

definition WriteBaseSnapshot ::
    "'d Destination \<Rightarrow> 'd list \<Rightarrow> string \<Rightarrow> Format list \<Rightarrow> string \<Rightarrow> string \<Rightarrow> row list \<Rightarrow> ColumnDefinition list \<Rightarrow> int \<Rightarrow>
     goerror option \<times> 'd list" where
  "WriteBaseSnapshot vt dests keyPrefix formats table position rs columns now =
     (if dests = [] then (Some (Err ''snapshotter: WriteBaseSnapshot requires at least one destination''), dests)
      else if formats = [] then (Some (Err ''snapshotter: WriteBaseSnapshot requires at least one format''), dests)
      else
        let art = \<lparr>a_Kind = KindSnapshot, a_Epoch = 1, a_FromPosition = None, a_ToPosition = position,
                   a_CreatedAt = now, a_RowCount = int (length rs), a_ChangeCount = 0, a_Formats = Map.empty\<rparr>
        in case export_formats vt keyPrefix rs formats art dests of
             (Inl err, ds) \<Rightarrow> (Some err, ds)
           | (Inr art, ds) \<Rightarrow>
               let m = \<lparr>m_ManifestVersion = ManifestVersion, m_Table = table, m_Epoch = 1, m_UpdatedAt = now,
                        m_HeadPosition = position, m_Artifacts = [art], m_Columns = columns\<rparr>
               in (case put_loop vt (ManifestObjectKey keyPrefix) (ManifestObject m) ds of
                     (Inl (name, err), ds) \<Rightarrow> (Some (Wrap ''snapshotter: put manifest'' err), ds)
                   | (Inr refs, ds) \<Rightarrow> (None, ds)))"

end
