(* ===== verification/Archive_Store.thy ===== *)
theory Archive_Store
  imports Archive_Writer
begin

text \<open>
  Destinations as object stores.  The locale is what writer and reader rely on; it is discharged for
  the local destination (\<^verbatim>\<open>snapshotter/dest/local/local.go\<close>), whose files are a map from keys to
  objects.  \<open>ld_faults\<close> lists the errors of the coming writes (a write that fails at any point before
  the rename leaves the file as it was), and \<open>ld_readErr\<close> gives those of reads.  \<open>json\<close> is the text
  that \<^verbatim>\<open>json.Marshal\<close> writes for a manifest and \<open>sha\<close> the hexadecimal SHA-256 hash.
\<close>

section \<open>The contract\<close>

locale object_store =
  fixes vt :: "'d Destination"
    and objects :: "'d \<Rightarrow> string \<rightharpoonup> object"
    and healthy :: "'d \<Rightarrow> bool"
    and rev_of :: "object \<Rightarrow> string"
  assumes get: "healthy d \<Longrightarrow> d_Get vt key d = Inr (map_option (\<lambda>ob. (ob, rev_of ob)) (objects d key))"
    and put: "healthy d \<Longrightarrow> \<exists>uri n d'. d_Put vt key ob d = (Inr (uri, n), d') \<and> healthy d' \<and>
      objects d' = (objects d)(key \<mapsto> ob) \<and> d_Name vt d' = d_Name vt d"
    and put_cas: "healthy d \<Longrightarrow> expected = (case objects d key of None \<Rightarrow> [] | Some old \<Rightarrow> rev_of old) \<Longrightarrow>
      \<exists>d'. d_PutCAS vt key ob expected d = (Inr (rev_of ob), d') \<and> healthy d' \<and>
        objects d' = (objects d)(key \<mapsto> ob) \<and> d_Name vt d' = d_Name vt d"
begin

text \<open>What a write to all destinations leaves.\<close>

definition written :: "string \<Rightarrow> object \<Rightarrow> 'd \<Rightarrow> 'd \<Rightarrow> bool" where
  "written key ob d d' \<longleftrightarrow> healthy d' \<and> objects d' = (objects d)(key \<mapsto> ob) \<and> d_Name vt d' = d_Name vt d"

lemma put_loop_writes:
  "\<forall>d \<in> set ds. healthy d \<Longrightarrow> \<exists>refs ds'. put_loop vt key ob ds = (Inr refs, ds') \<and> list_all2 (written key ob) ds ds'"
proof (induction ds)
  case (Cons d ds)
  then obtain refs ds' where ds': "put_loop vt key ob ds = (Inr refs, ds')" "list_all2 (written key ob) ds ds'" by auto
  obtain uri n d' where d': "d_Put vt key ob d = (Inr (uri, n), d')" "written key ob d d'"
    using put [of d key ob] Cons.prems by (auto simp: written_def)
  with ds' show ?case by auto
qed simp

lemma putArtifact_writes:
  assumes "\<forall>d \<in> set ds. healthy d"
  shows "\<exists>ref ds'. putArtifact vt prefix art ext data ds = (Inr ref, ds') \<and>
    list_all2 (written (ArtifactObjectKey prefix art ext) (BytesObject data)) ds ds'"
  using put_loop_writes [OF assms, of "ArtifactObjectKey prefix art ext" "BytesObject data"] by (auto simp: putArtifact_def)

definition current_rev :: "string \<Rightarrow> 'd \<Rightarrow> string" where
  "current_rev key d = (case objects d key of None \<Rightarrow> [] | Some old \<Rightarrow> rev_of old)"

definition revs_known :: "string \<Rightarrow> (string \<rightharpoonup> string) \<Rightarrow> 'd list \<Rightarrow> bool" where
  "revs_known key revs ds \<longleftrightarrow> (\<forall>d \<in> set ds. (case revs (d_Name vt d) of None \<Rightarrow> [] | Some rv \<Rightarrow> rv) = current_rev key d)"

lemma cas_loop_writes:
  "\<forall>d \<in> set ds. healthy d \<Longrightarrow> distinct (map (d_Name vt) ds) \<Longrightarrow> revs_known key revs ds \<Longrightarrow>
   \<exists>revs' ds'. cas_loop vt key ob ds revs = (None, revs', ds') \<and> list_all2 (written key ob) ds ds' \<and>
     (\<forall>d \<in> set ds. revs' (d_Name vt d) = Some (rev_of ob)) \<and>
     (\<forall>n. n \<notin> d_Name vt ` set ds \<longrightarrow> revs' n = revs n)"
proof (induction ds arbitrary: revs)
  case (Cons d ds)
  have known: "(case revs (d_Name vt d) of None \<Rightarrow> [] | Some rv \<Rightarrow> rv) = current_rev key d"
    using Cons.prems(3) by (simp add: revs_known_def)
  obtain d' where d': "d_PutCAS vt key ob (current_rev key d) d = (Inr (rev_of ob), d')" "written key ob d d'"
    using put_cas [of d "current_rev key d" key ob] Cons.prems(1) by (auto simp: written_def current_rev_def)
  let ?revs = "revs(d_Name vt d \<mapsto> rev_of ob)"
  have "revs_known key ?revs ds"
    unfolding revs_known_def
  proof
    fix x assume x: "x \<in> set ds"
    then have "d_Name vt x \<noteq> d_Name vt d" using Cons.prems(2) by (auto simp: image_iff)
    with Cons.prems(3) x show "(case ?revs (d_Name vt x) of None \<Rightarrow> [] | Some rv \<Rightarrow> rv) = current_rev key x"
      by (simp add: revs_known_def)
  qed
  moreover have "\<forall>d \<in> set ds. healthy d" "distinct (map (d_Name vt) ds)" using Cons.prems(1,2) by simp_all
  ultimately obtain revs' ds' where ih: "cas_loop vt key ob ds ?revs = (None, revs', ds')" "list_all2 (written key ob) ds ds'"
    "\<forall>d \<in> set ds. revs' (d_Name vt d) = Some (rev_of ob)" "\<forall>n. n \<notin> d_Name vt ` set ds \<longrightarrow> revs' n = ?revs n"
    using Cons.IH [of ?revs] by blast
  have "revs' (d_Name vt d) = Some (rev_of ob)" using ih(4) Cons.prems(2) by simp
  with ih d' known show ?case by auto
qed simp

lemma written_list:
  assumes "list_all2 (written key ob) ds ds'"
  shows "\<forall>d \<in> set ds'. healthy d" "map (d_Name vt) ds' = map (d_Name vt) ds" "length ds' = length ds"
    "i < length ds \<Longrightarrow> objects (ds' ! i) = (objects (ds ! i))(key \<mapsto> ob)"
  using assms by (auto simp: list_all2_conv_all_nth written_def in_set_conv_nth intro: nth_equalityI)

end

section \<open>The local destination\<close>

record LocalDestination =
  ld_base :: string
  ld_files :: "string \<rightharpoonup> object"
  ld_faults :: "goerror option list"
  ld_readErr :: "string \<Rightarrow> goerror option"

definition object_text :: "(Manifest \<Rightarrow> string) \<Rightarrow> object \<Rightarrow> string" where
  "object_text json ob = (case ob of ManifestObject m \<Rightarrow> json m | BytesObject b \<Rightarrow> b)"

definition local_Name :: "LocalDestination \<Rightarrow> string" where
  "local_Name d = ''local:'' @ ld_base d"

definition local_Put ::
    "(Manifest \<Rightarrow> string) \<Rightarrow> string \<Rightarrow> object \<Rightarrow> LocalDestination \<Rightarrow> (goerror + string \<times> int) \<times> LocalDestination" where
  "local_Put json key ob d =
     (case ld_faults d of
        Some err # fs \<Rightarrow> (Inl err, d\<lparr>ld_faults := fs\<rparr>)
      | fs \<Rightarrow>
          (Inr (''file://'' @ ld_base d @ ''/'' @ key, int (length (object_text json ob))),
           d\<lparr>ld_faults := tl fs, ld_files := (ld_files d)(key \<mapsto> ob)\<rparr>))"

definition revOf :: "(Manifest \<Rightarrow> string) \<Rightarrow> (string \<Rightarrow> string) \<Rightarrow> object \<Rightarrow> string" where
  "revOf json sha ob = sha (object_text json ob)"

definition local_Get ::
    "(Manifest \<Rightarrow> string) \<Rightarrow> (string \<Rightarrow> string) \<Rightarrow> string \<Rightarrow> LocalDestination \<Rightarrow> goerror + (object \<times> string) option" where
  "local_Get json sha key d =
     (case ld_readErr d key of
        Some err \<Rightarrow> Inl (Wrap (''local: read '' @ key) err)
      | None \<Rightarrow> Inr (map_option (\<lambda>ob. (ob, revOf json sha ob)) (ld_files d key)))"

definition local_PutCAS ::
    "(Manifest \<Rightarrow> string) \<Rightarrow> (string \<Rightarrow> string) \<Rightarrow> string \<Rightarrow> object \<Rightarrow> string \<Rightarrow> LocalDestination \<Rightarrow>
     (goerror + string) \<times> LocalDestination" where
  "local_PutCAS json sha key ob expectedRev d =
     (case local_Get json sha key d of
        Inl err \<Rightarrow> (Inl err, d)
      | Inr found \<Rightarrow>
          let curRev = (case found of None \<Rightarrow> [] | Some (data, rv) \<Rightarrow> rv) in
          if curRev \<noteq> expectedRev then (Inl ErrCASConflict, d)
          else case local_Put json key ob d of
                 (Inl err, d) \<Rightarrow> (Inl err, d)
               | (Inr _, d) \<Rightarrow> (Inr (revOf json sha ob), d))"

definition local_vt :: "(Manifest \<Rightarrow> string) \<Rightarrow> (string \<Rightarrow> string) \<Rightarrow> LocalDestination Destination" where
  "local_vt json sha =
     \<lparr>d_Name = local_Name, d_Put = local_Put json, d_Get = local_Get json sha, d_PutCAS = local_PutCAS json sha\<rparr>"

definition local_healthy :: "LocalDestination \<Rightarrow> bool" where
  "local_healthy d \<longleftrightarrow> ld_faults d = [] \<and> (\<forall>key. ld_readErr d key = None)"

interpretation local: object_store "local_vt json sha" ld_files local_healthy "revOf json sha" for json sha
proof
  fix d key ob and expected :: string
  assume ok: "local_healthy d"
  then show get: "d_Get (local_vt json sha) key d = Inr (map_option (\<lambda>ob. (ob, revOf json sha ob)) (ld_files d key))"
    by (simp add: local_vt_def local_Get_def local_healthy_def)
  show "\<exists>uri n d'. d_Put (local_vt json sha) key ob d = (Inr (uri, n), d') \<and> local_healthy d' \<and>
      ld_files d' = (ld_files d)(key \<mapsto> ob) \<and> d_Name (local_vt json sha) d' = d_Name (local_vt json sha) d"
    using ok by (simp add: local_vt_def local_Put_def local_Name_def local_healthy_def)
  assume "expected = (case ld_files d key of None \<Rightarrow> [] | Some old \<Rightarrow> revOf json sha old)"
  then show "\<exists>d'. d_PutCAS (local_vt json sha) key ob expected d = (Inr (revOf json sha ob), d') \<and> local_healthy d' \<and>
      ld_files d' = (ld_files d)(key \<mapsto> ob) \<and> d_Name (local_vt json sha) d' = d_Name (local_vt json sha) d"
    using ok by (auto simp: local_vt_def local_PutCAS_def local_Get_def local_Put_def local_Name_def local_healthy_def
        split: option.split)
qed

end
