(* ===== verification/Archive_Chain.thy ===== *)
theory Archive_Chain
  imports Archive_Store LSN
begin

text \<open>
  What a reader gets from a well-formed archive.  The artifacts of a manifest are linked: their
  boundaries increase, the first is a base snapshot, and every diff starts where the artifact before
  it ends.  Each artifact has the table at its boundary.  A reconstruction as of a position is then
  the table at the last boundary that is not later, and a plan from any position ends at the head.
\<close>

section \<open>Orders on boundaries\<close>

locale boundary_order =
  fixes cmp :: "string \<Rightarrow> string \<Rightarrow> int"
  assumes refl: "cmp a a = 0"
    and flip: "cmp a b < 0 \<longleftrightarrow> 0 < cmp b a"
    and trans: "cmp a b \<le> 0 \<Longrightarrow> cmp b c \<le> 0 \<Longrightarrow> cmp a c \<le> 0"
begin

lemma less_trans: "cmp a b < 0 \<Longrightarrow> cmp b c < 0 \<Longrightarrow> cmp a c < 0"
  by (smt (verit) flip trans)

lemma less_le_trans: "cmp a b < 0 \<Longrightarrow> cmp b c \<le> 0 \<Longrightarrow> cmp a c < 0"
  by (smt (verit) flip trans)

end

interpretation lsn: boundary_order lsn_Compare
  by unfold_locales (use lsn_Compare_refl lsn_Compare_flip lsn_Compare_trans in auto)

section \<open>Linked artifacts\<close>

definition before :: "(string \<Rightarrow> string \<Rightarrow> int) \<Rightarrow> Artifact \<Rightarrow> Artifact \<Rightarrow> bool" where
  "before cmp a b \<longleftrightarrow> cmp (a_ToPosition a) (a_ToPosition b) < 0"

definition linked :: "(string \<Rightarrow> string \<Rightarrow> int) \<Rightarrow> Artifact list \<Rightarrow> bool" where
  "linked cmp as \<longleftrightarrow> sorted_wrt (before cmp) as \<and>
     (\<forall>i < length as. a_Kind (as ! i) = KindSnapshot \<or>
        (0 < i \<and> a_Kind (as ! i) = KindDiff \<and> a_FromPosition (as ! i) = Some (a_ToPosition (as ! (i - 1)))))"

lemma linked_diff:
  assumes "linked cmp as" "i < length as" "a_Kind (as ! i) \<noteq> KindSnapshot"
  shows "0 < i" "is_diff (as ! i)" "the (a_FromPosition (as ! i)) = a_ToPosition (as ! (i - 1))"
  using assms by (auto simp: linked_def is_diff_def)

lemma is_diff_not_snapshot: "is_diff a \<Longrightarrow> a_Kind a \<noteq> KindSnapshot"
  by (auto simp: is_diff_def)

definition deltas_of :: "Artifact list \<Rightarrow> (string \<rightharpoonup> Artifact)" where
  "deltas_of as = by_from (filter is_diff as)"

lemma by_from_found: "d \<in> set ds \<Longrightarrow> by_from ds (the (a_FromPosition d)) \<noteq> None"
  by (induction ds rule: rev_induct) (auto simp: by_from_append)

context boundary_order
begin

lemma linked_before: "linked cmp as \<Longrightarrow> i < j \<Longrightarrow> j < length as \<Longrightarrow> cmp (a_ToPosition (as ! i)) (a_ToPosition (as ! j)) < 0"
  by (auto simp: linked_def sorted_wrt_iff_nth_less before_def)

lemma linked_reach:
  assumes "linked cmp as" "i \<le> k" "k < length as" "cmp (a_ToPosition (as ! k)) p \<le> 0"
  shows "cmp (a_ToPosition (as ! i)) p \<le> 0"
proof (cases "i = k")
  case False
  then have "cmp (a_ToPosition (as ! i)) (a_ToPosition (as ! k)) < 0" using linked_before assms by simp
  from less_le_trans [OF this assms(4)] show ?thesis by simp
qed (use assms in simp)

lemma linked_distinct:
  assumes "linked cmp as" "i < length as" "j < length as" "a_ToPosition (as ! i) = a_ToPosition (as ! j)"
  shows "i = j"
proof (rule ccontr)
  assume "i \<noteq> j"
  then consider "i < j" | "j < i" by linarith
  then show False
    using linked_before [OF assms(1), of i j] linked_before [OF assms(1), of j i] assms(2-4) refl by cases simp_all
qed

lemma deltas_of_next:
  assumes lk: "linked cmp as" and j: "j < length as"
  shows "deltas_of as (a_ToPosition (as ! j)) =
    (if Suc j < length as \<and> a_Kind (as ! Suc j) \<noteq> KindSnapshot then Some (as ! Suc j) else None)"
proof -
  have only: "Suc j < length as \<and> d = as ! Suc j \<and> a_Kind (as ! Suc j) \<noteq> KindSnapshot"
    if "deltas_of as (a_ToPosition (as ! j)) = Some d" for d
  proof -
    have d: "d \<in> set as" "is_diff d" "the (a_FromPosition d) = a_ToPosition (as ! j)"
      using by_from_mem [OF that [unfolded deltas_of_def]] by auto
    then obtain k where k: "k < length as" "d = as ! k" by (auto simp: in_set_conv_nth)
    then have "a_ToPosition (as ! (k - 1)) = a_ToPosition (as ! j)" "0 < k"
      using linked_diff [OF lk k(1)] d is_diff_not_snapshot by auto
    then have "k - 1 = j" using linked_distinct [OF lk _ j] k(1) by simp
    with k d \<open>0 < k\<close> show ?thesis using is_diff_not_snapshot by auto
  qed
  have some: "deltas_of as (a_ToPosition (as ! j)) \<noteq> None"
    if "Suc j < length as" "a_Kind (as ! Suc j) \<noteq> KindSnapshot"
    using linked_diff [OF lk that] that by_from_found [of "as ! Suc j" "filter is_diff as"] by (simp add: deltas_of_def)
  show ?thesis
    using only some by (cases "deltas_of as (a_ToPosition (as ! j))") auto
qed

text \<open>The loop from an artifact takes the diffs after it, up to the last one that is not too late.\<close>

lemma asof_loop_takes:
  assumes lk: "linked cmp as" and k: "k < length as"
    and late: "Suc k < length as \<longrightarrow> 0 < cmp (a_ToPosition (as ! Suc k)) p"
  shows "j \<le> k \<Longrightarrow> \<forall>i. j < i \<and> i \<le> k \<longrightarrow> a_Kind (as ! i) \<noteq> KindSnapshot \<and> cmp (a_ToPosition (as ! i)) p \<le> 0 \<Longrightarrow>
    asof_loop cmp p (deltas_of as) (a_ToPosition (as ! j)) = Some (map ((!) as) [Suc j..<Suc k])"
proof (induction "k - j" arbitrary: j)
  case 0
  then have "j = k" by simp
  then show ?case using late deltas_of_next [OF lk k] by (subst asof_loop.simps) auto
next
  case (Suc n)
  then have j: "j < k" by simp
  have step: "deltas_of as (a_ToPosition (as ! j)) = Some (as ! Suc j)"
    using deltas_of_next [OF lk, of j] Suc.prems(2) j k by simp
  have "asof_loop cmp p (deltas_of as) (a_ToPosition (as ! Suc j)) = Some (map ((!) as) [Suc (Suc j)..<Suc k])"
    using Suc.hyps(1) [of "Suc j"] Suc.hyps(2) Suc.prems j by (simp del: upt_Suc)
  moreover have "cmp (a_ToPosition (as ! Suc j)) p \<le> 0" using Suc.prems(2) j by simp
  moreover have "[Suc j..<Suc k] = Suc j # [Suc (Suc j)..<Suc k]" using j by (simp add: upt_conv_Cons)
  ultimately show ?case using step by (subst asof_loop.simps) (simp del: upt_Suc)
qed

lemma chain_loop_takes:
  assumes lk: "linked cmp as"
  shows "j < length as \<Longrightarrow> \<exists>k. j \<le> k \<and> k < length as \<and> (Suc k < length as \<longrightarrow> a_Kind (as ! Suc k) = KindSnapshot) \<and>
    (\<forall>i. j < i \<and> i \<le> k \<longrightarrow> a_Kind (as ! i) \<noteq> KindSnapshot) \<and>
    chain_loop (deltas_of as) (a_ToPosition (as ! j)) = Some (map ((!) as) [Suc j..<Suc k])"
proof (induction "length as - j" arbitrary: j)
  case (Suc n)
  show ?case
  proof (cases "Suc j < length as \<and> a_Kind (as ! Suc j) \<noteq> KindSnapshot")
    case True
    have "n = length as - Suc j" using Suc.hyps(2) by simp
    from Suc.hyps(1) [OF this] True obtain k where k: "Suc j \<le> k" "k < length as" "Suc k < length as \<longrightarrow> a_Kind (as ! Suc k) = KindSnapshot"
      "\<forall>i. Suc j < i \<and> i \<le> k \<longrightarrow> a_Kind (as ! i) \<noteq> KindSnapshot"
      "chain_loop (deltas_of as) (a_ToPosition (as ! Suc j)) = Some (map ((!) as) [Suc (Suc j)..<Suc k])"
      by blast
    have "\<forall>i. j < i \<and> i \<le> k \<longrightarrow> a_Kind (as ! i) \<noteq> KindSnapshot"
      using k(4) True by (metis Suc_lessI)
    moreover have "chain_loop (deltas_of as) (a_ToPosition (as ! j)) = Some (map ((!) as) [Suc j..<Suc k])"
      using k(1,5) True deltas_of_next [OF lk Suc.prems] by (subst chain_loop.simps) (simp add: upt_conv_Cons del: upt_Suc)
    ultimately show ?thesis using k(1-3) by (intro exI [of _ k]) (simp del: upt_Suc)
  next
    case False
    then have "chain_loop (deltas_of as) (a_ToPosition (as ! j)) = Some []"
      using deltas_of_next [OF lk Suc.prems] by (subst chain_loop.simps) auto
    with False Suc.prems show ?thesis by (intro exI [of _ j]) auto
  qed
qed simp

end

section \<open>The base of a plan\<close>

lemma base_loop_append: "base_loop cmp p (xs @ ys) b = base_loop cmp p ys (base_loop cmp p xs b)"
  by (induction xs arbitrary: b) auto

lemma base_loop_from: "base_loop cmp p xs b = Some s \<Longrightarrow> s \<in> set xs \<or> b = Some s"
  by (induction xs arbitrary: b) (auto split: if_splits)

lemma base_loop_skip:
  "\<forall>a \<in> set xs. a_Kind a = KindSnapshot \<longrightarrow> 0 < cmp (a_ToPosition a) p \<Longrightarrow> base_loop cmp p xs b = b"
  by (induction xs) auto

context boundary_order
begin

lemma base_loop_last:
  assumes lk: "linked cmp as" and j: "j \<le> k" "k < length as" "a_Kind (as ! j) = KindSnapshot"
    and between: "\<forall>i. j < i \<and> i \<le> k \<longrightarrow> a_Kind (as ! i) \<noteq> KindSnapshot"
    and reach: "cmp (a_ToPosition (as ! k)) p \<le> 0" and late: "\<forall>i. k < i \<and> i < length as \<longrightarrow> 0 < cmp (a_ToPosition (as ! i)) p"
  shows "base_loop cmp p as None = Some (as ! j)"
proof -
  have j': "j < length as" using j by simp
  have split: "as = take j as @ as ! j # drop (Suc j) as" using j' by (simp add: id_take_nth_drop)
  have "cmp (a_ToPosition (as ! j)) p \<le> 0"
    using linked_reach [OF lk j(1,2) reach] .
  moreover have "case base_loop cmp p (take j as) None of None \<Rightarrow> True | Some b \<Rightarrow> 0 < cmp (a_ToPosition (as ! j)) (a_ToPosition b)"
  proof (cases "base_loop cmp p (take j as) None")
    case (Some b)
    then obtain i where "i < j" "b = as ! i" using base_loop_from [OF Some] j' by (auto simp: in_set_conv_nth)
    then show ?thesis using linked_before [OF lk, of i j] j' Some flip by simp
  qed simp
  moreover have "\<forall>a \<in> set (drop (Suc j) as). a_Kind a = KindSnapshot \<longrightarrow> 0 < cmp (a_ToPosition a) p"
  proof (intro ballI impI)
    fix a assume a: "a \<in> set (drop (Suc j) as)" "a_Kind a = KindSnapshot"
    then obtain i where "a = as ! i" "j < i" "i < length as" by (auto simp: in_set_conv_nth)
    with a between late show "0 < cmp (a_ToPosition a) p" by (metis not_le)
  qed
  ultimately have "base_loop cmp p (take j as @ as ! j # drop (Suc j) as) None = Some (as ! j)"
    using j(3) by (simp add: base_loop_append base_loop_skip split: option.splits)
  then show ?thesis using split by simp
qed

end


section \<open>Reconstruction\<close>

text \<open>The tables \<open>ts\<close> at the boundaries: a snapshot holds its table, and a diff leads there from the
  table before it.\<close>

definition holds :: "'d Destination \<Rightarrow> 'd Reader \<Rightarrow> string list \<Rightarrow> Artifact list \<Rightarrow> (string \<rightharpoonup> row) list \<Rightarrow> bool" where
  "holds vt r keyFields as ts \<longleftrightarrow> length ts = length as \<and> (\<forall>i < length as.
     if a_Kind (as ! i) = KindSnapshot
     then \<exists>rs. ReadSnapshot vt r (as ! i) = Inr rs \<and> load_base keyFields rs = ts ! i
     else \<exists>cs. ReadDiff vt r (as ! i) = Inr cs \<and> foldl fold_change (ts ! (i - 1)) cs = ts ! i)"

lemma holds_diff:
  "holds vt r keyFields as ts \<Longrightarrow> i < length as \<Longrightarrow> a_Kind (as ! i) \<noteq> KindSnapshot \<Longrightarrow>
   \<exists>cs. ReadDiff vt r (as ! i) = Inr cs \<and> foldl fold_change (ts ! (i - 1)) cs = ts ! i"
  unfolding holds_def by metis

lemma holds_snapshot:
  "holds vt r keyFields as ts \<Longrightarrow> i < length as \<Longrightarrow> a_Kind (as ! i) = KindSnapshot \<Longrightarrow>
   \<exists>rs. ReadSnapshot vt r (as ! i) = Inr rs \<and> load_base keyFields rs = ts ! i"
  unfolding holds_def by metis

lemma holds_last:
  assumes "holds vt r keyFields as ts" and "as \<noteq> []"
  shows "last ts = ts ! (length as - 1)"
proof -
  have "length ts = length as" using assms(1) by (simp add: holds_def)
  moreover from this assms(2) have "ts \<noteq> []" by auto
  ultimately show ?thesis by (simp add: last_conv_nth)
qed

lemma fold_diffs_holds:
  assumes h: "holds vt r keyFields as ts" and k: "k < length as"
  shows "j \<le> k \<Longrightarrow> \<forall>i. j < i \<and> i \<le> k \<longrightarrow> a_Kind (as ! i) \<noteq> KindSnapshot \<Longrightarrow>
    fold_diffs vt r (map ((!) as) [Suc j..<Suc k]) (ts ! j) = Inr (ts ! k)"
proof (induction "k - j" arbitrary: j)
  case (Suc n)
  then have j: "j < k" by simp
  then obtain cs where cs: "ReadDiff vt r (as ! Suc j) = Inr cs" "foldl fold_change (ts ! j) cs = ts ! Suc j"
    using holds_diff [OF h, of "Suc j"] k Suc.prems(2) by auto
  have "[Suc j..<Suc k] = Suc j # [Suc (Suc j)..<Suc k]" using j by (simp add: upt_conv_Cons)
  moreover have "fold_diffs vt r (map ((!) as) [Suc (Suc j)..<Suc k]) (ts ! Suc j) = Inr (ts ! k)"
    using Suc.hyps(1) [of "Suc j"] Suc.hyps(2) Suc.prems j by (simp del: upt_Suc)
  ultimately show ?case using cs by (simp del: upt_Suc)
qed simp

lemma reconstruct_holds:
  assumes h: "holds vt r keyFields as ts" and k: "j \<le> k" "k < length as" and j: "a_Kind (as ! j) = KindSnapshot"
    and between: "\<forall>i. j < i \<and> i \<le> k \<longrightarrow> a_Kind (as ! i) \<noteq> KindSnapshot"
  shows "reconstruct_state vt r keyFields
      \<lparr>rp_Snapshot = Some (as ! j), rp_Diffs = map ((!) as) [Suc j..<Suc k], rp_HeadPosition = q\<rparr> = Inr (ts ! k)"
proof -
  have "j < length as" using k by simp
  then obtain rs where "ReadSnapshot vt r (as ! j) = Inr rs" "load_base keyFields rs = ts ! j"
    using holds_snapshot [OF h _ j] by blast
  then show ?thesis
    using fold_diffs_holds [OF h k(2,1) between] by (simp add: reconstruct_state_def)
qed

lemma last_snapshot_index:
  assumes "linked cmp as" and "k < length as"
  shows "\<exists>j \<le> k. a_Kind (as ! j) = KindSnapshot \<and> (\<forall>i. j < i \<and> i \<le> k \<longrightarrow> a_Kind (as ! i) \<noteq> KindSnapshot)"
proof -
  let ?J = "{j. j \<le> k \<and> a_Kind (as ! j) = KindSnapshot}"
  have "0 < length as" using assms(2) by linarith
  then have "a_Kind (as ! 0) = KindSnapshot" using assms(1) by (auto simp: linked_def)
  then have J: "finite ?J" "?J \<noteq> {}" by auto
  then obtain M where M: "M \<in> ?J" "\<And>i. i \<in> ?J \<Longrightarrow> i \<le> M" using Max_in [OF J] Max_ge [OF J(1)] by blast
  have "a_Kind (as ! i) \<noteq> KindSnapshot" if "M < i \<and> i \<le> k" for i
    using M(2) [of i] that by fastforce
  with M(1) show ?thesis by blast
qed

lemma head_of_plan:
  "j \<le> k \<Longrightarrow> (if map ((!) as) [Suc j..<Suc k] = [] then a_ToPosition (as ! j) else a_ToPosition (last (map ((!) as) [Suc j..<Suc k])))
     = a_ToPosition (as ! k)"
  by (cases "j = k") (auto simp: last_map simp del: upt_Suc)

text \<open>How many artifacts end at or before a position.\<close>

definition ends_by :: "(string \<Rightarrow> string \<Rightarrow> int) \<Rightarrow> string \<Rightarrow> Artifact list \<Rightarrow> nat" where
  "ends_by cmp p as = length (takeWhile (\<lambda>a. cmp (a_ToPosition a) p \<le> 0) as)"

context boundary_order
begin

lemma PlanAsOf_takes:
  assumes lk: "linked cmp (m_Artifacts m)" and n: "ends_by cmp p (m_Artifacts m) = Suc k"
  shows "\<exists>j \<le> k. k < length (m_Artifacts m) \<and> a_Kind (m_Artifacts m ! j) = KindSnapshot \<and>
    (\<forall>i. j < i \<and> i \<le> k \<longrightarrow> a_Kind (m_Artifacts m ! i) \<noteq> KindSnapshot) \<and>
    PlanAsOf m p cmp = Some (Some \<lparr>rp_Snapshot = Some (m_Artifacts m ! j),
      rp_Diffs = map ((!) (m_Artifacts m)) [Suc j..<Suc k], rp_HeadPosition = a_ToPosition (m_Artifacts m ! k)\<rparr>)"
proof -
  let ?as = "m_Artifacts m"
  have k: "k < length ?as"
    using n length_takeWhile_le [of "\<lambda>a. cmp (a_ToPosition a) p \<le> 0" ?as] by (simp add: ends_by_def)
  have early: "cmp (a_ToPosition (?as ! i)) p \<le> 0" if "i \<le> k" for i
  proof -
    have "i < length (takeWhile (\<lambda>a. cmp (a_ToPosition a) p \<le> 0) ?as)" using n that by (simp add: ends_by_def)
    from takeWhile_nth [OF this] nth_mem [OF this] show ?thesis by (auto dest: set_takeWhileD)
  qed
  have next_late: "0 < cmp (a_ToPosition (?as ! Suc k)) p" if "Suc k < length ?as"
    using nth_length_takeWhile [of "\<lambda>a. cmp (a_ToPosition a) p \<le> 0" ?as] n that by (simp add: ends_by_def)
  have late: "0 < cmp (a_ToPosition (?as ! i)) p" if "k < i" "i < length ?as" for i
  proof (rule ccontr)
    assume "\<not> 0 < cmp (a_ToPosition (?as ! i)) p"
    then have "cmp (a_ToPosition (?as ! Suc k)) p \<le> 0" using linked_reach [OF lk, of "Suc k" i] that by simp
    with next_late that show False by simp
  qed
  obtain j where j: "j \<le> k" "a_Kind (?as ! j) = KindSnapshot" "\<forall>i. j < i \<and> i \<le> k \<longrightarrow> a_Kind (?as ! i) \<noteq> KindSnapshot"
    using last_snapshot_index [OF lk k] by blast
  have "base_loop cmp p ?as None = Some (?as ! j)"
    using base_loop_last [OF lk j(1) k j(2,3) early [OF order_refl]] late by blast
  moreover have "asof_loop cmp p (deltas_of ?as) (a_ToPosition (?as ! j)) = Some (map ((!) ?as) [Suc j..<Suc k])"
    using asof_loop_takes [OF lk k _ j(1)] next_late early j(3) by blast
  ultimately have "PlanAsOf m p cmp = Some (Some \<lparr>rp_Snapshot = Some (?as ! j),
      rp_Diffs = map ((!) ?as) [Suc j..<Suc k], rp_HeadPosition = a_ToPosition (?as ! k)\<rparr>)"
    using head_of_plan [OF j(1), of ?as] by (simp only: PlanAsOf_def deltas_of_def option.simps)
  with j k show ?thesis by blast
qed

lemma PlanAsOf_none:
  assumes "linked cmp (m_Artifacts m)" and "ends_by cmp p (m_Artifacts m) = 0"
  shows "PlanAsOf m p cmp = Some None"
proof -
  have "0 < cmp (a_ToPosition a) p" if a: "a \<in> set (m_Artifacts m)" for a
  proof -
    obtain i where i: "i < length (m_Artifacts m)" "a = m_Artifacts m ! i" using a by (auto simp: in_set_conv_nth)
    then have "0 < cmp (a_ToPosition (m_Artifacts m ! 0)) p"
      using assms(2) by (cases "m_Artifacts m") (auto simp: ends_by_def split: if_splits)
    then show ?thesis using linked_reach [OF assms(1), of 0 i p] i by fastforce
  qed
  then show ?thesis using base_loop_skip [of "m_Artifacts m" cmp p None] by (simp add: PlanAsOf_def)
qed

lemma ReconstructAsOf_exact:
  assumes "LoadManifest vt r = Inr m" and "linked cmp (m_Artifacts m)" and "holds vt r keyFields (m_Artifacts m) ts"
  shows "ReconstructAsOf vt order r p keyFields cmp = Some (Inr (case ends_by cmp p (m_Artifacts m) of
      0 \<Rightarrow> None
    | Suc k \<Rightarrow> Some \<lparr>rc_Rows = values_of (order (ts ! k)) (ts ! k), rc_Position = a_ToPosition (m_Artifacts m ! k)\<rparr>))"
proof (cases "ends_by cmp p (m_Artifacts m)")
  case 0
  then show ?thesis using assms(1) PlanAsOf_none [OF assms(2) 0] by (simp add: ReconstructAsOf_def)
next
  case (Suc k)
  then show ?thesis
    using assms(1) PlanAsOf_takes [OF assms(2) Suc] reconstruct_holds [OF assms(3)]
    by (auto simp: ReconstructAsOf_def)
qed

end

section \<open>Plans to the head\<close>

text \<open>Every base snapshot opens a new epoch.\<close>

definition epochs_increase :: "Artifact list \<Rightarrow> bool" where
  "epochs_increase as \<longleftrightarrow>
     (\<forall>j < length as. a_Kind (as ! j) = KindSnapshot \<longrightarrow> (\<forall>i < j. a_Epoch (as ! i) < a_Epoch (as ! j)))"

lemma latestSnapshot_index:
  assumes "epochs_increase (m_Artifacts m)" and "j < length (m_Artifacts m)" and "a_Kind (m_Artifacts m ! j) = KindSnapshot"
    and "\<forall>i. j < i \<and> i < length (m_Artifacts m) \<longrightarrow> a_Kind (m_Artifacts m ! i) \<noteq> KindSnapshot"
  shows "latestSnapshot m = Some (m_Artifacts m ! j)"
proof (rule latestSnapshot_newest)
  show "m_Artifacts m = take j (m_Artifacts m) @ m_Artifacts m ! j # drop (Suc j) (m_Artifacts m)"
    using assms(2) by (simp add: id_take_nth_drop)
  show "\<forall>a \<in> set (take j (m_Artifacts m)) \<union> set (drop (Suc j) (m_Artifacts m)).
      a_Kind a = KindSnapshot \<longrightarrow> a_Epoch a < a_Epoch (m_Artifacts m ! j)"
    using assms by (auto simp: in_set_conv_nth epochs_increase_def)
qed (rule assms(3))

context boundary_order
begin

lemma deltas_of_boundary:
  assumes "linked cmp as" and "deltas_of as q = Some d"
  shows "\<exists>j < length as. q = a_ToPosition (as ! j)"
proof -
  have d: "d \<in> set as" "is_diff d" "the (a_FromPosition d) = q"
    using by_from_mem [OF assms(2) [unfolded deltas_of_def]] by auto
  then obtain k where k: "k < length as" "d = as ! k" by (auto simp: in_set_conv_nth)
  then have "q = a_ToPosition (as ! (k - 1))"
    using linked_diff(3) [OF assms(1) k(1)] d is_diff_not_snapshot by auto
  with k show ?thesis by (intro exI [of _ "k - 1"]) simp
qed

lemma contiguous_from:
  assumes "chain_loop (deltas_of as) q = Some (map ((!) as) [Suc j..<Suc k])" and "j \<le> k"
  shows "contiguousDiffChain (filter is_diff as) q =
    Some (map ((!) as) [Suc j..<Suc k], if j = k then [] else a_ToPosition (as ! k), j \<noteq> k)"
  using assms by (auto simp: contiguousDiffChain_def deltas_of_def last_map simp del: upt_Suc)

lemma contiguous_none:
  assumes "deltas_of as q = None"
  shows "contiguousDiffChain (filter is_diff as) q = Some ([], [], False)"
proof -
  have "chain_loop (deltas_of as) q = Some []" using assms by (subst chain_loop.simps) simp
  then show ?thesis by (simp add: contiguousDiffChain_def deltas_of_def)
qed

text \<open>The fallback of a plan: the last base snapshot and all diffs after it.\<close>

lemma Plan_from_base:
  assumes lk: "linked cmp (m_Artifacts m)" and ep: "epochs_increase (m_Artifacts m)" and ne: "m_Artifacts m \<noteq> []"
    and pos: "\<forall>a \<in> set (m_Artifacts m). a_ToPosition a \<noteq> []" and h: "holds vt r keyFields (m_Artifacts m) ts"
  shows "\<exists>s chain head ok. latestSnapshot m = Some s \<and>
    contiguousDiffChain (filter is_diff (m_Artifacts m)) (a_ToPosition s) = Some (chain, head, ok) \<and>
    (if head = [] then a_ToPosition s else head) = a_ToPosition (last (m_Artifacts m)) \<and>
    (\<forall>q. reconstruct_state vt r keyFields \<lparr>rp_Snapshot = Some s, rp_Diffs = chain, rp_HeadPosition = q\<rparr> = Inr (last ts))"
proof -
  let ?as = "m_Artifacts m"
  define n where "n = length ?as - 1"
  have n: "n < length ?as" "last ?as = ?as ! n" "last ts = ts ! n"
    using ne holds_last [OF h ne] by (auto simp: n_def last_conv_nth)
  obtain j where j: "j \<le> n" "a_Kind (?as ! j) = KindSnapshot" "\<forall>i. j < i \<and> i \<le> n \<longrightarrow> a_Kind (?as ! i) \<noteq> KindSnapshot"
    using last_snapshot_index [OF lk n(1)] by blast
  have jl: "j < length ?as" using j(1) n(1) by simp
  have "i \<le> n" if "i < length ?as" for i using that by (simp add: n_def)
  then have "latestSnapshot m = Some (?as ! j)"
    using latestSnapshot_index [OF ep jl j(2)] j(3) by blast
  moreover obtain k where k: "j \<le> k" "k < length ?as" "Suc k < length ?as \<longrightarrow> a_Kind (?as ! Suc k) = KindSnapshot"
    "chain_loop (deltas_of ?as) (a_ToPosition (?as ! j)) = Some (map ((!) ?as) [Suc j..<Suc k])"
    using chain_loop_takes [OF lk jl] by blast
  moreover have "k = n"
  proof (rule ccontr)
    assume "k \<noteq> n"
    then have "Suc k < length ?as" "Suc k \<le> n" using k(2) by (auto simp: n_def)
    with k(1,3) j(3) show False by auto
  qed
  ultimately show ?thesis
    using contiguous_from [OF k(4,1)] pos n reconstruct_holds [OF h j(1) n(1) j(2,3)] by auto
qed

lemma Plan_ends_at_head:
  assumes lk: "linked cmp (m_Artifacts m)" and ep: "epochs_increase (m_Artifacts m)" and ne: "m_Artifacts m \<noteq> []"
    and pos: "\<forall>a \<in> set (m_Artifacts m). a_ToPosition a \<noteq> []" and h: "holds vt r keyFields (m_Artifacts m) ts"
    and head: "m_HeadPosition m = a_ToPosition (last (m_Artifacts m))"
  shows "\<exists>plan. Plan m q cmp = Some (Some plan) \<and> rp_HeadPosition plan = m_HeadPosition m \<and>
    (if rp_Snapshot plan = None
     then \<exists>j < length ts. q = a_ToPosition (m_Artifacts m ! j) \<and> fold_diffs vt r (rp_Diffs plan) (ts ! j) = Inr (last ts)
     else reconstruct_state vt r keyFields plan = Inr (last ts))"
proof -
  let ?as = "m_Artifacts m" and ?ds = "filter is_diff (m_Artifacts m)"
  obtain s chain hd' ok' where base: "latestSnapshot m = Some s"
    "contiguousDiffChain ?ds (a_ToPosition s) = Some (chain, hd', ok')"
    "(if hd' = [] then a_ToPosition s else hd') = a_ToPosition (last ?as)"
    "\<And>q. reconstruct_state vt r keyFields \<lparr>rp_Snapshot = Some s, rp_Diffs = chain, rp_HeadPosition = q\<rparr> = Inr (last ts)"
    using Plan_from_base [OF lk ep ne pos h] by blast
  show ?thesis
  proof (cases "deltas_of ?as q")
    case None
    then show ?thesis using contiguous_none base ne head by (auto simp: Plan_def)
  next
    case (Some d)
    obtain j where j: "j < length ?as" "q = a_ToPosition (?as ! j)" using deltas_of_boundary [OF lk Some] by blast
    obtain k where k: "j \<le> k" "k < length ?as" "\<forall>i. j < i \<and> i \<le> k \<longrightarrow> a_Kind (?as ! i) \<noteq> KindSnapshot"
      "chain_loop (deltas_of ?as) (a_ToPosition (?as ! j)) = Some (map ((!) ?as) [Suc j..<Suc k])"
      using chain_loop_takes [OF lk j(1)] by blast
    have lts: "length ts = length ?as" using h by (simp add: holds_def)
    note first = contiguous_from [OF k(4,1), folded j(2)]
    show ?thesis
    proof (cases "j \<noteq> k \<and> k = length ?as - 1")
      case True
      then have "last ?as = ?as ! k" "last ts = ts ! k" using ne holds_last [OF h ne] by (auto simp: last_conv_nth)
      then show ?thesis
        using True first ne head refl j lts fold_diffs_holds [OF h k(2,1,3)] by (simp add: Plan_def del: upt_Suc) blast
    next
      case False
      then have "j = k \<or> cmp (a_ToPosition (?as ! k)) (a_ToPosition (last ?as)) < 0"
        using linked_before [OF lk, of k "length ?as - 1"] k(2) ne by (cases "k = length ?as - 1") (auto simp: last_conv_nth)
      then show ?thesis using first base ne head by (auto simp: Plan_def simp del: upt_Suc)
    qed
  qed
qed

end

end
