(* ===== verification/Source_Subscription.thy ===== *)
theory Source_Subscription
  imports Archive_Writer Change_Buffer
begin

text \<open>
  The subscription over a source (\<^verbatim>\<open>snapshotter/sourcesub/sourcesub.go\<close>): the adapter keeps the table in
  memory, applies the changes the source streams and forwards them to the writer.  \<open>toString\<close> is the
  source's \<^verbatim>\<open>PositionToString\<close>; what the source returns is an argument of the operations.  The
  background goroutine is a machine that stands between two changes, between the update of the state
  and the callback, or between a failed stream and the new baseline.
\<close>

section \<open>The adapter\<close>

record Adapter =
  ad_table :: TableIdentifier
  ad_keyFields :: "string list"
  ad_state :: "string \<rightharpoonup> row"
  ad_columns :: "ColumnDefinition list"
  ad_position :: string
  ad_onChange :: bool
  ad_ready :: bool
  ad_started :: bool
  ad_cancelled :: bool
  ad_stopped :: bool
  ad_srcClosed :: bool

definition sub_New :: "TableIdentifier \<Rightarrow> string list \<Rightarrow> Adapter" where
  "sub_New table keyFields =
     \<lparr>ad_table = table, ad_keyFields = (if keyFields = [] then [''id''] else keyFields), ad_state = Map.empty,
      ad_columns = [], ad_position = [], ad_onChange = False, ad_ready = False, ad_started = False,
      ad_cancelled = False, ad_stopped = False, ad_srcClosed = False\<rparr>"

text \<open>\<open>rs\<close> are the rows the source passes to the callback of \<^verbatim>\<open>Baseline\<close>, which it may do before it fails.\<close>

definition sub_baseline ::
    "(position \<Rightarrow> string) \<Rightarrow> row list \<Rightarrow> goerror + position \<Rightarrow> Adapter \<Rightarrow> (goerror + position) \<times> Adapter" where
  "sub_baseline toString rs result a =
     (case result of
        Inl err \<Rightarrow> (Inl err, a)
      | Inr pos \<Rightarrow> (Inr pos, a\<lparr>ad_state := load_base (ad_keyFields a) rs, ad_position := toString pos\<rparr>))"

definition sub_Start ::
    "(position \<Rightarrow> string) \<Rightarrow> goerror + (TableIdentifier \<rightharpoonup> ColumnDefinition list) \<Rightarrow> row list \<Rightarrow> goerror + position \<Rightarrow>
     Adapter \<Rightarrow> goerror option \<times> Adapter" where
  "sub_Start toString init rs result a =
     (case init of
        Inl err \<Rightarrow> (Some (Wrap ''sourcesub: init'' err), a)
      | Inr schemas \<Rightarrow>
          let a = a\<lparr>ad_columns := (case schemas (ad_table a) of None \<Rightarrow> [] | Some cols \<Rightarrow> cols)\<rparr> in
          (case sub_baseline toString rs result a of
             (Inl err, a) \<Rightarrow> (Some (Wrap ''sourcesub: baseline'' err), a)
           | (Inr pos, a) \<Rightarrow> (None, a\<lparr>ad_ready := True, ad_started := True\<rparr>)))"

section \<open>Streaming\<close>

definition sub_apply :: "(position \<Rightarrow> string) \<Rightarrow> ChangeEvent \<Rightarrow> Adapter \<Rightarrow> Adapter" where
  "sub_apply toString ev a =
     (let key = (\<lambda>r. RowKey (nilrow r) (ad_keyFields a));
          st = (case ev_Action ev of
                  ActionInsert \<Rightarrow> (ad_state a)(key (ev_NewValues ev) \<mapsto> nilrow (ev_NewValues ev))
                | ActionUpdate \<Rightarrow> (ad_state a)(key (ev_NewValues ev) \<mapsto> nilrow (ev_NewValues ev))
                | ActionDelete \<Rightarrow> (ad_state a)(key (ev_OldValues ev) := None)
                | ActionTruncate \<Rightarrow> Map.empty)
      in a\<lparr>ad_state := st, ad_position := toString (ev_Position ev)\<rparr>)"

text \<open>The arguments of the callback.\<close>

definition sub_callback :: "ChangeEvent \<Rightarrow> row option \<times> row option" where
  "sub_callback ev =
     (case ev_Action ev of
        ActionInsert \<Rightarrow> (None, ev_NewValues ev)
      | ActionUpdate \<Rightarrow> (ev_OldValues ev, ev_NewValues ev)
      | ActionDelete \<Rightarrow> (ev_OldValues ev, None)
      | ActionTruncate \<Rightarrow> (None, None))"

datatype sub_pc = SubStreaming | SubNotifying "row option" "row option" | SubRebaselining | SubDone

datatype sub_event =
    SubChange ChangeEvent
  | SubNotify
  | SubReturn "goerror option"
  | SubBaseline "row list" "goerror + position"

text \<open>One step of the goroutine, with the callback it makes; an event that does not fit changes nothing.\<close>

definition sub_step :: "(position \<Rightarrow> string) \<Rightarrow> sub_event \<Rightarrow> sub_pc \<times> Adapter \<Rightarrow> (sub_pc \<times> Adapter) \<times> raced" where
  "sub_step toString e = (\<lambda>(pc, a).
     case (pc, e) of
       (SubStreaming, SubChange ev) \<Rightarrow>
         ((if ad_onChange a then SubNotifying (fst (sub_callback ev)) (snd (sub_callback ev)) else SubStreaming,
           sub_apply toString ev a), [])
     | (SubNotifying old new, SubNotify) \<Rightarrow> ((SubStreaming, a), [(old, new)])
     | (SubStreaming, SubReturn err) \<Rightarrow>
         ((case err of
             None \<Rightarrow> SubDone
           | Some err \<Rightarrow> if errors_Is err ErrReBaselineRequired then SubRebaselining else SubDone, a), [])
     | (SubRebaselining, SubBaseline rs result) \<Rightarrow>
         (case sub_baseline toString rs result a of
            (Inl err, a) \<Rightarrow> ((SubDone, a), [])
          | (Inr pos, a) \<Rightarrow> ((SubStreaming, a), []))
     | _ \<Rightarrow> ((pc, a), []))"

fun sub_run :: "(position \<Rightarrow> string) \<Rightarrow> sub_event list \<Rightarrow> sub_pc \<times> Adapter \<Rightarrow> (sub_pc \<times> Adapter) \<times> raced" where
  "sub_run toString [] s = (s, [])"
| "sub_run toString (e # es) s =
     (case sub_step toString e s of (s, cs) \<Rightarrow> case sub_run toString es s of (s, ds) \<Rightarrow> (s, cs @ ds))"

section \<open>What the writer asks\<close>

definition sub_AwaitReady :: "Adapter \<Rightarrow> bool" where
  "sub_AwaitReady a = ad_ready a"

definition sub_Snapshot :: "((string \<rightharpoonup> row) \<Rightarrow> string list) \<Rightarrow> Adapter \<Rightarrow> row list \<times> string" where
  "sub_Snapshot order a = (values_of (order (ad_state a)) (ad_state a), ad_position a)"

definition sub_CurrentPosition :: "Adapter \<Rightarrow> string" where
  "sub_CurrentPosition a = ad_position a"

definition sub_Count :: "Adapter \<Rightarrow> int" where
  "sub_Count a = int (card (dom (ad_state a)))"

definition sub_OnChange :: "Adapter \<Rightarrow> Adapter" where
  "sub_OnChange a = a\<lparr>ad_onChange := True\<rparr>"

definition sub_Columns :: "Adapter \<Rightarrow> ColumnDefinition list" where
  "sub_Columns a = ad_columns a"

text \<open>\<open>ended\<close> says that the goroutine has closed \<^verbatim>\<open>done\<close>; cancelling makes a conforming source return.\<close>

definition sub_Stop :: "bool \<Rightarrow> Adapter \<Rightarrow> Adapter outcome" where
  "sub_Stop ended a =
     (if \<not> ad_started a \<or> ad_stopped a then Returns a
      else if \<not> ended then Blocked
      else Returns (a\<lparr>ad_cancelled := True, ad_stopped := True, ad_srcClosed := True\<rparr>))"

section \<open>Writer and subscription together\<close>

record snap_times =
  tm_created :: int
  tm_updated :: int
  tm_at :: int

text \<open>A base snapshot while the subscription makes the steps \<open>es\<close>, and a flush while it makes \<open>es\<close>
  before it is asked for its position and, if the flush turns into a base snapshot, \<open>bs\<close> after that.\<close>

datatype archive_event =
    ArSub sub_event
  | ArForce "sub_event list" snap_times
  | ArTick "sub_event list" "sub_event list" "string list" int snap_times

definition sub_snap_env ::
    "((string \<rightharpoonup> row) \<Rightarrow> string list) \<Rightarrow> snap_times \<Rightarrow> Adapter \<Rightarrow> raced \<Rightarrow> snap_env" where
  "sub_snap_env order tm a raced =
     \<lparr>sn_raced = raced, sn_rows = fst (sub_Snapshot order a), sn_pos = snd (sub_Snapshot order a),
      sn_created = tm_created tm, sn_updated = tm_updated tm, sn_at = tm_at tm, sn_columns = Some (sub_Columns a)\<rparr>"

definition sub_flush_env ::
    "string list \<Rightarrow> int \<Rightarrow> snap_times \<Rightarrow> Adapter \<Rightarrow> raced \<Rightarrow> snap_env \<Rightarrow> flush_env" where
  "sub_flush_env ks now tm a raced rebase =
     \<lparr>fl_order = ks, fl_now = now, fl_raced = raced, fl_pos = sub_CurrentPosition a, fl_count = sub_Count a,
      fl_created = tm_created tm, fl_updated = tm_updated tm, fl_columns = Some (sub_Columns a), fl_rebase = rebase\<rparr>"

definition archive_tick ::
    "(position \<Rightarrow> string) \<Rightarrow> ((string \<rightharpoonup> row) \<Rightarrow> string list) \<Rightarrow> sub_event list \<Rightarrow> sub_event list \<Rightarrow> string list \<Rightarrow> int \<Rightarrow> snap_times \<Rightarrow>
     'd Writer \<Rightarrow> sub_pc \<times> Adapter \<Rightarrow> flush_env \<times> (sub_pc \<times> Adapter)" where
  "archive_tick toString order es bs ks now tm w s =
     (case sub_run toString es s of (s1, cs) \<Rightarrow>
        let env = (\<lambda>rebase. sub_flush_env ks now tm (snd s1) cs rebase);
            plain = env (sub_snap_env order tm (snd s1) []);
            rebases = (case f_WriteDiff (hd (c_DiffFormats (w_cfg w))) (values_of ks (w_buffer w)) of
                         Inl err \<Rightarrow> False
                       | Inr data \<Rightarrow> flush_rebases plain data w)
        in if \<not> rebases then (plain, s1)
           else case sub_run toString bs s1 of (s2, ds) \<Rightarrow> (env (sub_snap_env order tm (snd s2) ds), s2))"

definition archive_step ::
    "(position \<Rightarrow> string) \<Rightarrow> ((string \<rightharpoonup> row) \<Rightarrow> string list) \<Rightarrow> archive_event \<Rightarrow> 'd Writer \<Rightarrow> sub_pc \<times> Adapter \<Rightarrow>
     writer_event list \<times> (sub_pc \<times> Adapter)" where
  "archive_step toString order e w s =
     (case e of
        ArSub e \<Rightarrow> (case sub_step toString e s of (s, cs) \<Rightarrow> (map (\<lambda>(old, new). WChange old new) cs, s))
      | ArForce es tm \<Rightarrow> (case sub_run toString es s of (s, cs) \<Rightarrow> ([WForce (sub_snap_env order tm (snd s) cs)], s))
      | ArTick es bs ks now tm \<Rightarrow>
          if w_buffer w = Map.empty then ([], s)
          else (case archive_tick toString order es bs ks now tm w s of (env, s) \<Rightarrow> ([WTick env], s)))"

fun archive_events ::
    "'d Destination \<Rightarrow> (position \<Rightarrow> string) \<Rightarrow> ((string \<rightharpoonup> row) \<Rightarrow> string list) \<Rightarrow> archive_event list \<Rightarrow> 'd Writer \<Rightarrow>
     sub_pc \<times> Adapter \<Rightarrow> writer_event list \<times> (sub_pc \<times> Adapter)" where
  "archive_events vt toString order [] w s = ([], s)"
| "archive_events vt toString order (e # es) w s =
     (case archive_step toString order e w s of (ws, s) \<Rightarrow>
        case archive_events vt toString order es (foldl (\<lambda>w ev. writer_step vt ev w) w ws) s of (vs, s) \<Rightarrow> (ws @ vs, s))"

end
