(* ===== verification/Archive_Follow.thy ===== *)
theory Archive_Follow
  imports Archive_Chain Source_Subscription Sync_Target
begin

text \<open>
  A writer over a subscription keeps an archive from which the table can be read back.  The table at
  the head of the archive, with the buffered changes and the one the subscription is about to report
  applied to it, is at every moment the table of the subscription, whatever changes arrive while a
  diff or a base snapshot is written.
\<close>

section \<open>Changes as updates of a table\<close>

text \<open>The key and the value a change leaves there, in the terms of the callback.\<close>

definition change_key :: "string list \<Rightarrow> row option \<times> row option \<Rightarrow> string" where
  "change_key kf c = RowKey (nilrow (case snd c of None \<Rightarrow> fst c | Some r \<Rightarrow> snd c)) kf"

definition put_change :: "string list \<Rightarrow> (string \<rightharpoonup> row) \<Rightarrow> row option \<times> row option \<Rightarrow> (string \<rightharpoonup> row)" where
  "put_change kf T c = T(change_key kf c := snd c)"

definition put_changes :: "string list \<Rightarrow> (string \<rightharpoonup> row) \<Rightarrow> raced \<Rightarrow> (string \<rightharpoonup> row)" where
  "put_changes kf T cs = foldl (put_change kf) T cs"

definition is_row_change :: "row option \<times> row option \<Rightarrow> bool" where
  "is_row_change c \<longleftrightarrow> c \<noteq> (None, None)"

lemma put_changes_simps [simp]:
  "put_changes kf T [] = T" "put_changes kf T (c # cs) = put_changes kf (put_change kf T c) cs"
  "put_changes kf T (cs @ ds) = put_changes kf (put_changes kf T cs) ds"
  by (simp_all add: put_changes_def)

text \<open>The last change of a key decides, so applying the same changes again changes nothing.\<close>

lemma put_changes_cases:
  "put_changes kf T cs k = (if k \<in> change_key kf ` set cs then put_changes kf T' cs k else T k)"
  by (induction cs rule: rev_induct) (auto simp: put_change_def)

lemma put_changes_idem [simp]: "put_changes kf (put_changes kf T cs) cs = put_changes kf T cs"
proof
  fix k
  show "put_changes kf (put_changes kf T cs) cs k = put_changes kf T cs k"
    using put_changes_cases [of kf "put_changes kf T cs" cs k T] by auto
qed

definition row_key :: "string list \<Rightarrow> row \<Rightarrow> string" where
  "row_key kf r = RowKey r kf"

lemma keyed_put_change: "keyed (row_key kf) T \<Longrightarrow> keyed (row_key kf) (put_change kf T c)"
  by (cases "snd c") (auto simp: keyed_def put_change_def change_key_def row_key_def nilrow_def)

lemma keyed_put_changes: "keyed (row_key kf) T \<Longrightarrow> keyed (row_key kf) (put_changes kf T cs)"
  by (induction cs arbitrary: T) (auto simp: keyed_put_change)

lemma finite_put_changes: "finite (dom T) \<Longrightarrow> finite (dom (put_changes kf T cs))"
  by (induction cs arbitrary: T) (auto simp: put_change_def dom_fun_upd)

lemma load_base_table_put: "load_base kf rs = table_put (row_key kf) rs Map.empty"
proof -
  have "foldl (\<lambda>m r. m(RowKey r kf \<mapsto> r)) T rs = table_put (row_key kf) rs T" for T
    by (induction rs arbitrary: T) (auto simp: row_key_def)
  then show ?thesis by (simp add: load_base_def)
qed

lemma load_base_values: "keyed (row_key kf) T \<Longrightarrow> iter_order ks T \<Longrightarrow> load_base kf (values_of ks T) = T"
  by (simp add: load_base_table_put table_put_values_of)

section \<open>The buffer of the writer\<close>

definition buffer_ok :: "(string \<rightharpoonup> Change) \<Rightarrow> bool" where
  "buffer_ok buf \<longleftrightarrow> finite (dom buf) \<and> (\<forall>k c. buf k = Some c \<longrightarrow> ch_Key c = k \<and> ch_Action c \<noteq> ActionTruncate)"

definition overlay :: "(string \<rightharpoonup> Change) \<Rightarrow> (string \<rightharpoonup> row) \<Rightarrow> (string \<rightharpoonup> row)" where
  "overlay buf T = (\<lambda>k. case buf k of
     None \<Rightarrow> T k
   | Some c \<Rightarrow> if ch_Action c = ActionDelete then None else Some (nilrow (ch_New c)))"

lemma overlay_empty [simp]: "overlay Map.empty T = T"
  by (simp add: overlay_def)

lemma fold_change_overlay:
  "ch_Action c \<noteq> ActionTruncate \<Longrightarrow> fold_change T c = overlay [ch_Key c \<mapsto> c] T"
  by (auto simp: fold_change_def overlay_def fun_eq_iff split: ChangeAction.split)

text \<open>A diff in any order of the buffer has the same effect.\<close>

lemma fold_values_overlay:
  assumes "buffer_ok buf"
  shows "distinct ks \<Longrightarrow> set ks \<subseteq> dom buf \<Longrightarrow> foldl fold_change T (values_of ks buf) = overlay (buf |` set ks) T"
proof (induction ks arbitrary: T)
  case Nil
  then show ?case by (simp add: overlay_def)
next
  case (Cons k ks)
  then obtain c where c: "buf k = Some c" by auto
  then have "ch_Key c = k" "ch_Action c \<noteq> ActionTruncate" using assms by (auto simp: buffer_ok_def)
  then have "foldl fold_change T (values_of (k # ks) buf) = overlay (buf |` set ks) (overlay [k \<mapsto> c] T)"
    using Cons c fold_change_overlay [of c T] by simp
  also have "\<dots> = overlay (buf |` set (k # ks)) T"
    using Cons.prems(1) c by (auto simp: overlay_def restrict_map_def fun_eq_iff split: option.split)
  finally show ?case .
qed

lemma fold_buffer:
  assumes "buffer_ok buf" and "iter_order ks buf"
  shows "foldl fold_change T (values_of ks buf) = overlay buf T"
proof -
  have "buf |` set ks = buf" using assms(2) by (auto simp: iter_order_def restrict_map_def fun_eq_iff domIff)
  then show ?thesis using fold_values_overlay [OF assms(1), of ks T] assms(2) by (simp add: iter_order_def)
qed

lemma onChange_frame [simp]:
  "w_cfg (onChange old new w) = w_cfg w" "w_epoch (onChange old new w) = w_epoch w" "w_fromPos (onChange old new w) = w_fromPos w"
  "w_headPos (onChange old new w) = w_headPos w" "w_manifest (onChange old new w) = w_manifest w"
  "w_revs (onChange old new w) = w_revs w" "w_dests (onChange old new w) = w_dests w"
  by (auto simp: onChange_def Let_def split: option.splits)

lemma onChanges_frame [simp]:
  "w_cfg (onChanges cs w) = w_cfg w" "w_epoch (onChanges cs w) = w_epoch w" "w_fromPos (onChanges cs w) = w_fromPos w"
  "w_headPos (onChanges cs w) = w_headPos w" "w_manifest (onChanges cs w) = w_manifest w"
  "w_revs (onChanges cs w) = w_revs w" "w_dests (onChanges cs w) = w_dests w"
  by (induction cs arbitrary: w) (auto simp: onChanges_def)

lemma onChange_buffer:
  assumes "is_row_change (old, new)" and "buffer_ok (w_buffer w)"
  shows "buffer_ok (w_buffer (onChange old new w))"
    and "overlay (w_buffer (onChange old new w)) T = put_change (c_KeyFields (w_cfg w)) (overlay (w_buffer w) T) (old, new)"
  using assms
  by (cases old; cases new; auto simp: onChange_def buffer_ok_def Let_def is_row_change_def overlay_def put_change_def
      change_key_def keyOf_def nilrow_def fun_eq_iff)+

lemma onChanges_buffer:
  "\<forall>c \<in> set cs. is_row_change c \<Longrightarrow> buffer_ok (w_buffer w) \<Longrightarrow>
   buffer_ok (w_buffer (onChanges cs w)) \<and>
   overlay (w_buffer (onChanges cs w)) T = put_changes (c_KeyFields (w_cfg w)) (overlay (w_buffer w) T) cs"
proof (induction cs arbitrary: w)
  case (Cons c cs)
  obtain old new where c: "c = (old, new)" by (cases c)
  then have "buffer_ok (w_buffer (onChange old new w))" using Cons.prems onChange_buffer(1) by auto
  from Cons.IH [OF _ this] Cons.prems c show ?case
    using onChange_buffer(2) [of old new w T] by (simp add: onChanges_def)
qed (simp add: onChanges_def)

section \<open>The subscription\<close>

definition event_ok :: "ChangeEvent \<Rightarrow> bool" where
  "event_ok ev \<longleftrightarrow> (case ev_Action ev of
     ActionInsert \<Rightarrow> ev_NewValues ev \<noteq> None
   | ActionUpdate \<Rightarrow> ev_NewValues ev \<noteq> None
   | ActionDelete \<Rightarrow> ev_OldValues ev \<noteq> None
   | ActionTruncate \<Rightarrow> False)"

definition sub_event_ok :: "sub_event \<Rightarrow> bool" where
  "sub_event_ok e \<longleftrightarrow> (case e of SubChange ev \<Rightarrow> event_ok ev | SubBaseline rs result \<Rightarrow> isl result | _ \<Rightarrow> True)"

definition pending :: "sub_pc \<Rightarrow> raced" where
  "pending pc = (case pc of SubNotifying old new \<Rightarrow> [(old, new)] | _ \<Rightarrow> [])"

lemma sub_apply_state:
  assumes "event_ok ev"
  shows "ad_state (sub_apply toString ev a) = put_change (ad_keyFields a) (ad_state a) (sub_callback ev)"
    "is_row_change (sub_callback ev)"
  using assms
  by (auto simp: event_ok_def sub_apply_def sub_callback_def put_change_def change_key_def is_row_change_def nilrow_def Let_def
      split: ChangeAction.splits)

lemma sub_apply_frame [simp]:
  "ad_keyFields (sub_apply toString ev a) = ad_keyFields a" "ad_onChange (sub_apply toString ev a) = ad_onChange a"
  "ad_columns (sub_apply toString ev a) = ad_columns a"
  by (auto simp: sub_apply_def Let_def)

text \<open>What the steps apply to the table is what they report, give or take the change in flight.\<close>

definition sub_reports :: "sub_pc \<times> Adapter \<Rightarrow> (sub_pc \<times> Adapter) \<times> raced \<Rightarrow> bool" where
  "sub_reports s res \<longleftrightarrow> (case res of ((pc', a'), cs) \<Rightarrow>
     ad_keyFields a' = ad_keyFields (snd s) \<and> ad_onChange a' = ad_onChange (snd s) \<and>
     (\<forall>c \<in> set cs \<union> set (pending pc'). is_row_change c) \<and>
     (\<exists>applied. pending (fst s) @ applied = cs @ pending pc' \<and>
        ad_state a' = put_changes (ad_keyFields (snd s)) (ad_state (snd s)) applied))"

lemma sub_step_reports:
  assumes "sub_event_ok e" and "ad_onChange a" and "\<forall>c \<in> set (pending pc). is_row_change c"
  shows "sub_reports (pc, a) (sub_step toString e (pc, a))"
proof (cases "\<exists>ev. pc = SubStreaming \<and> e = SubChange ev")
  case True
  then obtain ev where ev: "pc = SubStreaming" "e = SubChange ev" by blast
  then have "event_ok ev" using assms(1) by (simp add: sub_event_ok_def)
  then show ?thesis
    using ev assms(2) sub_apply_state(1) [of ev toString a] sub_apply_state(2) [of ev]
    by (auto simp: sub_step_def sub_reports_def pending_def intro!: exI [of _ "[sub_callback ev]"])
next
  case False
  with assms show ?thesis
    by (cases pc; cases e)
      (auto simp: sub_step_def sub_reports_def pending_def sub_event_ok_def sub_baseline_def split: option.splits sum.splits)
qed

lemma sub_run_reports:
  "\<forall>e \<in> set es. sub_event_ok e \<Longrightarrow> ad_onChange (snd s) \<Longrightarrow> \<forall>c \<in> set (pending (fst s)). is_row_change c \<Longrightarrow>
   sub_reports s (sub_run toString es s)"
proof (induction es arbitrary: s)
  case Nil
  then show ?case by (cases s) (auto simp: sub_reports_def)
next
  case (Cons e es)
  obtain pc a where s: "s = (pc, a)" by (cases s)
  obtain pc1 a1 cs where st: "sub_step toString e (pc, a) = ((pc1, a1), cs)" by (metis surj_pair)
  have one: "sub_reports (pc, a) ((pc1, a1), cs)" using sub_step_reports [of e a pc toString] Cons.prems s st by simp
  obtain pc2 a2 ds where rn: "sub_run toString es (pc1, a1) = ((pc2, a2), ds)" by (metis surj_pair)
  have two: "sub_reports (pc1, a1) ((pc2, a2), ds)"
    using Cons.IH [of "(pc1, a1)"] Cons.prems one s rn by (auto simp: sub_reports_def)
  obtain as bs where "pending pc @ as = cs @ pending pc1" "ad_state a1 = put_changes (ad_keyFields a) (ad_state a) as"
    "pending pc1 @ bs = ds @ pending pc2" "ad_state a2 = put_changes (ad_keyFields a1) (ad_state a1) bs"
    using one two by (auto simp: sub_reports_def)
  moreover from this have "pending pc @ as @ bs = (cs @ ds) @ pending pc2" by (metis append.assoc)
  ultimately show ?case
    using one two st rn s by (auto simp: sub_reports_def intro!: exI [of _ "as @ bs"])
qed

end
