(* ===== verification/Archive_Log.thy ===== *)
theory Archive_Log
  imports Archive_Follow
begin

text \<open>
  What the writer keeps of an archive: distinct object keys, epochs that increase with every base
  snapshot, a pruned manifest that still starts with a base, and objects from which every table can
  be read.
\<close>

section \<open>Object keys\<close>

lemma Itoa_slash: "CHR ''/'' \<notin> set (Itoa i)"
proof -
  have "CHR ''/'' \<notin> set (dec_digits n)" for n
  proof
    assume "CHR ''/'' \<in> set (dec_digits n)"
    then obtain d where d: "d \<in> set (digits_of 10 n)" "hex_upper d = CHR ''/''" by (auto simp: dec_digits_def)
    then have "digit_value (CHR ''/'') = Some d"
      using digit_value_hex_upper [of d] digits_of_bound [of 10 d n] by simp
    then show False by (simp add: digit_value_def)
  qed
  then show ?thesis by (simp add: Itoa_def)
qed

text \<open>Positions that object keys keep apart, such as printed log sequence numbers.\<close>

definition clean :: "string \<Rightarrow> bool" where
  "clean p \<longleftrightarrow> p \<noteq> [] \<and> CHR ''_'' \<notin> set p \<and> CHR '':'' \<notin> set p \<and> CHR ''-'' \<notin> set p \<and> CHR '' '' \<notin> set p"

lemma sanitize_inj:
  assumes "clean p" "clean q" "sanitizePosition p = sanitizePosition q"
  shows "p = q"
proof (rule map_inj_on)
  let ?f = "\<lambda>c. if c = CHR ''/'' \<or> c = CHR '':'' \<or> c = CHR '' '' then CHR ''_'' else c"
  show "map ?f p = map ?f q" using assms by (simp add: sanitizePosition_def clean_def)
  show "inj_on ?f (set p \<union> set q)" using assms(1,2) by (auto simp: inj_on_def clean_def split: if_splits)
qed

lemma sanitize_dash: "clean p \<Longrightarrow> CHR ''-'' \<notin> set (sanitizePosition p)"
  by (auto simp: clean_def sanitizePosition_def)

lemma split_at_char:
  assumes "xs @ c # ys = xs' @ c # ys'" and "c \<notin> set xs" and "c \<notin> set xs'"
  shows "xs = xs'" "ys = ys'"
proof -
  show eq: "xs = xs'"
    using takeWhile_neq_append [OF assms(2), of ys] takeWhile_neq_append [OF assms(3), of ys'] assms(1) by simp
  with assms(1) show "ys = ys'" by simp
qed

lemma key_epoch: "ArtifactObjectKey prefix a ext = ArtifactObjectKey prefix b ext' \<Longrightarrow> a_Epoch a = a_Epoch b"
  using split_at_char(1) [of "Itoa (a_Epoch a)" "CHR ''/''" _ "Itoa (a_Epoch b)"] Itoa_slash Itoa_inj
  by (auto simp: ArtifactObjectKey_def Let_def)

lemma key_kind:
  assumes "ArtifactObjectKey prefix a ext = ArtifactObjectKey prefix b ext'"
  shows "a_Kind a = KindSnapshot \<longleftrightarrow> a_Kind b = KindSnapshot"
  using assms key_epoch [OF assms] by (auto simp: ArtifactObjectKey_def Let_def split: if_splits)

lemma key_diff:
  assumes eq: "ArtifactObjectKey prefix a ext = ArtifactObjectKey prefix b ext" and "a_Kind a \<noteq> KindSnapshot"
    and a: "a_FromPosition a = Some p" "clean p" "clean (a_ToPosition a)"
    and b: "a_FromPosition b = Some q" "clean q" "clean (a_ToPosition b)"
  shows "a_ToPosition a = a_ToPosition b"
proof -
  have "sanitizePosition p @ CHR ''-'' # sanitizePosition (a_ToPosition a) @ ext =
      sanitizePosition q @ CHR ''-'' # sanitizePosition (a_ToPosition b) @ ext"
    using assms key_epoch [OF eq] key_kind [OF eq] by (auto simp: ArtifactObjectKey_def Let_def)
  from split_at_char(2) [OF this] a b sanitize_dash have "sanitizePosition (a_ToPosition a) = sanitizePosition (a_ToPosition b)"
    by simp
  with a b show ?thesis using sanitize_inj by blast
qed

lemma key_manifest [simp]: "ArtifactObjectKey prefix a ext \<noteq> ManifestObjectKey prefix"
  by (simp add: ArtifactObjectKey_def ManifestObjectKey_def Let_def)

lemma key_formats [simp]: "ArtifactObjectKey prefix (a\<lparr>a_Formats := fs\<rparr>) ext = ArtifactObjectKey prefix a ext"
  by (simp add: ArtifactObjectKey_def Let_def)

section \<open>Epochs and pruning\<close>

definition epochs_ok :: "Artifact list \<Rightarrow> bool" where
  "epochs_ok as \<longleftrightarrow> (\<forall>i. Suc i < length as \<longrightarrow>
     (if a_Kind (as ! Suc i) = KindSnapshot then a_Epoch (as ! i) < a_Epoch (as ! Suc i) else a_Epoch (as ! i) = a_Epoch (as ! Suc i)))"

lemma epochs_ok_step:
  assumes "epochs_ok as" "Suc i < length as"
  shows "a_Kind (as ! Suc i) = KindSnapshot \<Longrightarrow> a_Epoch (as ! i) < a_Epoch (as ! Suc i)"
    "a_Kind (as ! Suc i) \<noteq> KindSnapshot \<Longrightarrow> a_Epoch (as ! i) = a_Epoch (as ! Suc i)"
  using assms unfolding epochs_ok_def by metis+

lemma epochs_mono: "epochs_ok as \<Longrightarrow> i \<le> j \<Longrightarrow> j < length as \<Longrightarrow> a_Epoch (as ! i) \<le> a_Epoch (as ! j)"
proof (induction j)
  case (Suc j)
  have "a_Epoch (as ! j) \<le> a_Epoch (as ! Suc j)"
    using epochs_ok_step [OF Suc.prems(1,3)] by (cases "a_Kind (as ! Suc j) = KindSnapshot") auto
  with Suc show ?case by (cases "i = Suc j") auto
qed simp

lemma epochs_ok_increase:
  assumes "epochs_ok as"
  shows "epochs_increase as"
  unfolding epochs_increase_def
proof (intro allI impI)
  fix i j assume j: "j < length as" "a_Kind (as ! j) = KindSnapshot" "i < j"
  then obtain k where k: "j = Suc k" by (cases j) auto
  then have "a_Epoch (as ! i) \<le> a_Epoch (as ! k)" using epochs_mono [OF assms, of i k] j by simp
  then show "a_Epoch (as ! i) < a_Epoch (as ! j)" using epochs_ok_step(1) [OF assms, of k] j k by simp
qed

lemma epochs_ok_drop: "epochs_ok as \<Longrightarrow> epochs_ok (drop n as)"
  by (auto simp: epochs_ok_def)

lemma epochs_ok_snoc:
  assumes "epochs_ok as" and "as \<noteq> [] \<Longrightarrow> if a_Kind a = KindSnapshot then a_Epoch (last as) < a_Epoch a else a_Epoch (last as) = a_Epoch a"
  shows "epochs_ok (as @ [a])"
  unfolding epochs_ok_def
proof (intro allI impI)
  fix i assume i: "Suc i < length (as @ [a])"
  show "if a_Kind ((as @ [a]) ! Suc i) = KindSnapshot then a_Epoch ((as @ [a]) ! i) < a_Epoch ((as @ [a]) ! Suc i)
      else a_Epoch ((as @ [a]) ! i) = a_Epoch ((as @ [a]) ! Suc i)"
  proof (cases "Suc i = length as")
    case True
    then have ne: "as \<noteq> []" by auto
    moreover have "length as - 1 = i" using True by simp
    ultimately have "last as = as ! i" by (simp add: last_conv_nth)
    with ne assms(2) True show ?thesis by (simp add: nth_append split: if_splits)
  next
    case False
    then show ?thesis using i epochs_ok_step [OF assms(1), of i] by (auto simp: nth_append)
  qed
qed

text \<open>Pruning drops the artifacts before some base snapshot.\<close>

lemma filter_sorted_drop:
  assumes "sorted (map f xs)"
  shows "filter (\<lambda>x. m \<le> f x) xs = drop (length (takeWhile (\<lambda>x. f x < m) xs)) xs"
  using assms
proof (induction xs)
  case (Cons x xs)
  show ?case
  proof (cases "f x < m")
    case False
    then have "\<forall>y \<in> set xs. m \<le> f y" using Cons.prems by fastforce
    with False show ?thesis by (simp add: filter_id_conv)
  qed (use Cons in auto)
qed simp

lemma prune_drops:
  fixes m :: int
  assumes lk: "linked cmp as" and ep: "epochs_ok as"
  shows "\<exists>n \<le> length as. filter (\<lambda>a. m \<le> a_Epoch a) as = drop n as \<and> (n < length as \<longrightarrow> a_Kind (as ! n) = KindSnapshot)"
proof -
  let ?n = "length (takeWhile (\<lambda>a. a_Epoch a < m) as)"
  have "sorted (map a_Epoch as)" using epochs_mono [OF ep] by (simp add: sorted_iff_nth_mono)
  then have "filter (\<lambda>a. m \<le> a_Epoch a) as = drop ?n as" by (rule filter_sorted_drop)
  moreover have "a_Kind (as ! ?n) = KindSnapshot" if n: "?n < length as"
  proof (rule ccontr)
    assume diff: "a_Kind (as ! ?n) \<noteq> KindSnapshot"
    then obtain k where k: "?n = Suc k" using linked_diff(1) [OF lk n] by (cases ?n) auto
    then have "a_Epoch (takeWhile (\<lambda>a. a_Epoch a < m) as ! k) < m"
      using set_takeWhileD [OF nth_mem, of k "\<lambda>a. a_Epoch a < m" as] by simp
    then have "a_Epoch (as ! k) < m" using takeWhile_nth [of k "\<lambda>a. a_Epoch a < m" as] k by simp
    moreover have "m \<le> a_Epoch (as ! ?n)" using nth_length_takeWhile [OF n] by simp
    ultimately show False using epochs_ok_step(2) [OF ep, of k] n diff k by simp
  qed
  ultimately show ?thesis using length_takeWhile_le by blast
qed

lemma linked_drop:
  assumes "linked cmp as" and "n < length as \<longrightarrow> a_Kind (as ! n) = KindSnapshot"
  shows "linked cmp (drop n as)"
  unfolding linked_def
proof (intro conjI allI impI)
  show "sorted_wrt (before cmp) (drop n as)" using assms(1) by (simp add: linked_def sorted_wrt_drop)
  fix i assume i: "i < length (drop n as)"
  show "a_Kind (drop n as ! i) = KindSnapshot \<or> (0 < i \<and> a_Kind (drop n as ! i) = KindDiff \<and>
      a_FromPosition (drop n as ! i) = Some (a_ToPosition (drop n as ! (i - 1))))"
  proof (cases i)
    case 0
    then show ?thesis using assms(2) i by simp
  next
    case (Suc j)
    then show ?thesis using assms(1) i unfolding linked_def by (auto dest!: spec [of _ "n + i"])
  qed
qed


context boundary_order
begin

lemma linked_snoc:
  assumes "linked cmp as" and "as \<noteq> [] \<Longrightarrow> cmp (a_ToPosition (last as)) (a_ToPosition a) < 0"
    and "a_Kind a = KindSnapshot \<or> (as \<noteq> [] \<and> a_Kind a = KindDiff \<and> a_FromPosition a = Some (a_ToPosition (last as)))"
  shows "linked cmp (as @ [a])"
  unfolding linked_def
proof (intro conjI allI impI)
  have "before cmp x a" if "x \<in> set as" for x
  proof -
    obtain i where i: "i < length as" "x = as ! i" using \<open>x \<in> set as\<close> by (auto simp: in_set_conv_nth)
    then have ne: "as \<noteq> []" by auto
    have "cmp (a_ToPosition x) (a_ToPosition (last as)) \<le> 0"
      using linked_reach [OF assms(1), of i "length as - 1"] i ne refl by (simp add: last_conv_nth)
    with assms(2) [OF ne] show ?thesis
      using flip trans by (smt (verit) before_def)
  qed
  then show "sorted_wrt (before cmp) (as @ [a])" using assms(1) by (simp add: linked_def sorted_wrt_append)
  fix i assume i: "i < length (as @ [a])"
  show "a_Kind ((as @ [a]) ! i) = KindSnapshot \<or> (0 < i \<and> a_Kind ((as @ [a]) ! i) = KindDiff \<and>
      a_FromPosition ((as @ [a]) ! i) = Some (a_ToPosition ((as @ [a]) ! (i - 1))))"
  proof (cases "i = length as")
    case True
    then show ?thesis using assms(3) by (auto simp: nth_append last_conv_nth)
  next
    case False
    then have "i < length as" using i by simp
    moreover from this have "i - 1 < length as" by simp
    ultimately show ?thesis using assms(1) by (simp add: linked_def nth_append)
  qed
qed

end

section \<open>Stored artifacts\<close>

definition reads :: "Format \<Rightarrow> string list \<Rightarrow> string \<Rightarrow> Artifact \<Rightarrow> (string \<rightharpoonup> row) \<Rightarrow> (string \<rightharpoonup> row) \<Rightarrow> bool" where
  "reads f kf b a T T' \<longleftrightarrow>
     (if a_Kind a = KindSnapshot
      then \<exists>rs. f_ReadSnapshot f b = Inr rs \<and> load_base kf rs = T'
      else \<exists>cs. f_ReadDiff f b = Inr cs \<and> foldl fold_change T cs = T')"

definition stored ::
    "Format \<Rightarrow> string \<Rightarrow> string list \<Rightarrow> (string \<rightharpoonup> object) \<Rightarrow> Artifact list \<Rightarrow> (string \<rightharpoonup> row) list \<Rightarrow> bool" where
  "stored f prefix kf obs as ts \<longleftrightarrow> length ts = length as \<and> (\<forall>i < length as.
     a_Formats (as ! i) (f_FormatID f) \<noteq> None \<and>
     (\<exists>b. obs (ArtifactObjectKey prefix (as ! i) (f_Extension f)) = Some (BytesObject b) \<and>
        reads f kf b (as ! i) (ts ! (i - 1)) (ts ! i)))"

lemma stored_drop:
  assumes "stored f prefix kf obs as ts" and "n < length as \<longrightarrow> a_Kind (as ! n) = KindSnapshot"
  shows "stored f prefix kf obs (drop n as) (drop n ts)"
  unfolding stored_def
proof (intro conjI allI impI)
  show "length (drop n ts) = length (drop n as)" using assms(1) by (simp add: stored_def)
  fix i assume i: "i < length (drop n as)"
  then have at: "a_Formats (as ! (n + i)) (f_FormatID f) \<noteq> None \<and>
      (\<exists>b. obs (ArtifactObjectKey prefix (as ! (n + i)) (f_Extension f)) = Some (BytesObject b) \<and>
         reads f kf b (as ! (n + i)) (ts ! (n + i - 1)) (ts ! (n + i)))"
    using assms(1) by (simp add: stored_def)
  then show "a_Formats (drop n as ! i) (f_FormatID f) \<noteq> None" using i by simp
  show "\<exists>b. obs (ArtifactObjectKey prefix (drop n as ! i) (f_Extension f)) = Some (BytesObject b) \<and>
      reads f kf b (drop n as ! i) (drop n ts ! (i - 1)) (drop n ts ! i)"
  proof (cases i)
    case 0
    then show ?thesis using at i assms by (auto simp: reads_def stored_def)
  next
    case (Suc j)
    then show ?thesis using at i assms(1) by (simp add: stored_def)
  qed
qed

lemma stored_snoc:
  assumes "stored f prefix kf obs as ts" and "a_Formats a (f_FormatID f) \<noteq> None"
    and "obs (ArtifactObjectKey prefix a (f_Extension f)) = Some (BytesObject b)"
    and "reads f kf b a (last ts) T" and "as = [] \<Longrightarrow> a_Kind a = KindSnapshot"
  shows "stored f prefix kf obs (as @ [a]) (ts @ [T])"
proof -
  have len: "length ts = length as" using assms(1) by (simp add: stored_def)
  have "reads f kf b a ((ts @ [T]) ! (length as - 1)) T"
  proof (cases "as = []")
    case True
    then show ?thesis using assms(4,5) by (simp add: reads_def)
  next
    case False
    then have "ts \<noteq> []" using len by auto
    then show ?thesis using assms(4) False len by (simp add: nth_append last_conv_nth)
  qed
  then show ?thesis using assms(1-3) len by (auto simp: stored_def nth_append less_Suc_eq)
qed

lemma stored_other:
  assumes "stored f prefix kf obs as ts" and "\<forall>a \<in> set as. ArtifactObjectKey prefix a (f_Extension f) \<noteq> k"
  shows "stored f prefix kf (obs(k := v)) as ts"
  using assms by (auto simp: stored_def)

end
