(* ===== verification/Archive_Recovery.thy ===== *)
theory Archive_Recovery
  imports Archive_Log
begin

text \<open>
  The writer's operations on healthy destinations: each base snapshot and each diff extends the
  archive by the table it stands for, and the reader gets the tables back.
\<close>

section \<open>The archive of a writer\<close>

lemma next_manifest_fields:
  "m_ManifestVersion (next_manifest now cols art w) = ManifestVersion"
  "m_HeadPosition (next_manifest now cols art w) = a_ToPosition art"
  "m_Epoch (next_manifest now cols art w) = (if a_Kind art = KindSnapshot then a_Epoch art else m_Epoch (w_manifest w))"
  by (auto simp: next_manifest_def prune_def Let_def split: option.splits)

lemma next_manifest_artifacts:
  assumes "linked cmp (m_Artifacts (w_manifest w) @ [art])" and "epochs_ok (m_Artifacts (w_manifest w) @ [art])"
    and "a_Kind art = KindSnapshot \<or> m_Epoch (w_manifest w) = a_Epoch art"
  shows "\<exists>n \<le> length (m_Artifacts (w_manifest w)).
    m_Artifacts (next_manifest now cols art w) = drop n (m_Artifacts (w_manifest w) @ [art]) \<and>
    a_Kind ((m_Artifacts (w_manifest w) @ [art]) ! n) = KindSnapshot \<and> (c_KeepEpochs (w_cfg w) \<le> 0 \<longrightarrow> n = 0)"
proof (cases "c_KeepEpochs (w_cfg w) \<le> 0")
  case True
  have "a_Kind ((m_Artifacts (w_manifest w) @ [art]) ! 0) = KindSnapshot"
    using assms(1) by (auto simp: linked_def)
  moreover have "m_Artifacts (next_manifest now cols art w) = m_Artifacts (w_manifest w) @ [art]"
    using True by (auto simp: next_manifest_def prune_def Let_def split: option.splits)
  ultimately show ?thesis by (intro exI [of _ 0]) simp
next
  case False
  let ?as = "m_Artifacts (w_manifest w) @ [art]" and ?m = "a_Epoch art - c_KeepEpochs (w_cfg w) + 1"
  have eq: "m_Artifacts (next_manifest now cols art w) = filter (\<lambda>a. ?m \<le> a_Epoch a) ?as"
    using False assms(3) by (auto simp: next_manifest_def prune_def Let_def split: option.splits)
  obtain n where n: "n \<le> length ?as" "filter (\<lambda>a. ?m \<le> a_Epoch a) ?as = drop n ?as"
    "n < length ?as \<longrightarrow> a_Kind (?as ! n) = KindSnapshot"
    using prune_drops [OF assms(1,2), of ?m] by blast
  have "art \<in> set (filter (\<lambda>a. ?m \<le> a_Epoch a) ?as)" using False by simp
  then have "drop n ?as \<noteq> []" unfolding n(2) by (metis list.set_intros(1) empty_iff empty_set)
  then have "n < length ?as" by (metis drop_all not_le)
  then have "n \<le> length (m_Artifacts (w_manifest w))" by simp
  with n eq False show ?thesis by (intro exI [of _ n]) simp
qed

text \<open>What a base snapshot and a diff need: the format reads back what it writes, and the position is new.\<close>

definition snap_ready :: "(string \<Rightarrow> string \<Rightarrow> int) \<Rightarrow> Format \<Rightarrow> snap_env \<Rightarrow> 'd Writer \<Rightarrow> bool" where
  "snap_ready cmp f env w \<longleftrightarrow> (\<exists>b. f_WriteSnapshot f (sn_rows env) = Inr b \<and> f_ReadSnapshot f b = Inr (sn_rows env)) \<and>
     clean (sn_pos env) \<and> (m_Artifacts (w_manifest w) \<noteq> [] \<longrightarrow> cmp (w_fromPos w) (sn_pos env) < 0)"

definition flush_ready :: "(string \<Rightarrow> string \<Rightarrow> int) \<Rightarrow> Format \<Rightarrow> flush_env \<Rightarrow> 'd Writer \<Rightarrow> bool" where
  "flush_ready cmp f env w \<longleftrightarrow> iter_order (fl_order env) (w_buffer w) \<and> clean (fl_pos env) \<and> cmp (w_fromPos w) (fl_pos env) < 0 \<and>
     (\<exists>b. f_WriteDiff f (values_of (fl_order env) (w_buffer w)) = Inr b \<and>
        f_ReadDiff f b = Inr (values_of (fl_order env) (w_buffer w)))"

locale archive_store = object_store vt objects healthy rev_of + boundary_order cmp
  for vt :: "'d Destination" and objects :: "'d \<Rightarrow> string \<rightharpoonup> object" and healthy :: "'d \<Rightarrow> bool"
    and rev_of :: "object \<Rightarrow> string" and cmp :: "string \<Rightarrow> string \<Rightarrow> int"
begin

definition chained :: "'d Writer \<Rightarrow> bool" where
  "chained w \<longleftrightarrow> (let as = m_Artifacts (w_manifest w) in
     linked cmp as \<and> epochs_ok as \<and>
     (\<forall>a \<in> set as. a_Epoch a \<le> w_epoch w \<and> clean (a_ToPosition a) \<and>
        (a_Kind a \<noteq> KindSnapshot \<longrightarrow> (\<exists>q. a_FromPosition a = Some q \<and> clean q))) \<and>
     (as \<noteq> [] \<longrightarrow> a_Epoch (last as) = w_epoch w \<and> m_Epoch (w_manifest w) = w_epoch w \<and>
        m_HeadPosition (w_manifest w) = a_ToPosition (last as) \<and> w_fromPos w = a_ToPosition (last as) \<and>
        w_headPos w = a_ToPosition (last as) \<and> m_ManifestVersion (w_manifest w) = ManifestVersion))"

definition dests_ok :: "'d Writer \<Rightarrow> bool" where
  "dests_ok w \<longleftrightarrow> (\<forall>d \<in> set (w_dests w). healthy d) \<and> distinct (map (d_Name vt) (w_dests w)) \<and>
     revs_known (ManifestObjectKey (c_KeyPrefix (w_cfg w))) (w_revs w) (w_dests w)"

definition holds_tables :: "Format \<Rightarrow> 'd Writer \<Rightarrow> (string \<rightharpoonup> row) list \<Rightarrow> 'd \<Rightarrow> bool" where
  "holds_tables f w ts d \<longleftrightarrow>
     stored f (c_KeyPrefix (w_cfg w)) (c_KeyFields (w_cfg w)) (objects d) (m_Artifacts (w_manifest w)) ts \<and>
     (m_Artifacts (w_manifest w) \<noteq> [] \<longrightarrow>
        objects d (ManifestObjectKey (c_KeyPrefix (w_cfg w))) = Some (ManifestObject (w_manifest w)))"

definition archived :: "Format \<Rightarrow> 'd Writer \<Rightarrow> (string \<rightharpoonup> row) list \<Rightarrow> bool" where
  "archived f w ts \<longleftrightarrow> chained w \<and> dests_ok w \<and> length ts = length (m_Artifacts (w_manifest w)) \<and>
     c_SnapshotFormats (w_cfg w) = [f] \<and> c_DiffFormats (w_cfg w) = [f] \<and> (\<forall>d \<in> set (w_dests w). holds_tables f w ts d)"

text \<open>The next artifact, with the bytes \<open>b\<close> it has in the destinations and the table \<open>T\<close> it leads to.\<close>

definition extends :: "Format \<Rightarrow> 'd Writer \<Rightarrow> (string \<rightharpoonup> row) list \<Rightarrow> Artifact \<Rightarrow> string \<Rightarrow> (string \<rightharpoonup> row) \<Rightarrow> bool" where
  "extends f w ts art b T \<longleftrightarrow> clean (a_ToPosition art) \<and> reads f (c_KeyFields (w_cfg w)) b art (last ts) T \<and>
     (m_Artifacts (w_manifest w) \<noteq> [] \<longrightarrow> cmp (w_fromPos w) (a_ToPosition art) < 0) \<and>
     (if a_Kind art = KindSnapshot then a_Epoch art = w_epoch w + 1
      else a_Kind art = KindDiff \<and> m_Artifacts (w_manifest w) \<noteq> [] \<and> a_FromPosition art = Some (w_fromPos w) \<and>
           a_Epoch art = w_epoch w)"

lemma chained_snoc:
  assumes ch: "chained w" and ex: "extends f w ts art b T"
  shows "linked cmp (m_Artifacts (w_manifest w) @ [art])" "epochs_ok (m_Artifacts (w_manifest w) @ [art])"
    "a_Kind art = KindSnapshot \<or> m_Epoch (w_manifest w) = a_Epoch art"
    "\<forall>a \<in> set (m_Artifacts (w_manifest w)). ArtifactObjectKey prefix a ext \<noteq> ArtifactObjectKey prefix art ext"
proof -
  let ?as = "m_Artifacts (w_manifest w)"
  have as: "linked cmp ?as" "epochs_ok ?as" "?as \<noteq> [] \<Longrightarrow> a_Epoch (last ?as) = w_epoch w \<and> m_Epoch (w_manifest w) = w_epoch w \<and> w_fromPos w = a_ToPosition (last ?as)"
    using ch by (auto simp: chained_def Let_def)
  show "linked cmp (?as @ [art])"
    using linked_snoc [OF as(1), of art] as(3) ex by (auto simp: extends_def split: if_splits)
  show "epochs_ok (?as @ [art])"
    using epochs_ok_snoc [OF as(2), of art] as(3) ex by (auto simp: extends_def split: if_splits)
  show "a_Kind art = KindSnapshot \<or> m_Epoch (w_manifest w) = a_Epoch art"
    using as(3) ex by (auto simp: extends_def split: if_splits)
  show "\<forall>a \<in> set ?as. ArtifactObjectKey prefix a ext \<noteq> ArtifactObjectKey prefix art ext"
  proof (intro ballI notI)
    fix a assume a: "a \<in> set ?as" and eq: "ArtifactObjectKey prefix a ext = ArtifactObjectKey prefix art ext"
    have old: "a_Epoch a \<le> w_epoch w" "clean (a_ToPosition a)" "a_Kind a \<noteq> KindSnapshot \<Longrightarrow> \<exists>q. a_FromPosition a = Some q \<and> clean q"
      using ch a by (auto simp: chained_def Let_def)
    have ne: "?as \<noteq> []" using a by auto
    then have "clean (w_fromPos w)" using ch as(3) by (auto simp: chained_def Let_def)
    moreover have diff: "a_Kind art \<noteq> KindSnapshot" using ex key_epoch [OF eq] old(1) by (auto simp: extends_def split: if_splits)
    ultimately have "a_ToPosition a = a_ToPosition art"
      using key_diff [OF eq] key_kind [OF eq] old ex by (auto simp: extends_def)
    moreover obtain i where "i < length ?as" "a = ?as ! i" using a by (auto simp: in_set_conv_nth)
    then have "cmp (a_ToPosition a) (w_fromPos w) \<le> 0"
      using linked_reach [OF as(1), of i "length ?as - 1"] as(3) [OF ne] ne refl by (simp add: last_conv_nth)
    ultimately show False using ex ne flip by (fastforce simp: extends_def)
  qed
qed

lemma commit_writes:
  assumes "dests_ok w"
  shows "\<exists>revs ds. commit vt now cols art w =
      (None, w\<lparr>w_manifest := next_manifest now cols art w, w_revs := revs, w_dests := ds\<rparr>) \<and>
    list_all2 (written (ManifestObjectKey (c_KeyPrefix (w_cfg w))) (ManifestObject (next_manifest now cols art w))) (w_dests w) ds \<and>
    revs_known (ManifestObjectKey (c_KeyPrefix (w_cfg w))) revs ds"
proof -
  let ?key = "ManifestObjectKey (c_KeyPrefix (w_cfg w))" and ?ob = "ManifestObject (next_manifest now cols art w)"
  obtain revs ds where l: "cas_loop vt ?key ?ob (w_dests w) (w_revs w) = (None, revs, ds)"
    "list_all2 (written ?key ?ob) (w_dests w) ds" "\<forall>d \<in> set (w_dests w). revs (d_Name vt d) = Some (rev_of ?ob)"
    using cas_loop_writes [of "w_dests w" ?key "w_revs w" ?ob] assms by (auto simp: dests_ok_def)
  have "revs_known ?key revs ds"
    unfolding revs_known_def
  proof
    fix d' assume "d' \<in> set ds"
    then obtain d where "d \<in> set (w_dests w)" "written ?key ?ob d d'"
      using l(2) by (metis in_set_conv_nth list_all2_conv_all_nth)
    then show "(case revs (d_Name vt d') of None \<Rightarrow> [] | Some rv \<Rightarrow> rv) = current_rev ?key d'"
      using l(3) by (simp add: written_def current_rev_def)
  qed
  with l show ?thesis by (auto simp: commit_def Let_def)
qed

lemma written_twice:
  assumes "list_all2 (written k1 ob1) ds ds1" and "list_all2 (written k2 ob2) ds1 ds2"
  shows "\<forall>d \<in> set ds2. healthy d" "map (d_Name vt) ds2 = map (d_Name vt) ds"
    "d \<in> set ds2 \<Longrightarrow> \<exists>d0 \<in> set ds. objects d = (objects d0)(k1 \<mapsto> ob1, k2 \<mapsto> ob2)"
proof -
  show "\<forall>d \<in> set ds2. healthy d" using written_list(1) [OF assms(2)] .
  show "map (d_Name vt) ds2 = map (d_Name vt) ds" using written_list(2) [OF assms(1)] written_list(2) [OF assms(2)] by simp
  assume "d \<in> set ds2"
  then obtain d1 where d1: "d1 \<in> set ds1" "written k2 ob2 d1 d"
    using assms(2) by (metis in_set_conv_nth list_all2_conv_all_nth)
  then obtain d0 where "d0 \<in> set ds" "written k1 ob1 d0 d1"
    using assms(1) by (metis in_set_conv_nth list_all2_conv_all_nth)
  with d1 show "\<exists>d0 \<in> set ds. objects d = (objects d0)(k1 \<mapsto> ob1, k2 \<mapsto> ob2)" by (auto simp: written_def)
qed

lemma dests_ok_written:
  assumes "dests_ok w" and "list_all2 (written k ob) (w_dests w) ds" and "k \<noteq> ManifestObjectKey (c_KeyPrefix (w_cfg w))"
  shows "dests_ok (w\<lparr>w_dests := ds\<rparr>)"
proof -
  let ?key = "ManifestObjectKey (c_KeyPrefix (w_cfg w))"
  have "(case w_revs w (d_Name vt d) of None \<Rightarrow> [] | Some rv \<Rightarrow> rv) = current_rev ?key d" if d: "d \<in> set ds" for d
  proof -
    obtain d0 where "d0 \<in> set (w_dests w)" "written k ob d0 d"
      using assms(2) d by (metis in_set_conv_nth list_all2_conv_all_nth)
    then show ?thesis using assms(1,3) by (auto simp: dests_ok_def revs_known_def written_def current_rev_def)
  qed
  then show ?thesis
    using assms(1) written_list(1,2) [OF assms(2)] by (simp add: dests_ok_def revs_known_def)
qed

lemma holds_tables_append:
  assumes ar: "archived f w ts" and ex: "extends f w ts art b T" and fm: "a_Formats art (f_FormatID f) \<noteq> None"
    and obs: "d0 \<in> set (w_dests w)" "objects d = (objects d0)(ArtifactObjectKey (c_KeyPrefix (w_cfg w)) art (f_Extension f) \<mapsto> BytesObject b,
        ManifestObjectKey (c_KeyPrefix (w_cfg w)) \<mapsto> ob)"
  shows "stored f (c_KeyPrefix (w_cfg w)) (c_KeyFields (w_cfg w)) (objects d) (m_Artifacts (w_manifest w) @ [art]) (ts @ [T])"
proof (rule stored_snoc)
  let ?as = "m_Artifacts (w_manifest w)"
  have st: "stored f (c_KeyPrefix (w_cfg w)) (c_KeyFields (w_cfg w)) (objects d0) ?as ts" and ch: "chained w"
    using ar obs(1) by (auto simp: archived_def holds_tables_def)
  show "stored f (c_KeyPrefix (w_cfg w)) (c_KeyFields (w_cfg w)) (objects d) ?as ts"
    unfolding obs(2) by (intro stored_other st) (use chained_snoc(4) [OF ch ex] in simp_all)
  show "reads f (c_KeyFields (w_cfg w)) b art (last ts) T" using ex by (simp add: extends_def)
  show "a_Kind art = KindSnapshot" if "?as = []" using ex that by (auto simp: extends_def split: if_splits)
qed (use fm obs(2) in \<open>simp_all add: key_manifest [symmetric]\<close>)

text \<open>After an artifact is in the destinations and committed, the archive has one more table.\<close>

definition committed :: "int \<Rightarrow> ColumnDefinition list option \<Rightarrow> Artifact \<Rightarrow> 'd list \<Rightarrow> 'd Writer \<Rightarrow> 'd Writer" where
  "committed now cols art ds w = (snd (commit vt now cols art (w\<lparr>w_dests := ds\<rparr>)))
     \<lparr>w_epoch := a_Epoch art, w_fromPos := a_ToPosition art, w_headPos := a_ToPosition art\<rparr>"

lemma commit_archives:
  assumes ar: "archived f w ts" and ex: "extends f w ts art b T" and fm: "a_Formats art (f_FormatID f) \<noteq> None"
    and put: "list_all2 (written (ArtifactObjectKey (c_KeyPrefix (w_cfg w)) art (f_Extension f)) (BytesObject b)) (w_dests w) ds1"
  shows "fst (commit vt now cols art (w\<lparr>w_dests := ds1\<rparr>)) = None" "w_cfg (committed now cols art ds1 w) = w_cfg w"
    "w_buffer (committed now cols art ds1 w) = w_buffer w"
    "\<exists>n \<le> length ts. (c_KeepEpochs (w_cfg w) \<le> 0 \<longrightarrow> n = 0) \<and> archived f (committed now cols art ds1 w) (drop n (ts @ [T]))"
proof -
  let ?w1 = "w\<lparr>w_dests := ds1\<rparr>" and ?as = "m_Artifacts (w_manifest w)"
  have w: "chained w" "dests_ok w" "length ts = length ?as" using ar by (auto simp: archived_def)
  have "dests_ok ?w1" using dests_ok_written [OF w(2) put] by simp
  then obtain revs ds where c: "commit vt now cols art ?w1 =
      (None, ?w1\<lparr>w_manifest := next_manifest now cols art ?w1, w_revs := revs, w_dests := ds\<rparr>)"
    "list_all2 (written (ManifestObjectKey (c_KeyPrefix (w_cfg w))) (ManifestObject (next_manifest now cols art ?w1))) ds1 ds"
    "revs_known (ManifestObjectKey (c_KeyPrefix (w_cfg w))) revs ds"
    using commit_writes [of ?w1 now cols art] by auto
  show "fst (commit vt now cols art ?w1) = None" "w_cfg (committed now cols art ds1 w) = w_cfg w"
    "w_buffer (committed now cols art ds1 w) = w_buffer w"
    by (simp_all add: c(1) committed_def)
  let ?m = "next_manifest now cols art ?w1" and ?all = "?as @ [art]"
  have lk: "linked cmp ?all" "epochs_ok ?all" "a_Kind art = KindSnapshot \<or> m_Epoch (w_manifest w) = a_Epoch art"
    using chained_snoc(1-3) [OF w(1) ex] .
  then have "\<exists>n \<le> length ?as. m_Artifacts ?m = drop n ?all \<and> a_Kind (?all ! n) = KindSnapshot \<and>
      (c_KeepEpochs (w_cfg w) \<le> 0 \<longrightarrow> n = 0)"
    using next_manifest_artifacts [of cmp ?w1 art now cols] by (simp del: drop_append)
  then obtain n where n: "n \<le> length ?as" "m_Artifacts ?m = drop n ?all" "a_Kind (?all ! n) = KindSnapshot"
    "c_KeepEpochs (w_cfg w) \<le> 0 \<longrightarrow> n = 0"
    by blast
  let ?w' = "committed now cols art ds1 w"
  have last: "last (drop n ?all) = art" "drop n ?all \<noteq> []" using n(1) by simp_all
  have "a_Epoch a \<le> a_Epoch art" if "a \<in> set ?all" for a
    using that w(1) ex by (auto simp: chained_def extends_def Let_def split: if_splits)
  moreover have "clean (a_ToPosition a) \<and> (a_Kind a \<noteq> KindSnapshot \<longrightarrow> (\<exists>q. a_FromPosition a = Some q \<and> clean q))" if "a \<in> set ?all" for a
    using that w(1) ex by (auto simp: chained_def extends_def Let_def split: if_splits)
  ultimately have "chained ?w'"
    using linked_drop [OF lk(1), of n] epochs_ok_drop [OF lk(2), of n] n lk(3) last
    by (auto simp: chained_def committed_def c(1) next_manifest_fields Let_def dest!: in_set_dropD)
  moreover have "dests_ok ?w'"
    using written_twice(1,2) [OF put c(2)] w(2) c(3) by (simp add: dests_ok_def committed_def c(1))
  moreover have "holds_tables f ?w' (drop n (ts @ [T])) d" if d: "d \<in> set ds" for d
  proof -
    obtain d0 where d0: "d0 \<in> set (w_dests w)" "objects d = (objects d0)(ArtifactObjectKey (c_KeyPrefix (w_cfg w)) art (f_Extension f) \<mapsto> BytesObject b,
        ManifestObjectKey (c_KeyPrefix (w_cfg w)) \<mapsto> ManifestObject ?m)"
      using written_twice(3) [OF put c(2) d] by blast
    from stored_drop [OF holds_tables_append [OF ar ex fm d0]] n(3) show ?thesis
      by (simp add: holds_tables_def committed_def c(1) n(2) d0(2))
  qed
  ultimately have "archived f ?w' (drop n (ts @ [T]))"
    using ar w(3) n(2) by (simp add: archived_def committed_def c(1))
  then show "\<exists>n \<le> length ts. (c_KeepEpochs (w_cfg w) \<le> 0 \<longrightarrow> n = 0) \<and> archived f ?w' (drop n (ts @ [T]))"
    using n(1,4) w(3) by auto
qed

text \<open>The invariant does not depend on the buffer, the churn and the events.\<close>

lemma archived_cong:
  assumes "w_cfg w' = w_cfg w" "w_epoch w' = w_epoch w" "w_fromPos w' = w_fromPos w" "w_headPos w' = w_headPos w"
    "w_manifest w' = w_manifest w" "w_revs w' = w_revs w" "w_dests w' = w_dests w"
  shows "archived f w' ts = archived f w ts"
  using assms by (simp add: archived_def chained_def dests_ok_def holds_tables_def)

lemma extends_cong:
  assumes "w_cfg w' = w_cfg w" "w_epoch w' = w_epoch w" "w_fromPos w' = w_fromPos w" "w_manifest w' = w_manifest w"
  shows "extends f w' ts art b T = extends f w ts art b T"
  using assms by (simp add: extends_def)

lemma commit_frame:
  "w_epoch (snd (commit vt now cols art w)) = w_epoch w" "w_buffer (snd (commit vt now cols art w)) = w_buffer w"
  by (simp_all add: commit_def Let_def split: prod.split)

section \<open>Base snapshots\<close>

lemma snapshot_archives:
  assumes ar: "archived f w ts" and rd: "snap_ready cmp f env w"
  shows "fst (snapshot vt env w) = None" "w_cfg (snd (snapshot vt env w)) = w_cfg w"
    "w_buffer (snd (snapshot vt env w)) = w_buffer (onChanges (sn_raced env) (w\<lparr>w_buffer := Map.empty, w_churn := 0\<rparr>))"
    "\<exists>n \<le> length ts. (c_KeepEpochs (w_cfg w) \<le> 0 \<longrightarrow> n = 0) \<and>
       archived f (snd (snapshot vt env w)) (drop n (ts @ [load_base (c_KeyFields (w_cfg w)) (sn_rows env)]))"
proof -
  let ?w = "onChanges (sn_raced env) (w\<lparr>w_buffer := Map.empty, w_churn := 0\<rparr>)" and ?T = "load_base (c_KeyFields (w_cfg w)) (sn_rows env)"
  let ?art = "\<lparr>a_Kind = KindSnapshot, a_Epoch = w_epoch w + 1, a_FromPosition = None, a_ToPosition = sn_pos env,
    a_CreatedAt = sn_created env, a_RowCount = int (length (sn_rows env)), a_ChangeCount = 0, a_Formats = Map.empty\<rparr>"
  obtain b where b: "f_WriteSnapshot f (sn_rows env) = Inr b" "f_ReadSnapshot f b = Inr (sn_rows env)" using rd by (auto simp: snap_ready_def)
  obtain ref ds where p: "putArtifact vt (c_KeyPrefix (w_cfg w)) ?art (f_Extension f) b (w_dests w) = (Inr ref, ds)"
    "list_all2 (written (ArtifactObjectKey (c_KeyPrefix (w_cfg w)) ?art (f_Extension f)) (BytesObject b)) (w_dests w) ds"
    using putArtifact_writes [of "w_dests w"] ar by (fastforce simp: archived_def dests_ok_def)
  define art where "art = ?art\<lparr>a_Formats := [f_FormatID f \<mapsto> ref]\<rparr>"
  have w: "archived f ?w ts" using ar by (subst archived_cong [of _ w]) simp_all
  have ex: "extends f ?w ts art b ?T"
    using rd b by (auto simp: extends_def snap_ready_def reads_def art_def)
  have fm: "a_Formats art (f_FormatID f) \<noteq> None" by (simp add: art_def)
  have put: "list_all2 (written (ArtifactObjectKey (c_KeyPrefix (w_cfg ?w)) art (f_Extension f)) (BytesObject b)) (w_dests ?w) ds"
    using p(2) unfolding art_def key_formats by simp
  note c = commit_archives [OF w ex fm put, of "sn_updated env" "sn_columns env"]
  let ?c = "snd (commit vt (sn_updated env) (sn_columns env) art (?w\<lparr>w_dests := ds\<rparr>))"
  have eq: "snapshot vt env w = (None, emit art (?c\<lparr>w_epoch := w_epoch w + 1, w_fromPos := sn_pos env, w_headPos := sn_pos env,
      w_lastSnapshotAt := sn_at env, w_lastSnapshotBytes := fr_SizeBytes ref\<rparr>))"
    using c(1) ar b(1) p(1) by (auto simp: snapshot_def Let_def archived_def art_def case_prod_beta split: option.split)
  then show "fst (snapshot vt env w) = None" by simp
  show "w_cfg (snd (snapshot vt env w)) = w_cfg w" using c(2) by (simp add: eq emit_def committed_def)
  show "w_buffer (snd (snapshot vt env w)) = w_buffer ?w" using c(3) by (simp add: eq emit_def committed_def)
  have "archived f (snd (snapshot vt env w)) us = archived f (committed (sn_updated env) (sn_columns env) art ds ?w) us" for us
    by (rule archived_cong) (simp_all add: eq emit_def committed_def art_def)
  with c(4) show "\<exists>n \<le> length ts. (c_KeepEpochs (w_cfg w) \<le> 0 \<longrightarrow> n = 0) \<and> archived f (snd (snapshot vt env w)) (drop n (ts @ [?T]))"
    by simp
qed

section \<open>Diffs\<close>

lemma flush_archives:
  assumes ar: "archived f w ts" and rd: "flush_ready cmp f env w" and ne: "w_buffer w \<noteq> Map.empty" "m_Artifacts (w_manifest w) \<noteq> []"
    and ok: "buffer_ok (w_buffer w)"
    and plain: "f_WriteDiff f (values_of (fl_order env) (w_buffer w)) = Inr b" "\<not> flush_rebases env b w"
  shows "fst (flush vt env w) = None" "w_cfg (snd (flush vt env w)) = w_cfg w"
    "w_buffer (snd (flush vt env w)) = w_buffer (onChanges (fl_raced env) (w\<lparr>w_buffer := Map.empty\<rparr>))"
    "\<exists>n \<le> length ts. (c_KeepEpochs (w_cfg w) \<le> 0 \<longrightarrow> n = 0) \<and>
       archived f (snd (flush vt env w)) (drop n (ts @ [overlay (w_buffer w) (last ts)]))"
proof -
  let ?w = "onChanges (fl_raced env) (w\<lparr>w_buffer := Map.empty\<rparr>)" and ?cs = "values_of (fl_order env) (w_buffer w)"
  let ?art = "\<lparr>a_Kind = KindDiff, a_Epoch = w_epoch w, a_FromPosition = Some (w_fromPos w), a_ToPosition = fl_pos env,
    a_CreatedAt = fl_created env, a_RowCount = 0, a_ChangeCount = int (length ?cs), a_Formats = Map.empty\<rparr>"
  have rb: "f_ReadDiff f b = Inr ?cs" using rd plain(1) by (auto simp: flush_ready_def)
  obtain ref ds where p: "putArtifact vt (c_KeyPrefix (w_cfg w)) ?art (f_Extension f) b (w_dests w) = (Inr ref, ds)"
    "list_all2 (written (ArtifactObjectKey (c_KeyPrefix (w_cfg w)) ?art (f_Extension f)) (BytesObject b)) (w_dests w) ds"
    using putArtifact_writes [of "w_dests w"] ar by (fastforce simp: archived_def dests_ok_def)
  define art where "art = ?art\<lparr>a_Formats := [f_FormatID f \<mapsto> ref]\<rparr>"
  have w: "archived f ?w ts" using ar by (subst archived_cong [of _ w]) simp_all
  have fold: "foldl fold_change (last ts) ?cs = overlay (w_buffer w) (last ts)"
    using fold_buffer [OF ok] rd by (simp add: flush_ready_def)
  have ex: "extends f ?w ts art b (overlay (w_buffer w) (last ts))"
    using rd rb ne(2) fold by (auto simp: extends_def flush_ready_def reads_def art_def)
  have fm: "a_Formats art (f_FormatID f) \<noteq> None" by (simp add: art_def)
  have put: "list_all2 (written (ArtifactObjectKey (c_KeyPrefix (w_cfg ?w)) art (f_Extension f)) (BytesObject b)) (w_dests ?w) ds"
    using p(2) unfolding art_def key_formats by simp
  note c = commit_archives [OF w ex fm put, of "fl_updated env" "fl_columns env"]
  let ?c = "snd (commit vt (fl_updated env) (fl_columns env) art (?w\<lparr>w_dests := ds\<rparr>))"
  have eq: "flush vt env w = (None, emit art (?c\<lparr>w_fromPos := fl_pos env, w_headPos := fl_pos env\<rparr>))"
    using c(1) ar plain p(1) ne(1) by (auto simp: flush_def Let_def archived_def art_def case_prod_beta split: option.split)
  then show "fst (flush vt env w) = None" by simp
  show "w_cfg (snd (flush vt env w)) = w_cfg w" using c(2) by (simp add: eq emit_def committed_def)
  show "w_buffer (snd (flush vt env w)) = w_buffer ?w" using c(3) by (simp add: eq emit_def committed_def)
  have "archived f (snd (flush vt env w)) us = archived f (committed (fl_updated env) (fl_columns env) art ds ?w) us" for us
    by (rule archived_cong) (simp_all add: eq emit_def committed_def art_def commit_frame)
  with c(4) show "\<exists>n \<le> length ts. (c_KeepEpochs (w_cfg w) \<le> 0 \<longrightarrow> n = 0) \<and>
      archived f (snd (flush vt env w)) (drop n (ts @ [overlay (w_buffer w) (last ts)]))"
    by simp
qed

text \<open>When the policy asks for a base, the flush is a base snapshot.\<close>

lemma flush_rebase:
  assumes "archived f w ts" and "w_buffer w \<noteq> Map.empty"
    and "f_WriteDiff f (values_of (fl_order env) (w_buffer w)) = Inr b" and "flush_rebases env b w"
  shows "flush vt env w = snapshot vt (fl_rebase env) (onChanges (fl_raced env) (w\<lparr>w_buffer := Map.empty\<rparr>))"
  using assms by (auto simp: flush_def Let_def archived_def)

section \<open>Reading the archive\<close>

lemma archived_reader:
  assumes ar: "archived f w ts" and d: "d \<in> set (w_dests w)" and ne: "m_Artifacts (w_manifest w) \<noteq> []"
    and r: "r = \<lparr>r_dest = d, r_prefix = c_KeyPrefix (w_cfg w), r_formats = [f]\<rparr>"
  shows "LoadManifest vt r = Inr (w_manifest w)" "linked cmp (m_Artifacts (w_manifest w))"
    "holds vt r (c_KeyFields (w_cfg w)) (m_Artifacts (w_manifest w)) ts"
proof -
  let ?as = "m_Artifacts (w_manifest w)"
  have h: "healthy d" and ch: "chained w" and st: "holds_tables f w ts d"
    using ar d by (auto simp: archived_def dests_ok_def)
  show "LoadManifest vt r = Inr (w_manifest w)"
    using get [OF h, of "ManifestObjectKey (c_KeyPrefix (w_cfg w))"] st ne ch
    by (simp add: LoadManifest_def r holds_tables_def chained_def Let_def)
  show "linked cmp ?as" using ch by (simp add: chained_def Let_def)
  show "holds vt r (c_KeyFields (w_cfg w)) ?as ts"
    unfolding holds_def
  proof (intro conjI allI impI)
    show "length ts = length ?as" using ar by (simp add: archived_def)
    fix i assume i: "i < length ?as"
    then obtain b where b: "a_Formats (?as ! i) (f_FormatID f) \<noteq> None"
      "objects d (ArtifactObjectKey (c_KeyPrefix (w_cfg w)) (?as ! i) (f_Extension f)) = Some (BytesObject b)"
      "reads f (c_KeyFields (w_cfg w)) b (?as ! i) (ts ! (i - 1)) (ts ! i)"
      using st by (auto simp: holds_tables_def stored_def)
    have "formatFor r (?as ! i) = Some f" "artifactBytes vt r (?as ! i) f = Inr (BytesObject b)"
      using b get [OF h] by (simp_all add: formatFor_def artifactBytes_def r)
    then show "if a_Kind (?as ! i) = KindSnapshot
      then \<exists>rs. ReadSnapshot vt r (?as ! i) = Inr rs \<and> load_base (c_KeyFields (w_cfg w)) rs = ts ! i
      else \<exists>cs. ReadDiff vt r (?as ! i) = Inr cs \<and> foldl fold_change (ts ! (i - 1)) cs = ts ! i"
      using b(3) by (simp add: ReadSnapshot_def ReadDiff_def reads_def decode_def)
  qed
qed

end

interpretation local_archive: archive_store "local_vt json sha" ld_files local_healthy "revOf json sha" lsn_Compare for json sha ..

end
