(* ===== verification/Archive_Converges.thy ===== *)
theory Archive_Converges
  imports Archive_Recovery
begin

text \<open>
  Writer and subscription together, from the start of the writer to its end.  \<open>archive_run\<close> lets the
  subscription make any steps before, between and during the base snapshots and flushes.
\<close>

section \<open>A run of the writer over a subscription\<close>

record archive_plan =
  ap_early :: "sub_event list"
  ap_initial :: "sub_event list"
  ap_initialTimes :: snap_times
  ap_events :: "archive_event list"
  ap_final :: "sub_event list \<times> sub_event list \<times> string list \<times> int \<times> snap_times"

definition archive_run ::
    "'d Destination \<Rightarrow> (position \<Rightarrow> string) \<Rightarrow> ((string \<rightharpoonup> row) \<Rightarrow> string list) \<Rightarrow> archive_plan \<Rightarrow> 'd Writer \<Rightarrow> Adapter \<Rightarrow>
     run_env \<times> (sub_pc \<times> Adapter)" where
  "archive_run vt toString order p w a =
     (case sub_run toString (ap_early p) (SubStreaming, sub_OnChange a) of (s, early) \<Rightarrow>
      case sub_run toString (ap_initial p) s of (s, raced) \<Rightarrow>
        let initial = sub_snap_env order (ap_initialTimes p) (snd s) raced;
            w = snd (snapshot vt initial (snd (loadManifest vt (onChanges early w))))
        in case archive_events vt toString order (ap_events p) w s of (evs, s) \<Rightarrow>
             let w = foldl (\<lambda>w ev. writer_step vt ev w) w evs
             in case ap_final p of (es, bs, ks, now, tm) \<Rightarrow>
                case (if w_buffer w = Map.empty then (fst (archive_tick toString order [] [] ks now tm w s), s)
                      else archive_tick toString order es bs ks now tm w s) of (final, s) \<Rightarrow>
                  (\<lparr>ru_start = None, ru_early = early, ru_ready = sub_AwaitReady a, ru_initial = initial,
                    ru_events = evs, ru_final = final\<rparr>, s))"

section \<open>The subscription's table\<close>

definition follows :: "'d Writer \<Rightarrow> sub_pc \<times> Adapter \<Rightarrow> (string \<rightharpoonup> row) \<Rightarrow> bool" where
  "follows w s T \<longleftrightarrow> (let kf = c_KeyFields (w_cfg w) in
     ad_onChange (snd s) \<and> ad_keyFields (snd s) = kf \<and> buffer_ok (w_buffer w) \<and>
     (\<forall>c \<in> set (pending (fst s)). is_row_change c) \<and> keyed (row_key kf) (ad_state (snd s)) \<and> finite (dom (ad_state (snd s))) \<and>
     ad_state (snd s) = put_changes kf (overlay (w_buffer w) T) (pending (fst s)))"

lemma followsI:
  assumes "ad_onChange (snd s)" "ad_keyFields (snd s) = c_KeyFields (w_cfg w)" "buffer_ok (w_buffer w)"
    "\<forall>c \<in> set (pending (fst s)). is_row_change c" "keyed (row_key (c_KeyFields (w_cfg w))) (ad_state (snd s))"
    "finite (dom (ad_state (snd s)))"
    "ad_state (snd s) = put_changes (c_KeyFields (w_cfg w)) (overlay (w_buffer w) T) (pending (fst s))"
  shows "follows w s T"
  unfolding follows_def Let_def by (intro conjI assms)

lemma followsD:
  assumes "follows w s T"
  shows "ad_onChange (snd s)" "ad_keyFields (snd s) = c_KeyFields (w_cfg w)" "buffer_ok (w_buffer w)"
    "\<forall>c \<in> set (pending (fst s)). is_row_change c" "keyed (row_key (c_KeyFields (w_cfg w))) (ad_state (snd s))"
    "finite (dom (ad_state (snd s)))"
    "ad_state (snd s) = put_changes (c_KeyFields (w_cfg w)) (overlay (w_buffer w) T) (pending (fst s))"
  using assms unfolding follows_def Let_def by blast+

lemma follows_cong: "w_cfg w' = w_cfg w \<Longrightarrow> w_buffer w' = w_buffer w \<Longrightarrow> follows w' s T = follows w s T"
  by (simp add: follows_def)

lemma buffer_ok_empty [simp]: "buffer_ok Map.empty"
  by (simp add: buffer_ok_def)

lemma follows_drain: "follows w s T \<Longrightarrow> follows (w\<lparr>w_buffer := Map.empty\<rparr>) s (overlay (w_buffer w) T)"
  by (auto simp: follows_def Let_def)

lemma sub_reportsE:
  assumes "sub_reports s (s', cs)"
  obtains applied where "pending (fst s) @ applied = cs @ pending (fst s')"
    "ad_state (snd s') = put_changes (ad_keyFields (snd s)) (ad_state (snd s)) applied"
    "ad_keyFields (snd s') = ad_keyFields (snd s)" "ad_onChange (snd s') = ad_onChange (snd s)"
    "\<forall>c \<in> set cs. is_row_change c" "\<forall>c \<in> set (pending (fst s')). is_row_change c"
  using assms by (cases s') (auto simp: sub_reports_def)

lemma follows_changes:
  assumes fo: "follows w s T" and re: "sub_reports s (s', cs)"
  shows "follows (onChanges cs w) s' T"
proof -
  let ?kf = "c_KeyFields (w_cfg w)"
  obtain as where as: "pending (fst s) @ as = cs @ pending (fst s')"
    "ad_state (snd s') = put_changes (ad_keyFields (snd s)) (ad_state (snd s)) as"
    "ad_keyFields (snd s') = ad_keyFields (snd s)" "ad_onChange (snd s') = ad_onChange (snd s)"
    "\<forall>c \<in> set cs. is_row_change c" "\<forall>c \<in> set (pending (fst s')). is_row_change c"
    using sub_reportsE [OF re] by metis
  note b = followsD [OF fo]
  have "ad_state (snd s') = put_changes ?kf (overlay (w_buffer w) T) (pending (fst s) @ as)"
    using as(2) b(2,7) by simp
  also have "\<dots> = put_changes ?kf (overlay (w_buffer (onChanges cs w)) T) (pending (fst s'))"
    unfolding as(1) using onChanges_buffer [OF as(5) b(3), of T] by simp
  finally have eq: "ad_state (snd s') = put_changes ?kf (overlay (w_buffer (onChanges cs w)) T) (pending (fst s'))" .
  show ?thesis
  proof (rule followsI, unfold onChanges_frame)
    show "keyed (row_key ?kf) (ad_state (snd s'))" "finite (dom (ad_state (snd s')))"
      using b(5,6) unfolding as(2) b(2) by (simp_all only: keyed_put_changes finite_put_changes)
  qed (use b as eq onChanges_buffer [OF as(5) b(3)] in simp_all)
qed

text \<open>A base snapshot has the table of the subscription; the changes reported meanwhile are in it already.\<close>

lemma follows_base:
  assumes fo: "follows w s T" and re: "sub_reports s (s', cs)"
  shows "follows (onChanges cs (w\<lparr>w_buffer := Map.empty, w_churn := 0\<rparr>)) s' (ad_state (snd s'))"
proof -
  let ?kf = "c_KeyFields (w_cfg w)" and ?w = "w\<lparr>w_buffer := Map.empty, w_churn := 0\<rparr>"
  obtain as where as: "pending (fst s) @ as = cs @ pending (fst s')"
    "ad_state (snd s') = put_changes (ad_keyFields (snd s)) (ad_state (snd s)) as" "\<forall>c \<in> set cs. is_row_change c"
    using sub_reportsE [OF re] by metis
  have whole: "ad_state (snd s') = put_changes ?kf (overlay (w_buffer w) T) (cs @ pending (fst s'))"
    using as(2) followsD(2,7) [OF fo] unfolding as(1) [symmetric] by simp
  have "put_changes ?kf (ad_state (snd s')) (cs @ pending (fst s')) = ad_state (snd s')"
    unfolding whole by (rule put_changes_idem)
  moreover have "overlay (w_buffer (onChanges cs ?w)) (ad_state (snd s')) = put_changes ?kf (ad_state (snd s')) cs"
    "buffer_ok (w_buffer (onChanges cs ?w))"
    using onChanges_buffer [OF as(3), of ?w "ad_state (snd s')"] by simp_all
  ultimately have eq: "ad_state (snd s') = put_changes ?kf (overlay (w_buffer (onChanges cs ?w)) (ad_state (snd s'))) (pending (fst s'))"
    "buffer_ok (w_buffer (onChanges cs ?w))" by simp_all
  have cfg: "w_cfg (onChanges cs ?w) = w_cfg w" by simp
  note fd = followsD [OF follows_changes [OF fo re], unfolded onChanges_frame]
  show ?thesis by (rule followsI, unfold cfg) (fact fd eq)+
qed

section \<open>Steps\<close>

definition archive_event_ok :: "archive_event \<Rightarrow> bool" where
  "archive_event_ok e \<longleftrightarrow> (case e of
     ArSub e \<Rightarrow> sub_event_ok e
   | ArForce es tm \<Rightarrow> list_all sub_event_ok es
   | ArTick es bs ks now tm \<Rightarrow> list_all sub_event_ok es \<and> list_all sub_event_ok bs)"

definition tick_ready :: "(string \<Rightarrow> string \<Rightarrow> int) \<Rightarrow> Format \<Rightarrow> flush_env \<Rightarrow> 'd Writer \<Rightarrow> bool" where
  "tick_ready cmp f env w \<longleftrightarrow> flush_ready cmp f env w \<and>
     (case f_WriteDiff f (values_of (fl_order env) (w_buffer w)) of
        Inl err \<Rightarrow> False
      | Inr b \<Rightarrow> flush_rebases env b w \<longrightarrow> snap_ready cmp f (fl_rebase env) w)"

fun writer_events_ok :: "'d Destination \<Rightarrow> (string \<Rightarrow> string \<Rightarrow> int) \<Rightarrow> Format \<Rightarrow> writer_event list \<Rightarrow> 'd Writer \<Rightarrow> bool" where
  "writer_events_ok vt cmp f [] w = True"
| "writer_events_ok vt cmp f (ev # evs) w =
     ((case ev of
         WChange old new \<Rightarrow> True
       | WForce env \<Rightarrow> snap_ready cmp f env w
       | WTick env \<Rightarrow> tick_ready cmp f env w) \<and> writer_events_ok vt cmp f evs (writer_step vt ev w))"

lemma writer_events_ok_append:
  "writer_events_ok vt cmp f (evs @ fvs) w \<longleftrightarrow>
   writer_events_ok vt cmp f evs w \<and> writer_events_ok vt cmp f fvs (foldl (\<lambda>w ev. writer_step vt ev w) w evs)"
  by (induction evs arbitrary: w) auto

lemma writer_step_changes:
  "foldl (\<lambda>w ev. writer_step vt ev w) w (map (\<lambda>(old, new). WChange old new) cs) = onChanges cs w"
  by (induction cs arbitrary: w) (auto simp: onChanges_def writer_step_def)

definition visits_all :: "((string \<rightharpoonup> row) \<Rightarrow> string list) \<Rightarrow> bool" where
  "visits_all order \<longleftrightarrow> (\<forall>m. finite (dom m) \<longrightarrow> iter_order (order m) m)"

lemma follows_rows:
  assumes "visits_all order" and "follows w s T"
  shows "load_base (c_KeyFields (w_cfg w)) (fst (sub_Snapshot order (snd s))) = ad_state (snd s)"
  using load_base_values followsD(5,6) [OF assms(2)] assms(1) by (simp add: sub_Snapshot_def visits_all_def)

lemma follows_reports:
  assumes "follows w s T" and "list_all sub_event_ok es" and "sub_run toString es s = (s', cs)"
  shows "sub_reports s (s', cs)"
  using sub_run_reports [of es s toString] followsD(1,4) [OF assms(1)] assms(2,3) by (simp add: list_all_iff)

context archive_store
begin

definition tracks :: "Format \<Rightarrow> 'd Writer \<Rightarrow> sub_pc \<times> Adapter \<Rightarrow> (string \<rightharpoonup> row) list \<Rightarrow> bool" where
  "tracks f w s ts \<longleftrightarrow> archived f w ts \<and> ts \<noteq> [] \<and> follows w s (last ts)"

text \<open>\<open>grows\<close> says that tables are added at the end, and dropped at the start only by pruning.\<close>

definition grows :: "'d Writer \<Rightarrow> (string \<rightharpoonup> row) list \<Rightarrow> 'd Writer \<Rightarrow> (string \<rightharpoonup> row) list \<Rightarrow> bool" where
  "grows w ts w' ts' \<longleftrightarrow> w_cfg w' = w_cfg w \<and> (c_KeepEpochs (w_cfg w) \<le> 0 \<longrightarrow> (\<exists>us. ts' = ts @ us))"

lemma base_tracks:
  assumes ar: "archived f w ts" and fo: "follows w s T" and re: "sub_reports s (s', cs)"
    and rd: "snap_ready cmp f env w" and all: "visits_all order"
    and env: "env = sub_snap_env order tm (snd s') cs"
  shows "\<exists>ts'. tracks f (snd (snapshot vt env w)) s' ts' \<and> grows w ts (snd (snapshot vt env w)) ts'"
proof -
  let ?w' = "snd (snapshot vt env w)"
  note sn = snapshot_archives [OF ar rd]
  have "follows ?w' s' (ad_state (snd s'))"
    using follows_base [OF fo re] sn(2,3) by (subst follows_cong) (simp_all add: env sub_snap_env_def)
  moreover have "load_base (c_KeyFields (w_cfg w)) (sn_rows env) = ad_state (snd s')"
    using follows_rows [OF all follows_changes [OF fo re]] by (simp add: env sub_snap_env_def)
  ultimately show ?thesis using sn(2,4) by (fastforce simp: tracks_def grows_def)
qed

lemma tick_tracks:
  assumes tr: "tracks f w s ts" and ok: "list_all sub_event_ok es" "list_all sub_event_ok bs" and all: "visits_all order"
    and ne: "w_buffer w \<noteq> Map.empty" and tk: "archive_tick toString order es bs ks now tm w s = (env, s')" and rd: "tick_ready cmp f env w"
  shows "\<exists>ts'. tracks f (snd (flush vt env w)) s' ts' \<and> grows w ts (snd (flush vt env w)) ts'"
proof -
  have ar: "archived f w ts" and fo: "follows w s (last ts)" and ts: "ts \<noteq> []" using tr by (auto simp: tracks_def)
  have arts: "m_Artifacts (w_manifest w) \<noteq> []" using ar ts by (auto simp: archived_def)
  have f: "hd (c_DiffFormats (w_cfg w)) = f" using ar by (simp add: archived_def)
  obtain s1 cs where r1: "sub_run toString es s = (s1, cs)" by (metis surj_pair)
  let ?env = "\<lambda>rebase. sub_flush_env ks now tm (snd s1) cs rebase"
  have re1: "sub_reports s (s1, cs)" using follows_reports [OF fo ok(1) r1] .
  have ord: "fl_order env = ks"
    using tk r1 by (auto simp: archive_tick_def sub_flush_env_def Let_def split: if_splits prod.splits)
  obtain b where b: "f_WriteDiff f (values_of ks (w_buffer w)) = Inr b" using rd ord by (auto simp: tick_ready_def flush_ready_def)
  have dr: "follows (onChanges cs (w\<lparr>w_buffer := Map.empty\<rparr>)) s1 (overlay (w_buffer w) (last ts))"
    using follows_changes [OF follows_drain [OF fo] re1] .
  show ?thesis
  proof (cases "flush_rebases (?env (sub_snap_env order tm (snd s1) [])) b w")
    case False
    then have env: "env = ?env (sub_snap_env order tm (snd s1) [])" "s' = s1"
      using tk r1 b f by (auto simp: archive_tick_def Let_def)
    have "flush_ready cmp f env w" "fl_raced env = cs" using rd env(1) by (simp_all add: tick_ready_def sub_flush_env_def)
    note fl = flush_archives [OF ar this(1) ne arts followsD(3) [OF fo] b [folded ord] False [folded env(1)]]
    have "follows (snd (flush vt env w)) s' (overlay (w_buffer w) (last ts))"
      using dr fl(2,3) \<open>fl_raced env = cs\<close> env(2) by (subst follows_cong) simp_all
    with fl(2,4) show ?thesis by (fastforce simp: tracks_def grows_def)
  next
    case True
    then obtain ds where r2: "sub_run toString bs s1 = (s', ds)" and env: "env = ?env (sub_snap_env order tm (snd s') ds)"
      using tk r1 b f by (auto simp: archive_tick_def Let_def split: prod.splits)
    let ?w = "onChanges cs (w\<lparr>w_buffer := Map.empty\<rparr>)"
    have rb: "flush_rebases env b w" using True by (simp add: env flush_rebases_def sub_flush_env_def)
    have eq: "flush vt env w = snapshot vt (sub_snap_env order tm (snd s') ds) ?w"
      using flush_rebase [OF ar ne b [folded ord] rb] by (simp add: env sub_flush_env_def)
    have "archived f ?w ts" using ar by (subst archived_cong [of _ w]) simp_all
    moreover have "snap_ready cmp f (sub_snap_env order tm (snd s') ds) ?w"
      using rd rb b ord by (simp add: tick_ready_def env sub_flush_env_def snap_ready_def)
    ultimately show ?thesis
      using base_tracks [OF _ dr follows_reports [OF dr ok(2) r2] _ all HOL.refl, of f ts tm] by (simp add: eq grows_def)
  qed
qed

lemma step_tracks:
  assumes tr: "tracks f w s ts" and ok: "archive_event_ok e" and all: "visits_all order"
    and st: "archive_step toString order e w s = (ws, s')" and rd: "writer_events_ok vt cmp f ws w"
  shows "\<exists>ts'. tracks f (foldl (\<lambda>w ev. writer_step vt ev w) w ws) s' ts' \<and> grows w ts (foldl (\<lambda>w ev. writer_step vt ev w) w ws) ts'"
proof (cases e)
  case (ArSub e)
  then obtain cs where cs: "sub_step toString e s = (s', cs)" "ws = map (\<lambda>(old, new). WChange old new) cs"
    using st by (auto simp: archive_step_def split: prod.splits)
  have fo: "follows w s (last ts)" and ar: "archived f w ts" using tr by (simp_all add: tracks_def)
  have "sub_reports s (s', cs)"
    using sub_step_reports [of e "snd s" "fst s" toString] ok ArSub cs(1) followsD(1,4) [OF fo] by (simp add: archive_event_ok_def)
  then have "follows (onChanges cs w) s' (last ts)" using follows_changes [OF fo] by blast
  moreover have "archived f (onChanges cs w) ts" using ar by (subst archived_cong [of _ w]) simp_all
  ultimately show ?thesis using tr cs(2) by (auto simp: tracks_def grows_def writer_step_changes)
next
  case (ArForce es tm)
  then obtain cs where cs: "sub_run toString es s = (s', cs)" "ws = [WForce (sub_snap_env order tm (snd s') cs)]"
    using st by (auto simp: archive_step_def split: prod.splits)
  have fo: "follows w s (last ts)" and ar: "archived f w ts" using tr by (simp_all add: tracks_def)
  have re: "sub_reports s (s', cs)" using follows_reports [OF fo _ cs(1)] ok ArForce by (simp add: archive_event_ok_def)
  have "snap_ready cmp f (sub_snap_env order tm (snd s') cs) w" using rd cs(2) by simp
  from base_tracks [OF ar fo re this all HOL.refl] show ?thesis by (simp add: cs(2) writer_step_def)
next
  case (ArTick es bs ks now tm)
  show ?thesis
  proof (cases "w_buffer w = Map.empty")
    case True
    then show ?thesis using st ArTick tr by (auto simp: archive_step_def grows_def)
  next
    case False
    then obtain env where env: "archive_tick toString order es bs ks now tm w s = (env, s')" "ws = [WTick env]"
      using st ArTick by (auto simp: archive_step_def split: prod.splits)
    then show ?thesis
      using tick_tracks [OF tr _ _ all False env(1)] ok rd ArTick by (simp add: archive_event_ok_def writer_step_def)
  qed
qed

lemma events_track:
  "tracks f w s ts \<Longrightarrow> list_all archive_event_ok es \<Longrightarrow> visits_all order \<Longrightarrow>
   archive_events vt toString order es w s = (ws, s') \<Longrightarrow> writer_events_ok vt cmp f ws w \<Longrightarrow>
   \<exists>ts'. tracks f (foldl (\<lambda>w ev. writer_step vt ev w) w ws) s' ts' \<and> grows w ts (foldl (\<lambda>w ev. writer_step vt ev w) w ws) ts'"
proof (induction es arbitrary: w s ts ws)
  case Nil
  then show ?case by (auto simp: grows_def)
next
  case (Cons e es)
  obtain vs s1 where st: "archive_step toString order e w s = (vs, s1)" by (metis surj_pair)
  let ?w = "foldl (\<lambda>w ev. writer_step vt ev w) w vs"
  obtain us where us: "archive_events vt toString order es ?w s1 = (us, s')" "ws = vs @ us"
    using Cons.prems(4) st by (auto split: prod.splits)
  have rd: "writer_events_ok vt cmp f vs w" "writer_events_ok vt cmp f us ?w"
    using Cons.prems(5) us(2) by (simp_all add: writer_events_ok_append)
  obtain t1 where t1: "tracks f ?w s1 t1" "grows w ts ?w t1"
    using step_tracks [OF Cons.prems(1) _ Cons.prems(3) st rd(1)] Cons.prems(2) by auto
  from Cons.IH [OF t1(1) _ Cons.prems(3) us(1) rd(2)] Cons.prems(2) show ?case
    using t1(2) us(2) by (auto simp: grows_def)
qed

end

section \<open>Whole runs\<close>

text \<open>What a run needs of its formats and positions.\<close>

definition run_ready :: "'d Destination \<Rightarrow> (string \<Rightarrow> string \<Rightarrow> int) \<Rightarrow> Format \<Rightarrow> run_env \<Rightarrow> 'd Writer \<Rightarrow> bool" where
  "run_ready vt cmp f env w \<longleftrightarrow>
     (let w1 = snd (loadManifest vt (onChanges (ru_early env) w));
          w2 = snd (snapshot vt (ru_initial env) w1);
          w3 = foldl (\<lambda>w ev. writer_step vt ev w) w2 (ru_events env)
      in snap_ready cmp f (ru_initial env) w1 \<and> writer_events_ok vt cmp f (ru_events env) w2 \<and>
         (w_buffer w3 \<noteq> Map.empty \<longrightarrow> tick_ready cmp f (ru_final env) w3))"

definition archive_plan_ok :: "archive_plan \<Rightarrow> bool" where
  "archive_plan_ok p \<longleftrightarrow> list_all sub_event_ok (ap_early p) \<and> list_all sub_event_ok (ap_initial p) \<and>
     list_all archive_event_ok (ap_events p) \<and>
     (case ap_final p of (es, bs, ks, now, tm) \<Rightarrow> list_all sub_event_ok es \<and> list_all sub_event_ok bs)"

lemma keyed_load_base: "keyed (row_key kf) (load_base kf rs)"
  by (simp add: load_base_table_put)

lemma started_follows:
  assumes "NewWriter cfg ds = Inr w" and "sub_Start toString init rs (Inr pos) (sub_New table (c_KeyFields cfg)) = (None, a)"
  shows "follows w (SubStreaming, sub_OnChange a) (ad_state a)" "ad_ready a"
proof -
  have "ad_state a = load_base (ad_keyFields a) rs" "ad_keyFields a = c_KeyFields (w_cfg w)" "w_buffer w = Map.empty" "ad_ready a"
    using assms by (auto simp: NewWriter_def sub_Start_def sub_baseline_def sub_New_def Let_def split: if_splits sum.splits)
  then show "follows w (SubStreaming, sub_OnChange a) (ad_state a)" "ad_ready a"
    by (auto intro!: followsI simp: sub_OnChange_def pending_def keyed_load_base load_base_table_put)
qed

context archive_store
begin

lemma load_loop_fresh:
  "\<forall>d \<in> set ds. healthy d \<and> objects d key = None \<Longrightarrow>
   \<exists>revs. load_loop vt key first ds w = (None, w\<lparr>w_revs := revs\<rparr>) \<and> (\<forall>d \<in> set ds. revs (d_Name vt d) = Some []) \<and>
     (\<forall>n. n \<notin> d_Name vt ` set ds \<longrightarrow> revs n = w_revs w n)"
proof (induction ds arbitrary: w)
  case Nil
  have "load_loop vt key first [] w = (None, w\<lparr>w_revs := w_revs w\<rparr>)" by simp
  then show ?case by (intro exI [of _ "w_revs w"]) simp
next
  case (Cons d ds)
  let ?w = "w\<lparr>w_revs := (w_revs w)(d_Name vt d \<mapsto> [])\<rparr>"
  obtain revs where revs: "load_loop vt key first ds ?w = (None, ?w\<lparr>w_revs := revs\<rparr>)" "\<forall>d \<in> set ds. revs (d_Name vt d) = Some []"
    "\<forall>n. n \<notin> d_Name vt ` set ds \<longrightarrow> revs n = w_revs ?w n"
    using Cons.IH [of ?w] Cons.prems by auto
  have "d_Get vt key d = Inr None" using get [of d key] Cons.prems by simp
  moreover have "revs (d_Name vt d) = Some []"
    using revs(2,3) by (cases "d_Name vt d \<in> d_Name vt ` set ds") auto
  ultimately show ?case using revs by (intro exI [of _ revs]) auto
qed

lemma loadManifest_fresh:
  assumes "\<forall>d \<in> set (w_dests w). healthy d \<and> objects d (ManifestObjectKey (c_KeyPrefix (w_cfg w))) = None"
    and "distinct (map (d_Name vt) (w_dests w))" and "m_Artifacts (w_manifest w) = []"
    and "c_SnapshotFormats (w_cfg w) = [f]" and "c_DiffFormats (w_cfg w) = [f]"
  shows "fst (loadManifest vt w) = None \<and> w_cfg (snd (loadManifest vt w)) = w_cfg w \<and>
    w_buffer (snd (loadManifest vt w)) = w_buffer w \<and> archived f (snd (loadManifest vt w)) []"
proof -
  let ?key = "ManifestObjectKey (c_KeyPrefix (w_cfg w))"
  obtain revs where revs: "loadManifest vt w = (None, w\<lparr>w_revs := revs\<rparr>)" "\<forall>d \<in> set (w_dests w). revs (d_Name vt d) = Some []"
    using load_loop_fresh [OF assms(1)] unfolding loadManifest_def by blast
  then have "revs_known ?key revs (w_dests w)" using assms(1) by (auto simp: revs_known_def current_rev_def)
  then show ?thesis
    using assms revs by (auto simp: archived_def chained_def dests_ok_def holds_tables_def linked_def epochs_ok_def stored_def Let_def)
qed

lemma run_tracks:
  assumes new: "NewWriter cfg ds = Inr w0" and fmt: "c_SnapshotFormats cfg = [f]" "c_DiffFormats cfg = [f]"
    and fresh: "\<forall>d \<in> set ds. healthy d \<and> objects d (ManifestObjectKey (c_KeyPrefix cfg)) = None" "distinct (map (d_Name vt) ds)"
    and start: "sub_Start toString init rs (Inr pos) (sub_New table (c_KeyFields cfg)) = (None, a)"
    and ok: "archive_plan_ok p" and all: "visits_all order"
    and run: "archive_run vt toString order p w0 a = (env, s)" and rd: "run_ready vt cmp f env w0"
  shows "\<exists>w ts. Run vt env w0 = (Some CtxErr, w) \<and> w_cfg w = w_cfg w0 \<and> tracks f w s ts"
proof -
  obtain s1 early where r1: "sub_run toString (ap_early p) (SubStreaming, sub_OnChange a) = (s1, early)" by (metis surj_pair)
  obtain s2 raced where r2: "sub_run toString (ap_initial p) s1 = (s2, raced)" by (metis surj_pair)
  let ?w1 = "snd (loadManifest vt (onChanges early w0))" and ?init = "sub_snap_env order (ap_initialTimes p) (snd s2) raced"
  let ?w2 = "snd (snapshot vt ?init ?w1)"
  obtain evs s3 where r3: "archive_events vt toString order (ap_events p) ?w2 s2 = (evs, s3)" by (metis surj_pair)
  let ?w3 = "foldl (\<lambda>w ev. writer_step vt ev w) ?w2 evs"
  obtain es bs ks now tm where fin: "ap_final p = (es, bs, ks, now, tm)" by (metis surj_pair)
  obtain final where r4: "(if w_buffer ?w3 = Map.empty then (fst (archive_tick toString order [] [] ks now tm ?w3 s3), s3)
      else archive_tick toString order es bs ks now tm ?w3 s3) = (final, s)"
    and env: "env = \<lparr>ru_start = None, ru_early = early, ru_ready = sub_AwaitReady a, ru_initial = ?init, ru_events = evs, ru_final = final\<rparr>"
    using run r1 r2 r3 fin by (auto simp: archive_run_def Let_def split: prod.splits)
  have okp: "list_all sub_event_ok (ap_early p)" "list_all sub_event_ok (ap_initial p)" "list_all archive_event_ok (ap_events p)"
    "list_all sub_event_ok es" "list_all sub_event_ok bs" using ok fin by (simp_all add: archive_plan_ok_def)
  have rd': "snap_ready cmp f ?init ?w1" "writer_events_ok vt cmp f evs ?w2" "w_buffer ?w3 \<noteq> Map.empty \<Longrightarrow> tick_ready cmp f final ?w3"
    using rd by (simp_all add: run_ready_def env Let_def)
  have w0: "w_dests w0 = ds" "c_KeyPrefix (w_cfg w0) = c_KeyPrefix cfg" "m_Artifacts (w_manifest w0) = []"
    "c_SnapshotFormats (w_cfg w0) = [f]" "c_DiffFormats (w_cfg w0) = [f]"
    using new fmt by (auto simp: NewWriter_def Let_def split: if_splits)
  note fo0 = started_follows(1) [OF new start]
  have fo1: "follows (onChanges early w0) s1 (ad_state a)"
    using follows_changes [OF fo0 follows_reports [OF fo0 okp(1) r1]] .
  have ld: "fst (loadManifest vt (onChanges early w0)) = None" "archived f ?w1 []"
    "w_cfg ?w1 = w_cfg (onChanges early w0)" "w_buffer ?w1 = w_buffer (onChanges early w0)"
    using loadManifest_fresh [of "onChanges early w0" f] w0 fresh by simp_all
  have fo2: "follows ?w1 s1 (ad_state a)" using fo1 follows_cong [OF ld(3,4)] by simp
  obtain t2 where t2: "tracks f ?w2 s2 t2" "grows ?w1 [] ?w2 t2" using base_tracks [OF ld(2) fo2 follows_reports [OF fo2 okp(2) r2] rd'(1) all HOL.refl] by blast
  obtain t3 where t3: "tracks f ?w3 s3 t3" "grows ?w2 t2 ?w3 t3" using events_track [OF t2(1) okp(3) all r3 rd'(2)] by blast
  have "\<exists>ts. tracks f (snd (flush vt final ?w3)) s ts \<and> w_cfg (snd (flush vt final ?w3)) = w_cfg ?w3"
  proof (cases "w_buffer ?w3 = Map.empty")
    case True
    then show ?thesis using t3(1) r4 by (auto simp: flush_def)
  next
    case False
    then have "archive_tick toString order es bs ks now tm ?w3 s3 = (final, s)" using r4 by simp
    from tick_tracks [OF t3(1) okp(4,5) all False this rd'(3) [OF False]] show ?thesis by (auto simp: grows_def)
  qed
  moreover have "Run vt env w0 = (Some CtxErr, snd (flush vt final ?w3))"
    using ld(1) snapshot_archives(1) [OF ld(2) rd'(1)] started_follows(2) [OF new start]
    by (auto simp: Run_def env sub_AwaitReady_def case_prod_beta Let_def split: option.split)
  ultimately show ?thesis using t2(2) t3(2) ld(3) by (auto simp: grows_def)
qed

lemma tracked_reconstructs:
  assumes tr: "tracks f w s ts" and d: "d \<in> set (w_dests w)" and q: "cmp (w_headPos w) q \<le> 0"
  shows "ReconstructAsOf vt order \<lparr>r_dest = d, r_prefix = c_KeyPrefix (w_cfg w), r_formats = [f]\<rparr> q (c_KeyFields (w_cfg w)) cmp =
    Some (Inr (Some \<lparr>rc_Rows = values_of (order (last ts)) (last ts), rc_Position = w_headPos w\<rparr>))"
proof -
  let ?as = "m_Artifacts (w_manifest w)"
  have ar: "archived f w ts" and ts: "ts \<noteq> []" using tr by (simp_all add: tracks_def)
  have ne: "?as \<noteq> []" and len: "length ts = length ?as" using ar ts by (auto simp: archived_def)
  note rd = archived_reader [OF ar d ne HOL.refl]
  have head: "w_headPos w = a_ToPosition (last ?as)" using ar ne by (simp add: archived_def chained_def Let_def)
  have "cmp (a_ToPosition a) q \<le> 0" if a: "a \<in> set ?as" for a
  proof -
    obtain i where "i < length ?as" "a = ?as ! i" using a by (auto simp: in_set_conv_nth)
    then show ?thesis using linked_reach [OF rd(2), of i "length ?as - 1" q] q ne head by (simp add: last_conv_nth)
  qed
  then have "takeWhile (\<lambda>a. cmp (a_ToPosition a) q \<le> 0) ?as = ?as" by (simp add: takeWhile_eq_all_conv)
  then have "ends_by cmp q ?as = length ?as" by (simp only: ends_by_def)
  moreover obtain n where n: "length ?as = Suc n" using ne by (cases ?as) auto
  ultimately show ?thesis
    using ReconstructAsOf_exact [OF rd, of order q] head ne len ts by (simp add: last_conv_nth)
qed

end

end
