(* ===== verification/Archive_Properties.thy ===== *)
theory Archive_Properties
  imports Archive_Converges
begin

text \<open>The properties of the snapshot archive, with a small archive on which they are evaluated.\<close>

section \<open>An example\<close>

definition ar_row :: "string \<Rightarrow> row" where
  "ar_row k = [''id'' \<mapsto> VString k]"

definition ar_insert :: Change where
  "ar_insert = \<lparr>ch_Action = ActionInsert, ch_Key = ''b'', ch_Old = None, ch_New = Some (ar_row ''b'')\<rparr>"

definition ar_format :: Format where
  "ar_format = \<lparr>f_FormatID = ''t'', f_Extension = ''.t'', f_WriteSnapshot = (\<lambda>rs. Inr ''s''),
     f_ReadSnapshot = (\<lambda>b. Inr [ar_row ''a'']), f_WriteDiff = (\<lambda>cs. Inr ''d''), f_ReadDiff = (\<lambda>b. Inr [ar_insert])\<rparr>"

definition ar_cfg :: ArchiveConfig where
  "ar_cfg = \<lparr>c_Table = ''public.t'', c_KeyPrefix = ''t/'',
     c_Policy = \<lparr>po_DiffInterval = 1, po_MinInterval = 0, po_MaxInterval = 0, po_MaxDiffBytes = 0, po_MaxDiffFraction = 0,
       po_MaxChurnRecords = 0, po_MaxChurnFraction = 0\<rparr>,
     c_SnapshotFormats = [ar_format], c_DiffFormats = [ar_format], c_Sinks = [], c_KeyFields = [''id''], c_ReadyTimeout = 1, c_KeepEpochs = 0\<rparr>"

definition ar_dest :: LocalDestination where
  "ar_dest = \<lparr>ld_base = ''/d'', ld_files = Map.empty, ld_faults = [], ld_readErr = (\<lambda>key. None)\<rparr>"

definition ar_vt :: "LocalDestination Destination" where
  "ar_vt = local_vt (\<lambda>m. []) (\<lambda>b. b)"

definition ar_toString :: "position \<Rightarrow> string" where
  "ar_toString p = (case p of PosString s \<Rightarrow> s | _ \<Rightarrow> [])"

definition ar_event :: ChangeEvent where
  "ar_event = \<lparr>ev_Table = Table ''public'' ''t'', ev_Action = ActionInsert, ev_Position = PosString ''0/2'', ev_Timestamp = 0,
     ev_CommitTimestamp = None, ev_XID = 0, ev_NewValues = Some (ar_row ''b''), ev_OldValues = None\<rparr>"

text \<open>An iteration order for every finite map, fixed for the maps of the example.\<close>

definition ar_order :: "(string \<rightharpoonup> row) \<Rightarrow> string list" where
  "ar_order m = (if dom m \<subseteq> {''a'', ''b''} then filter (\<lambda>k. m k \<noteq> None) [''a'', ''b''] else (SOME ks. iter_order ks m))"

lemma ar_order_visits: "visits_all ar_order"
proof -
  have "iter_order (ar_order m) m" if fin: "finite (dom m)" for m
  proof (cases "dom m \<subseteq> {''a'', ''b''}")
    case True
    then show ?thesis by (auto simp: ar_order_def iter_order_def)
  next
    case False
    then show ?thesis using someI_ex [OF iter_order_exists [OF fin]] by (simp add: ar_order_def)
  qed
  then show ?thesis by (simp add: visits_all_def)
qed

definition ar_times :: snap_times where
  "ar_times = \<lparr>tm_created = 0, tm_updated = 0, tm_at = 0\<rparr>"

definition ar_adapter :: Adapter where
  "ar_adapter = snd (sub_Start ar_toString (Inr Map.empty) [ar_row ''a''] (Inr (PosString ''0/1'')) (sub_New (Table ''public'' ''t'') [''id'']))"

definition ar_w0 :: "LocalDestination Writer" where
  "ar_w0 = projr (NewWriter ar_cfg [ar_dest])"

definition ar_plan :: archive_plan where
  "ar_plan = \<lparr>ap_early = [], ap_initial = [], ap_initialTimes = ar_times,
     ap_events = [ArSub (SubChange ar_event), ArSub SubNotify, ArTick [] [] [''b''] 5 ar_times], ap_final = ([], [], [], 6, ar_times)\<rparr>"

definition ar_run :: "run_env \<times> (sub_pc \<times> Adapter)" where
  "ar_run = archive_run ar_vt ar_toString ar_order ar_plan ar_w0 ar_adapter"

lemmas ar_data = ar_row_def ar_insert_def ar_format_def ar_cfg_def ar_dest_def ar_vt_def ar_toString_def ar_event_def ar_times_def
  ar_adapter_def ar_w0_def ar_plan_def

section \<open>Properties\<close>

text \<open>C4: The archive follows the source. On local destinations without a manifest, for any interleaving of
  the subscription's steps with the base snapshots and flushes of a run, the run ends with the context's
  error and every destination holds an archive from which \<^verbatim>\<open>ReconstructAsOf\<close> at or after the head returns
  a table that, with the buffered changes and the change in flight applied, is the table of the
  subscription. The positions must advance with every artifact, the format must read back what it
  writes, and the source must send no truncate and no new baseline.\<close>

theorem archive_follows_source:
  assumes "NewWriter cfg ds = Inr w0" and "c_SnapshotFormats cfg = [f]" and "c_DiffFormats cfg = [f]"
    and "\<forall>d \<in> set ds. local_healthy d \<and> ld_files d (ManifestObjectKey (c_KeyPrefix cfg)) = None"
    and "distinct (map local_Name ds)"
    and "sub_Start toString init rs (Inr pos) (sub_New table (c_KeyFields cfg)) = (None, a)"
    and "archive_plan_ok p" and "visits_all order"
    and "archive_run (local_vt json sha) toString order p w0 a = (env, s)"
    and "run_ready (local_vt json sha) lsn_Compare f env w0"
  shows "\<exists>w T. Run (local_vt json sha) env w0 = (Some CtxErr, w) \<and>
    ad_state (snd s) = put_changes (c_KeyFields (w_cfg w0)) (overlay (w_buffer w) T) (pending (fst s)) \<and>
    (\<forall>d \<in> set (w_dests w). \<forall>q. lsn_Compare (w_headPos w) q \<le> 0 \<longrightarrow>
       ReconstructAsOf (local_vt json sha) order \<lparr>r_dest = d, r_prefix = c_KeyPrefix cfg, r_formats = [f]\<rparr> q (c_KeyFields (w_cfg w0)) lsn_Compare =
         Some (Inr (Some \<lparr>rc_Rows = values_of (order T) T, rc_Position = w_headPos w\<rparr>)))"
proof -
  have names: "distinct (map (d_Name (local_vt json sha)) ds)" using assms(5) by (simp add: local_vt_def)
  obtain w ts where w: "Run (local_vt json sha) env w0 = (Some CtxErr, w)" "w_cfg w = w_cfg w0" "local_archive.tracks json sha f w s ts"
    using local_archive.run_tracks [OF assms(1-4) names assms(6-10)] by blast
  have "c_KeyPrefix (w_cfg w0) = c_KeyPrefix cfg" using assms(1) by (auto simp: NewWriter_def Let_def split: if_splits)
  moreover have "follows w s (last ts)" using w(3) by (simp add: local_archive.tracks_def)
  ultimately show ?thesis
    using w local_archive.tracked_reconstructs [OF w(3)] followsD(7) [of w s "last ts"]
    by (intro exI [of _ w] exI [of _ "last ts"]) (auto simp: w(2))
qed

text \<open>C15: Point-in-time reads are exact. When the artifacts of a manifest are linked and each leads to the
  table at its boundary, \<^verbatim>\<open>ReconstructAsOf\<close> returns the table at the last boundary at or before the requested
  position, or nothing if the archive starts later.\<close>

theorem reconstruct_as_of:
  assumes "boundary_order cmp" and "LoadManifest vt r = Inr m" and "linked cmp (m_Artifacts m)"
    and "holds vt r keyFields (m_Artifacts m) ts"
  shows "ReconstructAsOf vt order r p keyFields cmp = Some (Inr (case ends_by cmp p (m_Artifacts m) of
      0 \<Rightarrow> None
    | Suc k \<Rightarrow> Some \<lparr>rc_Rows = values_of (order (ts ! k)) (ts ! k), rc_Position = a_ToPosition (m_Artifacts m ! k)\<rparr>))"
  using boundary_order.ReconstructAsOf_exact [OF assms] .

text \<open>C16: Every plan ends at the head. For a linked archive whose base snapshots open new epochs, \<^verbatim>\<open>Plan\<close>
  from any position returns, and its chain leads to the newest table: from the table at the requested
  position if the plan has only diffs, and from nothing if it starts with a base snapshot.\<close>

theorem plan_to_head:
  assumes "boundary_order cmp" and "linked cmp (m_Artifacts m)" and "epochs_increase (m_Artifacts m)" and "m_Artifacts m \<noteq> []"
    and "\<forall>a \<in> set (m_Artifacts m). a_ToPosition a \<noteq> []" and "holds vt r keyFields (m_Artifacts m) ts"
    and "m_HeadPosition m = a_ToPosition (last (m_Artifacts m))"
  shows "\<exists>plan. Plan m q cmp = Some (Some plan) \<and> rp_HeadPosition plan = m_HeadPosition m \<and>
    (if rp_Snapshot plan = None
     then \<exists>j < length ts. q = a_ToPosition (m_Artifacts m ! j) \<and> fold_diffs vt r (rp_Diffs plan) (ts ! j) = Inr (last ts)
     else reconstruct_state vt r keyFields plan = Inr (last ts))"
  using boundary_order.Plan_ends_at_head [OF assms] .

lemma diff_formats_keeps:
  "diff_formats vt prefix cs primary i fs art ds = (Inr art', ds') \<Longrightarrow>
   a_Kind art' = a_Kind art \<and> a_FromPosition art' = a_FromPosition art \<and> a_ToPosition art' = a_ToPosition art"
  by (induction fs arbitrary: art ds i) (fastforce split: sum.splits prod.splits)+

lemma commit_manifest: "w_manifest (snd (commit vt now cols art w)) = next_manifest now cols art w"
  by (simp add: commit_def Let_def split: prod.split)

lemma flush_appends:
  assumes "flush vt env w = (None, w')" and "w_buffer w \<noteq> Map.empty"
    and "f_WriteDiff (hd (c_DiffFormats (w_cfg w))) (values_of (fl_order env) (w_buffer w)) = Inr b"
    and "\<not> flush_rebases env b w" and "c_KeepEpochs (w_cfg w) \<le> 0"
  shows "\<exists>art. m_Artifacts (w_manifest w') = m_Artifacts (w_manifest w) @ [art] \<and> a_Kind art = KindDiff \<and>
    a_FromPosition art = Some (w_fromPos w) \<and> a_ToPosition art = fl_pos env"
proof -
  let ?w = "onChanges (fl_raced env) (w\<lparr>w_buffer := Map.empty\<rparr>)" and ?cs = "values_of (fl_order env) (w_buffer w)"
  let ?art = "\<lparr>a_Kind = KindDiff, a_Epoch = w_epoch w, a_FromPosition = Some (w_fromPos w), a_ToPosition = fl_pos env,
    a_CreatedAt = fl_created env, a_RowCount = 0, a_ChangeCount = int (length ?cs), a_Formats = Map.empty\<rparr>"
  obtain art ds where d: "diff_formats vt (c_KeyPrefix (w_cfg w)) ?cs b 0 (c_DiffFormats (w_cfg w)) ?art (w_dests w) = (Inr art, ds)"
    and c: "commit vt (fl_updated env) (fl_columns env) art (?w\<lparr>w_dests := ds\<rparr>) = (None, snd (commit vt (fl_updated env) (fl_columns env) art (?w\<lparr>w_dests := ds\<rparr>)))"
    and w': "w_manifest w' = w_manifest (snd (commit vt (fl_updated env) (fl_columns env) art (?w\<lparr>w_dests := ds\<rparr>)))"
    using assms(1-4) by (auto simp: flush_def Let_def emit_def split: sum.splits prod.splits option.splits)
  have "m_Artifacts (w_manifest w') = m_Artifacts (w_manifest w) @ [art]"
    using assms(5) by (auto simp: w' commit_manifest next_manifest_def prune_def Let_def split: option.splits)
  then show ?thesis using diff_formats_keeps [OF d] by auto
qed

text \<open>C17: A diff that does not advance makes planning diverge. If the subscription's position has not moved
  since the last artifact, which happens when the buffered changes arrived while that artifact was
  written, a flush writes a diff from a position to itself, and \<^verbatim>\<open>Plan\<close> from that position never returns.\<close>

theorem plan_diverges:
  assumes "flush vt env w = (None, w')" and "w_buffer w \<noteq> Map.empty" and "fl_pos env = w_fromPos w"
    and "f_WriteDiff (hd (c_DiffFormats (w_cfg w))) (values_of (fl_order env) (w_buffer w)) = Inr b"
    and "\<not> flush_rebases env b w" and "c_KeepEpochs (w_cfg w) \<le> 0"
  shows "Plan (w_manifest w') (w_fromPos w) cmp = None"
proof -
  obtain art where art: "m_Artifacts (w_manifest w') = m_Artifacts (w_manifest w) @ [art]" "a_Kind art = KindDiff"
    "a_FromPosition art = Some (w_fromPos w)" "a_ToPosition art = w_fromPos w"
    using flush_appends [OF assms(1,2,4-6)] assms(3) by auto
  then have "by_from (filter is_diff (m_Artifacts (w_manifest w'))) (w_fromPos w) = Some art"
    by (simp add: is_diff_def by_from_append)
  then have "chain_loop (by_from (filter is_diff (m_Artifacts (w_manifest w')))) (w_fromPos w) = None"
    using art(4) by (intro chain_loop_cycle) auto
  then show ?thesis
    using art(1) by (simp add: Plan_def contiguousDiffChain_def Let_def)
qed


section \<open>Witnesses\<close>

lemma ar_started:
  "NewWriter ar_cfg [ar_dest] = Inr ar_w0"
  "sub_Start ar_toString (Inr Map.empty) [ar_row ''a''] (Inr (PosString ''0/1'')) (sub_New (Table ''public'' ''t'') (c_KeyFields ar_cfg)) = (None, ar_adapter)"
  by (simp_all add: ar_w0_def ar_adapter_def NewWriter_def ar_cfg_def ar_dest_def sub_Start_def sub_New_def sub_baseline_def Let_def)

lemma ar_plan_fine: "archive_plan_ok ar_plan"
  by (simp add: archive_plan_ok_def ar_plan_def sub_event_ok_def archive_event_ok_def event_ok_def ar_event_def)

lemma ar_compare [simp]: "lsn_Compare ''0/1'' ''0/2'' = - 1" "lsn_Compare ''0/2'' ''0/1'' = 1"
  by (simp_all add: lsn_Compare_def lsn_Parse_def Cut_def ParseUint_def digit_value_def)

lemma ar_w0_eq: "ar_w0 = \<lparr>w_cfg = ar_cfg, w_buffer = Map.empty, w_churn = 0, w_epoch = 0, w_fromPos = [], w_lastSnapshotAt = 0,
    w_lastSnapshotBytes = 0, w_headPos = [],
    w_manifest = \<lparr>m_ManifestVersion = ManifestVersion, m_Table = ''public.t'', m_Epoch = 0, m_UpdatedAt = 0,
      m_HeadPosition = [], m_Artifacts = [], m_Columns = []\<rparr>,
    w_revs = Map.empty, w_dests = [ar_dest], w_published = []\<rparr>"
  by (simp add: ar_w0_def NewWriter_def ar_cfg_def Let_def)

lemma ar_adapter_eq: "ar_adapter = \<lparr>ad_table = Table ''public'' ''t'', ad_keyFields = [''id''], ad_state = [''a'' \<mapsto> ar_row ''a''],
    ad_columns = [], ad_position = ''0/1'', ad_onChange = False, ad_ready = True, ad_started = True,
    ad_cancelled = False, ad_stopped = False, ad_srcClosed = False\<rparr>"
  by (simp add: ar_adapter_def sub_Start_def sub_New_def sub_baseline_def load_base_def ar_toString_def RowKey_def row_get_def ar_row_def Let_def)

lemma ar_Itoa [simp]: "Itoa 1 = ''1''"
proof -
  have "char_of (49::nat) = CHR ''1''" by code_simp
  then show ?thesis by (simp add: Itoa_def dec_digits_def digits_of.simps hex_upper_def)
qed

lemmas ar_store = local_vt_def local_Put_def local_Get_def local_PutCAS_def local_Name_def revOf_def object_text_def ar_vt_def
lemmas ar_keys = ArtifactObjectKey_def ManifestObjectKey_def sanitizePosition_def RowKey_def row_get_def nilrow_def

definition ar_w1 :: "LocalDestination Writer" where
  "ar_w1 = ar_w0\<lparr>w_revs := [''local:/d'' \<mapsto> []]\<rparr>"

lemma ar_load: "loadManifest ar_vt ar_w0 = (None, ar_w1)"
  by (simp add: loadManifest_def ar_w1_def ar_w0_eq ar_dest_def ar_store)

definition ar_snap :: snap_env where
  "ar_snap = \<lparr>sn_raced = [], sn_rows = [ar_row ''a''], sn_pos = ''0/1'', sn_created = 0, sn_updated = 0, sn_at = 0, sn_columns = Some []\<rparr>"

definition ar_base :: Artifact where
  "ar_base = \<lparr>a_Kind = KindSnapshot, a_Epoch = 1, a_FromPosition = None, a_ToPosition = ''0/1'', a_CreatedAt = 0, a_RowCount = 1,
     a_ChangeCount = 0, a_Formats = [''t'' \<mapsto> \<lparr>fr_URI = ''file:///d/t/epoch=1/snapshot-0_1.t'', fr_SizeBytes = 1\<rparr>]\<rparr>"

definition ar_manifest :: "Artifact list \<Rightarrow> string \<Rightarrow> Manifest" where
  "ar_manifest as pos = \<lparr>m_ManifestVersion = 1, m_Table = ''public.t'', m_Epoch = 1, m_UpdatedAt = 0, m_HeadPosition = pos,
     m_Artifacts = as, m_Columns = []\<rparr>"

definition ar_w2 :: "LocalDestination Writer" where
  "ar_w2 = ar_w1\<lparr>w_epoch := 1, w_fromPos := ''0/1'', w_headPos := ''0/1'', w_lastSnapshotAt := 0, w_lastSnapshotBytes := 1,
     w_manifest := ar_manifest [ar_base] ''0/1'',
     w_dests := [ar_dest\<lparr>ld_files := [''t/epoch=1/snapshot-0_1.t'' \<mapsto> BytesObject ''s'', ''t/manifest.json'' \<mapsto> ManifestObject (ar_manifest [ar_base] ''0/1'')]\<rparr>]\<rparr>"

lemma ar_snapshot: "snapshot ar_vt ar_snap ar_w1 = (None, ar_w2)"
  by (simp add: snapshot_def ar_snap_def ar_w1_def ar_w0_eq ar_w2_def ar_cfg_def ar_format_def putArtifact_def ar_store ar_keys
      ar_dest_def ar_base_def ar_manifest_def commit_def next_manifest_def prune_def emit_def onChanges_def ManifestVersion_def Let_def)

definition ar_w3 :: "LocalDestination Writer" where
  "ar_w3 = ar_w2\<lparr>w_buffer := [''b'' \<mapsto> ar_insert], w_churn := 1\<rparr>"

lemma ar_change: "onChange None (Some (ar_row ''b'')) ar_w2 = ar_w3"
  by (simp add: onChange_def ar_w3_def ar_w2_def ar_w1_def ar_w0_eq keyOf_def ar_keys ar_cfg_def ar_row_def ar_insert_def Let_def)

definition ar_flush :: flush_env where
  "ar_flush = \<lparr>fl_order = [''b''], fl_now = 5, fl_raced = [], fl_pos = ''0/2'', fl_count = 2, fl_created = 0, fl_updated = 0,
     fl_columns = Some [], fl_rebase = \<lparr>sn_raced = [], sn_rows = [ar_row ''a'', ar_row ''b''], sn_pos = ''0/2'', sn_created = 0,
       sn_updated = 0, sn_at = 0, sn_columns = Some []\<rparr>\<rparr>"

lemma ar_rebases: "\<not> flush_rebases env b ar_w3"
  by (simp add: flush_rebases_def shouldSnapshot_def ar_w3_def ar_w2_def ar_w1_def ar_w0_eq ar_cfg_def)

lemma ar_drained: "w_buffer (snd (flush ar_vt ar_flush ar_w3)) = Map.empty" "fst (flush ar_vt ar_flush ar_w3) = None"
  by (simp_all add: flush_def ar_rebases Let_def)
    (simp_all add: ar_flush_def ar_w3_def ar_w2_def ar_w1_def ar_w0_eq ar_cfg_def ar_format_def putArtifact_def ar_store ar_keys
      ar_dest_def ar_base_def ar_manifest_def commit_def next_manifest_def prune_def emit_def onChanges_def ManifestVersion_def Let_def)

definition ar_adapter2 :: Adapter where
  "ar_adapter2 = ar_adapter\<lparr>ad_onChange := True, ad_state := [''a'' \<mapsto> ar_row ''a'', ''b'' \<mapsto> ar_row ''b''], ad_position := ''0/2''\<rparr>"

lemma ar_sub_initial: "sub_snap_env ar_order ar_times (sub_OnChange ar_adapter) [] = ar_snap"
  by (simp add: sub_snap_env_def sub_Snapshot_def sub_Columns_def sub_OnChange_def ar_adapter_eq ar_order_def ar_times_def ar_snap_def)

lemma ar_sub_steps:
  "sub_step ar_toString (SubChange ar_event) (SubStreaming, sub_OnChange ar_adapter) = ((SubNotifying None (Some (ar_row ''b'')), ar_adapter2), [])"
  "sub_step ar_toString SubNotify (SubNotifying None (Some (ar_row ''b'')), ar_adapter2) = ((SubStreaming, ar_adapter2), [(None, Some (ar_row ''b''))])"
  by (simp_all add: sub_step_def sub_callback_def sub_apply_def ar_event_def ar_adapter_eq ar_adapter2_def sub_OnChange_def ar_toString_def
      ar_keys ar_row_def Let_def)

lemma ar_order_two: "ar_order [''a'' \<mapsto> x, ''b'' \<mapsto> y] = [''a'', ''b'']"
  by (auto simp: ar_order_def)

lemma ar_tick: "archive_tick ar_toString ar_order [] [] [''b''] 5 ar_times ar_w3 (SubStreaming, ar_adapter2) = (ar_flush, SubStreaming, ar_adapter2)"
  by (auto simp: archive_tick_def ar_rebases Let_def sub_flush_env_def sub_snap_env_def sub_Snapshot_def sub_Columns_def sub_Count_def
      sub_CurrentPosition_def ar_adapter2_def ar_adapter_eq ar_times_def ar_flush_def ar_order_two split: sum.split)

lemma ar_run_eq:
  "ar_run = (\<lparr>ru_start = None, ru_early = [], ru_ready = True, ru_initial = ar_snap,
     ru_events = [WChange None (Some (ar_row ''b'')), WTick ar_flush],
     ru_final = fst (archive_tick ar_toString ar_order [] [] [] 6 ar_times (snd (flush ar_vt ar_flush ar_w3)) (SubStreaming, ar_adapter2))\<rparr>,
     SubStreaming, ar_adapter2)"
proof -
  have buf: "w_buffer ar_w3 \<noteq> Map.empty" by (simp add: ar_w3_def)
  have early: "onChanges [] ar_w0 = ar_w0" "ad_ready ar_adapter" by (simp_all add: onChanges_def ar_adapter_eq)
  show ?thesis
    by (simp add: ar_run_def archive_run_def ar_plan_def early ar_load ar_sub_initial ar_snapshot archive_step_def ar_sub_steps writer_step_def
        ar_change buf ar_tick ar_drained sub_AwaitReady_def Let_def)
qed

lemma ar_run_ready: "run_ready ar_vt lsn_Compare ar_format (fst ar_run) ar_w0"
proof -
  have "onChanges [] ar_w0 = ar_w0" by (simp add: onChanges_def)
  moreover have "snap_ready lsn_Compare ar_format ar_snap ar_w1"
    by (simp add: snap_ready_def ar_format_def ar_snap_def clean_def ar_w1_def ar_w0_eq)
  moreover have "tick_ready lsn_Compare ar_format ar_flush ar_w3"
    by (simp add: tick_ready_def flush_ready_def ar_format_def ar_flush_def clean_def ar_rebases iter_order_def)
      (simp add: ar_w3_def ar_w2_def)
  ultimately show ?thesis
    by (simp add: run_ready_def ar_run_eq ar_load ar_snapshot writer_step_def ar_change ar_drained Let_def)
qed

theorem archive_follows_source_witness:
  "\<exists>w T. Run ar_vt (fst ar_run) ar_w0 = (Some CtxErr, w) \<and>
    ad_state (snd (snd ar_run)) = put_changes [''id''] (overlay (w_buffer w) T) (pending (fst (snd ar_run))) \<and>
    (\<forall>d \<in> set (w_dests w). \<forall>q. lsn_Compare (w_headPos w) q \<le> 0 \<longrightarrow>
       ReconstructAsOf ar_vt ar_order \<lparr>r_dest = d, r_prefix = ''t/'', r_formats = [ar_format]\<rparr> q [''id''] lsn_Compare =
         Some (Inr (Some \<lparr>rc_Rows = values_of (ar_order T) T, rc_Position = w_headPos w\<rparr>)))"
proof -
  have "archive_run ar_vt ar_toString ar_order ar_plan ar_w0 ar_adapter = (fst ar_run, snd ar_run)" by (simp add: ar_run_def)
  note archive_follows_source [OF ar_started(1) _ _ _ _ ar_started(2) ar_plan_fine ar_order_visits this [unfolded ar_vt_def]
      ar_run_ready [unfolded ar_vt_def], folded ar_vt_def]
  then show ?thesis by (simp add: ar_cfg_def ar_dest_def local_healthy_def ar_w0_eq)
qed

text \<open>The archive of the example read back.\<close>

definition ar_diff :: Artifact where
  "ar_diff = \<lparr>a_Kind = KindDiff, a_Epoch = 1, a_FromPosition = Some ''0/1'', a_ToPosition = ''0/2'', a_CreatedAt = 0, a_RowCount = 0,
     a_ChangeCount = 1, a_Formats = [''t'' \<mapsto> \<lparr>fr_URI = ''file:///d/t/epoch=1/diff-0_1-0_2.t'', fr_SizeBytes = 1\<rparr>]\<rparr>"

definition ar_reader :: "LocalDestination Reader" where
  "ar_reader = \<lparr>r_dest = ar_dest\<lparr>ld_files := [''t/epoch=1/snapshot-0_1.t'' \<mapsto> BytesObject ''s'',
       ''t/epoch=1/diff-0_1-0_2.t'' \<mapsto> BytesObject ''d'', ''t/manifest.json'' \<mapsto> ManifestObject (ar_manifest [ar_base, ar_diff] ''0/2'')]\<rparr>,
     r_prefix = ''t/'', r_formats = [ar_format]\<rparr>"

definition ar_tables :: "(string \<rightharpoonup> row) list" where
  "ar_tables = [[''a'' \<mapsto> ar_row ''a''], [''a'' \<mapsto> ar_row ''a'', ''b'' \<mapsto> ar_row ''b'']]"

lemma ar_read:
  "LoadManifest ar_vt ar_reader = Inr (ar_manifest [ar_base, ar_diff] ''0/2'')"
  "linked lsn_Compare [ar_base, ar_diff]" "holds ar_vt ar_reader [''id''] [ar_base, ar_diff] ar_tables" "epochs_increase [ar_base, ar_diff]"
proof -
  show "LoadManifest ar_vt ar_reader = Inr (ar_manifest [ar_base, ar_diff] ''0/2'')"
    by (simp add: LoadManifest_def ar_reader_def ar_store ar_dest_def ManifestObjectKey_def ar_manifest_def ManifestVersion_def)
  show "linked lsn_Compare [ar_base, ar_diff]"
    by (simp add: linked_def before_def ar_base_def ar_diff_def less_Suc_eq_0_disj nth_Cons split: nat.split)
  show "holds ar_vt ar_reader [''id''] [ar_base, ar_diff] ar_tables"
    by (simp add: holds_def less_Suc_eq_0_disj ar_tables_def ReadSnapshot_def ReadDiff_def formatFor_def artifactBytes_def ar_reader_def ar_store
        ar_dest_def ar_base_def ar_diff_def ar_format_def ar_keys decode_def load_base_def fold_change_def ar_insert_def ar_row_def nth_Cons Let_def
        split: nat.split)
  show "epochs_increase [ar_base, ar_diff]"
    by (simp add: epochs_increase_def less_Suc_eq_0_disj ar_base_def ar_diff_def nth_Cons split: nat.split)
qed

lemma ar_arts: "m_Artifacts (ar_manifest as q) = as" "m_HeadPosition (ar_manifest as q) = q"
  by (simp_all add: ar_manifest_def)

theorem reconstruct_as_of_witness:
  "ReconstructAsOf ar_vt ar_order ar_reader ''0/1'' [''id''] lsn_Compare =
     Some (Inr (Some \<lparr>rc_Rows = [ar_row ''a''], rc_Position = ''0/1''\<rparr>))"
proof -
  have "ends_by lsn_Compare ''0/1'' [ar_base, ar_diff] = Suc 0"
    by (simp add: ends_by_def ar_base_def ar_diff_def lsn_Compare_refl)
  moreover have "ar_order [''a'' \<mapsto> ar_row ''a''] = [''a'']" by (simp add: ar_order_def)
  moreover have "ar_tables ! 0 = [''a'' \<mapsto> ar_row ''a'']" "a_ToPosition ar_base = ''0/1''" by (simp_all add: ar_tables_def ar_base_def)
  ultimately show ?thesis
    using reconstruct_as_of [OF lsn.boundary_order_axioms ar_read(1), unfolded ar_arts, OF ar_read(2,3), of ar_order "''0/1''"] by simp
qed

theorem plan_to_head_witness:
  "\<exists>plan. Plan (ar_manifest [ar_base, ar_diff] ''0/2'') [] lsn_Compare = Some (Some plan) \<and> rp_HeadPosition plan = ''0/2'' \<and>
    (if rp_Snapshot plan = None
     then \<exists>j < length ar_tables. [] = a_ToPosition ([ar_base, ar_diff] ! j) \<and> fold_diffs ar_vt ar_reader (rp_Diffs plan) (ar_tables ! j) = Inr (last ar_tables)
     else reconstruct_state ar_vt ar_reader [''id''] plan = Inr (last ar_tables))"
proof -
  have "\<forall>a \<in> set [ar_base, ar_diff]. a_ToPosition a \<noteq> []" "''0/2'' = a_ToPosition (last [ar_base, ar_diff])" "[ar_base, ar_diff] \<noteq> []"
    by (simp_all add: ar_base_def ar_diff_def)
  from plan_to_head [OF lsn.boundary_order_axioms, of "ar_manifest [ar_base, ar_diff] ''0/2''", unfolded ar_arts, OF ar_read(2,4) this(3,1) ar_read(3) this(2)]
  show ?thesis .
qed

theorem plan_diverges_witness:
  "let env = ar_flush\<lparr>fl_pos := ''0/1''\<rparr> in fst (flush ar_vt env ar_w3) = None \<and>
     Plan (w_manifest (snd (flush ar_vt env ar_w3))) ''0/1'' lsn_Compare = None"
proof -
  let ?env = "ar_flush\<lparr>fl_pos := ''0/1''\<rparr>"
  have "fst (flush ar_vt ?env ar_w3) = None"
    by (simp add: flush_def ar_rebases Let_def)
      (simp add: ar_flush_def ar_w3_def ar_w2_def ar_w1_def ar_w0_eq ar_cfg_def ar_format_def putArtifact_def ar_store ar_keys
        ar_dest_def ar_base_def ar_manifest_def commit_def next_manifest_def prune_def emit_def onChanges_def ManifestVersion_def Let_def)
  moreover from this have "flush ar_vt ?env ar_w3 = (None, snd (flush ar_vt ?env ar_w3))" by (metis prod.collapse)
  from plan_diverges [OF this, of "''d''" lsn_Compare] ar_rebases [of ?env "''d''"] have
    "Plan (w_manifest (snd (flush ar_vt ?env ar_w3))) ''0/1'' lsn_Compare = None"
    by (simp add: ar_flush_def ar_w3_def ar_w2_def ar_w1_def ar_w0_eq ar_cfg_def ar_format_def)
  ultimately show ?thesis by (simp add: Let_def)
qed


end
