(* ===== verification/Subscription_Filter.thy ===== *)
theory Subscription_Filter
  imports Archive_Types Fanout_Journal
begin

text \<open>
  The filter a subscriber sends with its request (\<^verbatim>\<open>service/replication/subscription_filter.go\<close>).
  Predicate values of the wire stand for what \<^verbatim>\<open>AsInterface\<close> returns.  Numbers are compared as \<^verbatim>\<open>float64\<close>,
  so \<open>normalize\<close> maps them to their exact rational value; \<open>num\<close> gives that value for the numeric types
  that have no constructor of their own.  Comparing two slices or two maps panics, which is \<open>None\<close>.
\<close>

section \<open>Normalized values\<close>

datatype normal = NFloat rat | NNaN | NInf bool | NOther "value"

text \<open>The rational number of a printed \<^verbatim>\<open>float64\<close>, rounded back to 53 bits.\<close>

definition gofloat_rat :: "bool \<Rightarrow> nat list \<Rightarrow> int \<Rightarrow> rat" where
  "gofloat_rat neg ds dp =
     (let n = of_nat (foldl (\<lambda>a d. a * 10 + d) 0 ds) :: rat;
          e = dp - int (length ds);
          x = (if 0 \<le> e then n * 10 ^ nat e else n / 10 ^ nat (- e))
      in round64 (if neg then - x else x))"

fun normalize :: "(string \<Rightarrow> string \<Rightarrow> rat option) \<Rightarrow> value \<Rightarrow> normal" where
  "normalize num (VInt i) = NFloat (float64_of_int i)"
| "normalize num (VInt64 i) = NFloat (float64_of_int i)"
| "normalize num (VFloat64 FNaN) = NNaN"
| "normalize num (VFloat64 (FInf neg)) = NInf neg"
| "normalize num (VFloat64 (FFin neg ds dp)) = NFloat (gofloat_rat neg ds dp)"
| "normalize num (VOther t s) = (case num t s of None \<Rightarrow> NOther (VOther t s) | Some x \<Rightarrow> NFloat x)"
| "normalize num v = NOther v"

fun normal_eq :: "normal \<Rightarrow> normal \<Rightarrow> bool option" where
  "normal_eq (NFloat a) (NFloat b) = Some (a = b)"
| "normal_eq (NInf a) (NInf b) = Some (a = b)"
| "normal_eq (NOther v) (NOther w) = any_eq v w"
| "normal_eq _ _ = Some False"

section \<open>Predicates\<close>

datatype match_cond = MatchEquals "value" | MatchPrefix string | MatchIn "value list"

record FieldPredicate =
  fp_Field :: string
  fp_Match :: "match_cond option"

datatype predKind = predEquals | predPrefix | predIn

record compiledPredicate =
  cp_field :: string
  cp_kind :: predKind
  cp_equals :: normal
  cp_prefix :: string
  cp_in :: "normal list"

type_synonym subscriptionFilter = "compiledPredicate list option"

text \<open>The second error also quotes the field, which is left out.\<close>

definition compile_predicate :: "(string \<Rightarrow> string \<Rightarrow> rat option) \<Rightarrow> nat \<Rightarrow> FieldPredicate \<Rightarrow> goerror + compiledPredicate" where
  "compile_predicate num i p =
     (let cp = \<lparr>cp_field = fp_Field p, cp_kind = predEquals, cp_equals = NOther VNil, cp_prefix = [], cp_in = []\<rparr> in
      if fp_Field p = [] then Inl (Err (''filter['' @ Itoa (int i) @ '']: field is required''))
      else case fp_Match p of
             Some (MatchEquals v) \<Rightarrow> Inr (cp\<lparr>cp_kind := predEquals, cp_equals := normalize num v\<rparr>)
           | Some (MatchPrefix s) \<Rightarrow> Inr (cp\<lparr>cp_kind := predPrefix, cp_prefix := s\<rparr>)
           | Some (MatchIn vs) \<Rightarrow> Inr (cp\<lparr>cp_kind := predIn, cp_in := map (normalize num) vs\<rparr>)
           | None \<Rightarrow> Inl (Err (''filter['' @ Itoa (int i) @ '']: a match condition (equals, prefix, or in) is required'')))"

fun compile_loop :: "(string \<Rightarrow> string \<Rightarrow> rat option) \<Rightarrow> nat \<Rightarrow> FieldPredicate list \<Rightarrow> goerror + compiledPredicate list" where
  "compile_loop num i [] = Inr []"
| "compile_loop num i (p # ps) =
     (case compile_predicate num i p of
        Inl err \<Rightarrow> Inl err
      | Inr cp \<Rightarrow> (case compile_loop num (i + 1) ps of Inl err \<Rightarrow> Inl err | Inr cps \<Rightarrow> Inr (cp # cps)))"

definition compileSubscriptionFilter :: "(string \<Rightarrow> string \<Rightarrow> rat option) \<Rightarrow> FieldPredicate list \<Rightarrow> goerror + subscriptionFilter" where
  "compileSubscriptionFilter num preds =
     (if preds = [] then Inr None
      else case compile_loop num 0 preds of Inl err \<Rightarrow> Inl err | Inr cps \<Rightarrow> Inr (Some cps))"

section \<open>Matching\<close>

fun in_loop :: "normal \<Rightarrow> normal list \<Rightarrow> bool option" where
  "in_loop nv [] = Some False"
| "in_loop nv (want # ws) =
     (case normal_eq nv want of None \<Rightarrow> None | Some True \<Rightarrow> Some True | Some False \<Rightarrow> in_loop nv ws)"

definition pred_match :: "(string \<Rightarrow> string \<Rightarrow> rat option) \<Rightarrow> compiledPredicate \<Rightarrow> row \<Rightarrow> bool option" where
  "pred_match num p r =
     (case r (cp_field p) of
        None \<Rightarrow> Some False
      | Some VNil \<Rightarrow> Some False
      | Some v \<Rightarrow>
          (case cp_kind p of
             predEquals \<Rightarrow> normal_eq (normalize num v) (cp_equals p)
           | predPrefix \<Rightarrow> (case v of VString s \<Rightarrow> Some (take (length (cp_prefix p)) s = cp_prefix p) | _ \<Rightarrow> Some False)
           | predIn \<Rightarrow> in_loop (normalize num v) (cp_in p)))"

fun match_loop :: "(string \<Rightarrow> string \<Rightarrow> rat option) \<Rightarrow> compiledPredicate list \<Rightarrow> row \<Rightarrow> bool option" where
  "match_loop num [] r = Some True"
| "match_loop num (p # ps) r =
     (case pred_match num p r of None \<Rightarrow> None | Some False \<Rightarrow> Some False | Some True \<Rightarrow> match_loop num ps r)"

definition matchRow :: "(string \<Rightarrow> string \<Rightarrow> rat option) \<Rightarrow> subscriptionFilter \<Rightarrow> row option \<Rightarrow> bool option" where
  "matchRow num f r = (case f of None \<Rightarrow> Some True | Some ps \<Rightarrow> match_loop num ps (nilrow r))"

definition match_action ::
    "(string \<Rightarrow> string \<Rightarrow> rat option) \<Rightarrow> subscriptionFilter \<Rightarrow> ChangeAction \<Rightarrow> row option \<Rightarrow> row option \<Rightarrow> bool option" where
  "match_action num f action old new =
     (case f of
        None \<Rightarrow> Some True
      | Some _ \<Rightarrow>
          (case action of
             ActionDelete \<Rightarrow> matchRow num f old
           | ActionTruncate \<Rightarrow> Some True
           | _ \<Rightarrow> matchRow num f new))"

definition matchEntry :: "(string \<Rightarrow> string \<Rightarrow> rat option) \<Rightarrow> subscriptionFilter \<Rightarrow> JournalEntry \<Rightarrow> bool option" where
  "matchEntry num f e = match_action num f (je_Action e) (je_OldValues e) (je_NewValues e)"

definition changeMatchesFilter :: "(string \<Rightarrow> string \<Rightarrow> rat option) \<Rightarrow> Change \<Rightarrow> subscriptionFilter \<Rightarrow> bool option" where
  "changeMatchesFilter num ch f = match_action num f (ch_Action ch) (ch_Old ch) (ch_New ch)"

fun filterRows :: "(string \<Rightarrow> string \<Rightarrow> rat option) \<Rightarrow> row list \<Rightarrow> subscriptionFilter \<Rightarrow> row list option" where
  "filterRows num [] f = Some []"
| "filterRows num (r # rs) f =
     (case matchRow num f (Some r) of
        None \<Rightarrow> None
      | Some b \<Rightarrow> map_option (\<lambda>out. if b then r # out else out) (filterRows num rs f))"

section \<open>Facts\<close>

lemma compile_loop_all:
  "compile_loop num i ps = Inr cps \<longleftrightarrow>
   length cps = length ps \<and> (\<forall>k < length ps. compile_predicate num (i + k) (ps ! k) = Inr (cps ! k))"
proof (induction ps arbitrary: i cps)
  case (Cons p ps)
  show ?case
  proof (cases cps)
    case Nil
    then show ?thesis by (auto split: sum.splits)
  next
    case (Cons c cs)
    then show ?thesis using Cons.IH [of "i + 1" cs]
      by (auto simp: All_less_Suc2 split: sum.splits)
  qed
qed auto

text \<open>A filter admits a row exactly if every predicate does, when no comparison panics.\<close>

lemma match_loop_all:
  "match_loop num ps r = Some b \<Longrightarrow> b \<longleftrightarrow> (\<forall>p \<in> set ps. pred_match num p r = Some True)"
  by (induction ps) (auto split: option.splits bool.splits)

lemma normalize_int_eq:
  assumes "\<bar>i\<bar> < 2 ^ 53" and "\<bar>j\<bar> < 2 ^ 53"
  shows "normal_eq (normalize num (VInt64 i)) (normalize num (VInt j)) = Some (i = j)"
  using float64_of_int_inj [OF assms] by auto

end
