(* ===== verification/Replication_Service.thy ===== *)
theory Replication_Service
  imports Subscription_Filter Archive_Reader Fanout_Target Change_Buffer "HOL-Library.Word"
begin

text \<open>
  The replication service (\<^verbatim>\<open>service/replication/replication.go\<close> and \<^verbatim>\<open>cold_replay.go\<close>).  \<^verbatim>\<open>Sync\<close> runs
  concurrently with everything else that uses the fan-out target: each of its calls of the target
  first lets the environment change the target, by the next function of \<open>sy_env\<close>.  \<open>sy_sends\<close> lists the
  errors of the coming sends, and \<open>sy_out\<close> is what has been sent.  \<open>'st\<close> is the type of protobuf structs;
  \<open>newStruct\<close> is \<^verbatim>\<open>structpb.NewStruct\<close>, with \<open>None\<close> for the nil struct that comes with an error.
\<close>

section \<open>Messages\<close>

datatype SyncMode =
    SYNC_MODE_UNSPECIFIED | SYNC_MODE_FULL_SNAPSHOT | SYNC_MODE_DELTA | SYNC_MODE_DELTA_FROM_SNAPSHOT | SYNC_MODE_REPLAY_ARCHIVE

record WireColumn =
  wc_OrdinalPosition :: "32 word"
  wc_ColumnName :: string
  wc_DataType :: string
  wc_NotNull :: bool
  wc_IsPrimaryKey :: bool
  wc_PrimaryKeyOrdinal :: "32 word"

record SyncRequest =
  rq_Schema :: string
  rq_Table :: string
  rq_LastKnownSequence :: int
  rq_LastSnapshotId :: string
  rq_ClientId :: string
  rq_LastKnownSourcePosition :: string
  rq_Filters :: "FieldPredicate list"

record SyncHandshake =
  hs_Mode :: SyncMode
  hs_ServerCurrentSequence :: int
  hs_JournalOldestSequence :: int
  hs_ResumeFromSequence :: int
  hs_SnapshotId :: string
  hs_Columns :: "WireColumn list"

record 'st WireEntry =
  we_Sequence :: int
  we_SourcePosition :: string
  we_Timestamp :: int
  we_Action :: string
  we_OldValues :: "'st option"
  we_NewValues :: "'st option"

datatype 'st SyncResponse =
    MsgHandshake SyncHandshake
  | MsgSnapshotBegin string int int
  | MsgSnapshotRow "'st option"
  | MsgSnapshotEnd int int
  | MsgJournalEntry "'st WireEntry"
  | MsgSchemaChange
  | MsgHeartbeat int int
  | MsgGoAway string int

definition columnsToProto :: "ColumnDefinition list \<Rightarrow> WireColumn list" where
  "columnsToProto cols =
     map (\<lambda>c. \<lparr>wc_OrdinalPosition = of_int (OrdinalPosition c), wc_ColumnName = Name c, wc_DataType = Type c, wc_NotNull = \<not> Nullable c,
               wc_IsPrimaryKey = PrimaryKey c, wc_PrimaryKeyOrdinal = of_int (PrimaryKeyOrdinal c)\<rparr>) cols"

section \<open>Calls of the target and sends\<close>

record 'st sync =
  sy_t :: Target
  sy_env :: "(Target \<Rightarrow> Target) list"
  sy_out :: "'st SyncResponse list"
  sy_sends :: "goerror option list"

definition ft_call :: "(Target \<Rightarrow> 'a \<times> Target) \<Rightarrow> 'st sync \<Rightarrow> 'a \<times> 'st sync" where
  "ft_call f s =
     (case f ((case sy_env s of [] \<Rightarrow> id | e # _ \<Rightarrow> e) (sy_t s)) of
        (r, t) \<Rightarrow> (r, s\<lparr>sy_t := t, sy_env := tl (sy_env s)\<rparr>))"

definition ft_read :: "(Target \<Rightarrow> 'a) \<Rightarrow> 'st sync \<Rightarrow> 'a \<times> 'st sync" where
  "ft_read f = ft_call (\<lambda>t. (f t, t))"

definition ft_do :: "(Target \<Rightarrow> Target) \<Rightarrow> 'st sync \<Rightarrow> 'st sync" where
  "ft_do f s = snd (ft_call (\<lambda>t. ((), f t)) s)"

definition stream_Send :: "'st SyncResponse \<Rightarrow> 'st sync \<Rightarrow> goerror option \<times> 'st sync" where
  "stream_Send m s =
     (case sy_sends s of
        Some err # es \<Rightarrow> (Some err, s\<lparr>sy_sends := es\<rparr>)
      | es \<Rightarrow> (None, s\<lparr>sy_sends := tl es, sy_out := sy_out s @ [m]\<rparr>))"

fun send_rows :: "(row \<Rightarrow> 'st option) \<Rightarrow> row list \<Rightarrow> 'st sync \<Rightarrow> goerror option \<times> 'st sync" where
  "send_rows newStruct [] s = (None, s)"
| "send_rows newStruct (r # rs) s =
     (case stream_Send (MsgSnapshotRow (newStruct r)) s of
        (Some err, s) \<Rightarrow> (Some err, s)
      | (None, s) \<Rightarrow> send_rows newStruct rs s)"

text \<open>A base snapshot: begin, rows, end.\<close>

definition send_base :: "(row \<Rightarrow> 'st option) \<Rightarrow> string \<Rightarrow> int \<Rightarrow> row list \<Rightarrow> 'st sync \<Rightarrow> goerror option \<times> 'st sync" where
  "send_base newStruct snapshotID seq rs s =
     (case stream_Send (MsgSnapshotBegin snapshotID seq (int (length rs))) s of
        (Some err, s) \<Rightarrow> (Some err, s)
      | (None, s) \<Rightarrow>
          (case send_rows newStruct rs s of
             (Some err, s) \<Rightarrow> (Some err, s)
           | (None, s) \<Rightarrow> stream_Send (MsgSnapshotEnd seq (int (length rs))) s))"

definition wire_entry :: "(row \<Rightarrow> 'st option) \<Rightarrow> int \<Rightarrow> string \<Rightarrow> int \<Rightarrow> ChangeAction \<Rightarrow> row option \<Rightarrow> row option \<Rightarrow> 'st WireEntry" where
  "wire_entry newStruct seq pos ts action old new =
     \<lparr>we_Sequence = seq, we_SourcePosition = pos, we_Timestamp = ts, we_Action = ChangeAction_String action,
      we_OldValues = Option.bind old newStruct, we_NewValues = Option.bind new newStruct\<rparr>"

definition sendJournalEntry ::
    "(row \<Rightarrow> 'st option) \<Rightarrow> (position \<Rightarrow> string) \<Rightarrow> JournalEntry \<Rightarrow> 'st sync \<Rightarrow> goerror option \<times> 'st sync" where
  "sendJournalEntry newStruct posToStr e s =
     stream_Send (MsgJournalEntry (wire_entry newStruct (je_Sequence e) (posToStr (je_Position e)) (je_Timestamp e) (je_Action e)
       (je_OldValues e) (je_NewValues e))) s"

section \<open>Cold replay\<close>

record source_view =
  sv_FromString :: "string \<Rightarrow> position option"
  sv_ToString :: "position \<Rightarrow> string"
  sv_Compare :: "position \<Rightarrow> position \<Rightarrow> int"

record coldDiff =
  cd_position :: string
  cd_changes :: "Change list"

record coldReplay =
  cr_snapshot :: "(string \<times> row list) option"
  cr_diffs :: "coldDiff list"
  cr_resumeSeq :: int

definition cold_cmp :: "source_view \<Rightarrow> string \<Rightarrow> string \<Rightarrow> int" where
  "cold_cmp src a b =
     (case (sv_FromString src a, sv_FromString src b) of
        (Some pa, Some pb) \<Rightarrow> sv_Compare src pa pb
      | _ \<Rightarrow> 0)"

fun read_cold_diffs :: "'d Destination \<Rightarrow> 'd Reader \<Rightarrow> Artifact list \<Rightarrow> coldDiff list option" where
  "read_cold_diffs vt r [] = Some []"
| "read_cold_diffs vt r (d # ds) =
     (case ReadDiff vt r d of
        Inl err \<Rightarrow> None
      | Inr changes \<Rightarrow> map_option ((#) \<lparr>cd_position = a_ToPosition d, cd_changes = changes\<rparr>) (read_cold_diffs vt r ds))"

definition planColdReplay ::
    "'d Destination \<Rightarrow> 'd Reader option \<Rightarrow> source_view \<Rightarrow> string \<Rightarrow> 'st sync \<Rightarrow> coldReplay option outcome \<times> 'st sync" where
  "planColdReplay vt reader src fromPos s =
     (case reader of
        None \<Rightarrow> (Returns None, s)
      | Some r \<Rightarrow>
          (case LoadManifest vt r of
             Inl err \<Rightarrow> (Returns None, s)
           | Inr m \<Rightarrow>
               (case Plan m fromPos (cold_cmp src) of
                  None \<Rightarrow> (Blocked, s)
                | Some None \<Rightarrow> (Returns None, s)
                | Some (Some plan) \<Rightarrow>
                    (case sv_FromString src (rp_HeadPosition plan) of
                       None \<Rightarrow> (Returns None, s)
                     | Some headPos \<Rightarrow>
                         (case ft_read (ResumeSequenceForPosition headPos (sv_Compare src)) s of
                            ((seq, False), s) \<Rightarrow> (Returns None, s)
                          | ((seq, True), s) \<Rightarrow>
                              (case (case rp_Snapshot plan of
                                       None \<Rightarrow> Some None
                                     | Some snap \<Rightarrow>
                                         (case ReadSnapshot vt r snap of
                                            Inl err \<Rightarrow> None
                                          | Inr rs \<Rightarrow> Some (Some (''archive-'' @ Itoa (a_Epoch snap), rs)))) of
                                 None \<Rightarrow> (Returns None, s)
                               | Some base \<Rightarrow>
                                   (case read_cold_diffs vt r (rp_Diffs plan) of
                                      None \<Rightarrow> (Returns None, s)
                                    | Some ds \<Rightarrow>
                                        (Returns (Some \<lparr>cr_snapshot = base, cr_diffs = ds, cr_resumeSeq = seq\<rparr>), s))))))))"

text \<open>\<open>now\<close> is the time stamped on the archive's changes.\<close>

definition sendArchiveChange ::
    "(row \<Rightarrow> 'st option) \<Rightarrow> int \<Rightarrow> Change \<Rightarrow> string \<Rightarrow> int \<Rightarrow> 'st sync \<Rightarrow> goerror option \<times> 'st sync" where
  "sendArchiveChange newStruct now c pos seq s =
     stream_Send (MsgJournalEntry (wire_entry newStruct seq pos now (ch_Action c) (ch_Old c) (ch_New c))) s"

type_synonym 'st filtered = "(string \<Rightarrow> string \<Rightarrow> rat option) \<times> subscriptionFilter \<times> (row \<Rightarrow> 'st option)"

fun send_changes :: "'st filtered \<Rightarrow> int \<Rightarrow> string \<Rightarrow> int \<Rightarrow> Change list \<Rightarrow> 'st sync \<Rightarrow> goerror option outcome \<times> 'st sync" where
  "send_changes fs now pos seq [] s = (Returns None, s)"
| "send_changes (num, f, newStruct) now pos seq (c # cs) s =
     (case changeMatchesFilter num c f of
        None \<Rightarrow> (Panic, s)
      | Some False \<Rightarrow> send_changes (num, f, newStruct) now pos seq cs s
      | Some True \<Rightarrow>
          (case sendArchiveChange newStruct now c pos seq s of
             (Some err, s) \<Rightarrow> (Returns (Some err), s)
           | (None, s) \<Rightarrow> send_changes (num, f, newStruct) now pos seq cs s))"

fun send_diffs :: "'st filtered \<Rightarrow> int \<Rightarrow> int \<Rightarrow> coldDiff list \<Rightarrow> 'st sync \<Rightarrow> goerror option outcome \<times> 'st sync" where
  "send_diffs fs now seq [] s = (Returns None, s)"
| "send_diffs fs now seq (d # ds) s =
     (case send_changes fs now (cd_position d) seq (cd_changes d) s of
        (Returns None, s) \<Rightarrow> send_diffs fs now seq ds s
      | res \<Rightarrow> res)"

text \<open>The rows a subscriber gets, and their transfer.\<close>

definition send_filtered :: "'st filtered \<Rightarrow> string \<Rightarrow> int \<Rightarrow> row list \<Rightarrow> 'st sync \<Rightarrow> goerror option outcome \<times> 'st sync" where
  "send_filtered fs snapshotID seq rs s =
     (case fs of (num, f, newStruct) \<Rightarrow>
        case (case f of None \<Rightarrow> Some rs | Some _ \<Rightarrow> filterRows num rs f) of
          None \<Rightarrow> (Panic, s)
        | Some rs \<Rightarrow> (case send_base newStruct snapshotID seq rs s of (err, s) \<Rightarrow> (Returns err, s)))"

definition streamColdReplay :: "'st filtered \<Rightarrow> int \<Rightarrow> coldReplay \<Rightarrow> 'st sync \<Rightarrow> goerror option outcome \<times> 'st sync" where
  "streamColdReplay fs now cr s =
     (case (case cr_snapshot cr of
              None \<Rightarrow> (Returns None, s)
            | Some (snapshotID, rs) \<Rightarrow> send_filtered fs snapshotID (cr_resumeSeq cr) rs s) of
        (Returns None, s) \<Rightarrow> send_diffs fs now (cr_resumeSeq cr) (cr_diffs cr) s
      | res \<Rightarrow> res)"

section \<open>Choosing a mode\<close>

record sync_choice =
  sc_mode :: SyncMode
  sc_resume :: int
  sc_snapshotID :: string
  sc_cold :: "coldReplay option"

definition resume_by_position :: "source_view option \<Rightarrow> string \<Rightarrow> 'st sync \<Rightarrow> int option \<times> 'st sync" where
  "resume_by_position src clientPos s =
     (case src of
        None \<Rightarrow> (None, s)
      | Some sv \<Rightarrow>
          if clientPos = [] then (None, s)
          else case sv_FromString sv clientPos of
                 None \<Rightarrow> (None, s)
               | Some pos \<Rightarrow>
                   (case ft_read (ResumeSequenceForPosition pos (sv_Compare sv)) s of
                      ((seq, covered), s) \<Rightarrow> (if covered then Some seq else None, s)))"

definition choose_live :: "int \<Rightarrow> int \<Rightarrow> string \<Rightarrow> 'st sync \<Rightarrow> sync_choice \<times> 'st sync" where
  "choose_live lastSeq oldestSeq snapshotID s =
     (if 0 < lastSeq \<and> oldestSeq \<le> lastSeq
      then (\<lparr>sc_mode = SYNC_MODE_DELTA, sc_resume = lastSeq, sc_snapshotID = [], sc_cold = None\<rparr>, s)
      else if snapshotID \<noteq> []
      then case ft_read ListSnapshots s of (snaps, s) \<Rightarrow>
             (case find (\<lambda>sn. snap_ID sn = snapshotID \<and> oldestSeq \<le> snap_Sequence sn) snaps of
                Some sn \<Rightarrow> (\<lparr>sc_mode = SYNC_MODE_DELTA_FROM_SNAPSHOT, sc_resume = snap_Sequence sn, sc_snapshotID = snap_ID sn, sc_cold = None\<rparr>, s)
              | None \<Rightarrow> (\<lparr>sc_mode = SYNC_MODE_FULL_SNAPSHOT, sc_resume = 0, sc_snapshotID = [], sc_cold = None\<rparr>, s))
      else (\<lparr>sc_mode = SYNC_MODE_FULL_SNAPSHOT, sc_resume = 0, sc_snapshotID = [], sc_cold = None\<rparr>, s))"

definition choose_mode ::
    "'d Destination \<Rightarrow> 'd Reader option \<Rightarrow> source_view option \<Rightarrow> SyncRequest \<Rightarrow> int \<Rightarrow> 'st sync \<Rightarrow> sync_choice outcome \<times> 'st sync" where
  "choose_mode vt reader src req oldestSeq s =
     (case resume_by_position src (rq_LastKnownSourcePosition req) s of
        (Some seq, s) \<Rightarrow> (Returns \<lparr>sc_mode = SYNC_MODE_DELTA, sc_resume = seq, sc_snapshotID = [], sc_cold = None\<rparr>, s)
      | (None, s) \<Rightarrow>
          (case (case src of
                   Some sv \<Rightarrow> if rq_LastKnownSourcePosition req \<noteq> [] then planColdReplay vt reader sv (rq_LastKnownSourcePosition req) s
                              else (Returns None, s)
                 | None \<Rightarrow> (Returns None, s)) of
             (Returns (Some cr), s) \<Rightarrow>
               (Returns \<lparr>sc_mode = SYNC_MODE_REPLAY_ARCHIVE, sc_resume = cr_resumeSeq cr, sc_snapshotID = [], sc_cold = Some cr\<rparr>, s)
           | (Returns None, s) \<Rightarrow>
               (case choose_live (rq_LastKnownSequence req) oldestSeq (rq_LastSnapshotId req) s of (sc, s) \<Rightarrow> (Returns sc, s))
           | (Blocked, s) \<Rightarrow> (Blocked, s)
           | (Panic, s) \<Rightarrow> (Panic, s)))"

section \<open>Streaming\<close>

text \<open>Sending the journal entries of one read; the result also has whether any was sent, and the last
  sequence number that was looked at.\<close>

fun send_entries ::
    "'st filtered \<Rightarrow> (position \<Rightarrow> string) \<Rightarrow> string \<Rightarrow> JournalEntry list \<Rightarrow> bool \<Rightarrow> int \<Rightarrow> 'st sync \<Rightarrow>
     (goerror option outcome \<times> bool \<times> int) \<times> 'st sync" where
  "send_entries fs posToStr clientID [] sentAny lastSeq s = ((Returns None, sentAny, lastSeq), s)"
| "send_entries (num, f, newStruct) posToStr clientID (e # es) sentAny lastSeq s =
     (case matchEntry num f e of
        None \<Rightarrow> ((Panic, sentAny, lastSeq), s)
      | Some False \<Rightarrow> send_entries (num, f, newStruct) posToStr clientID es sentAny (je_Sequence e) s
      | Some True \<Rightarrow>
          (case sendJournalEntry newStruct posToStr e s of
             (Some err, s) \<Rightarrow> ((Returns (Some err), sentAny, lastSeq), s)
           | (None, s) \<Rightarrow>
               send_entries (num, f, newStruct) posToStr clientID es True (je_Sequence e)
                 (ft_do (UpdateClientSequence clientID (je_Sequence e)) s)))"

record live_vars =
  lv_lastSeqSent :: int
  lv_lastSent :: int
  lv_goAwaySent :: bool
  lv_drainDeadline :: int

text \<open>One iteration of the live loop: whether the context has ended at its start and in the select, and
  the clock readings in the order in which the code takes them.\<close>

record live_tick =
  lt_ctxErr :: bool
  lt_goAwayAt :: int
  lt_deadlineAt :: int
  lt_sentAt :: int
  lt_sinceAt :: int
  lt_serverTime :: int
  lt_beatAt :: int
  lt_cancelled :: bool

datatype live_result = LiveReturns "goerror option" | LivePanics | LiveContinues live_vars

definition live_goaway :: "live_tick \<Rightarrow> string \<Rightarrow> live_vars \<Rightarrow> 'st sync \<Rightarrow> (goerror + live_vars) \<times> 'st sync" where
  "live_goaway tick clientID lv s =
     (if lv_goAwaySent lv then (Inr lv, s)
      else case ft_read IsDraining s of (dr, s) \<Rightarrow>
        if \<not> dr then (Inr lv, s)
        else case ft_read DrainInfo s of ((why, dl, _), s) \<Rightarrow>
          (case stream_Send (MsgGoAway why (if dl = 0 then 0 else dl div 1000000)) s of
             (Some err, s) \<Rightarrow> (Inl err, s)
           | (None, s) \<Rightarrow>
               (Inr (lv\<lparr>lv_drainDeadline := (if dl = 0 then lv_drainDeadline lv else dl), lv_goAwaySent := True,
                        lv_lastSent := lt_goAwayAt tick\<rparr>),
                ft_do (SetClientState clientID ''draining'') s)))"

definition live_beat :: "live_tick \<Rightarrow> bool \<Rightarrow> live_vars \<Rightarrow> 'st sync \<Rightarrow> (goerror + live_vars) \<times> 'st sync" where
  "live_beat tick sentAny lv s =
     (if sentAny then (Inr (lv\<lparr>lv_lastSent := lt_sentAt tick\<rparr>), s)
      else case ft_read (\<lambda>t. heartbeatInterval (ft_cfg t)) s of (interval, s) \<Rightarrow>
        if interval \<le> lt_sinceAt tick - lv_lastSent lv
        then case ft_read JournalSequence s of (seq, s) \<Rightarrow>
               (case stream_Send (MsgHeartbeat seq (lt_serverTime tick)) s of
                  (Some err, s) \<Rightarrow> (Inl err, s)
                | (None, s) \<Rightarrow> (Inr (lv\<lparr>lv_lastSent := lt_beatAt tick\<rparr>), s))
        else (Inr lv, s))"

definition live_iter ::
    "'st filtered \<Rightarrow> (position \<Rightarrow> string) \<Rightarrow> string \<Rightarrow> live_tick \<Rightarrow> live_vars \<Rightarrow> 'st sync \<Rightarrow> live_result \<times> 'st sync" where
  "live_iter fs posToStr clientID tick lv s =
     (if lt_ctxErr tick then (LiveReturns (Some CtxErr), s)
      else case live_goaway tick clientID lv s of
        (Inl err, s) \<Rightarrow> (LiveReturns (Some err), s)
      | (Inr lv, s) \<Rightarrow>
          if lv_goAwaySent lv \<and> lv_drainDeadline lv \<noteq> 0 \<and> lv_drainDeadline lv \<le> lt_deadlineAt tick then (LiveReturns None, s)
          else case ft_read (JournalEntriesSince (lv_lastSeqSent lv)) s of (es, s) \<Rightarrow>
            (case send_entries fs posToStr clientID es False (lv_lastSeqSent lv) s of
               ((Returns None, sentAny, lastSeq), s) \<Rightarrow>
                 (case live_beat tick sentAny (lv\<lparr>lv_lastSeqSent := lastSeq\<rparr>) s of
                    (Inl err, s) \<Rightarrow> (LiveReturns (Some err), s)
                  | (Inr lv, s) \<Rightarrow> if lt_cancelled tick then (LiveReturns (Some CtxErr), s) else (LiveContinues lv, s))
             | ((Returns (Some err), sentAny, lastSeq), s) \<Rightarrow> (LiveReturns (Some err), s)
             | ((_, sentAny, lastSeq), s) \<Rightarrow> (LivePanics, s)))"

text \<open>The loop; after the given iterations it is still running.\<close>

fun live_loop ::
    "'st filtered \<Rightarrow> (position \<Rightarrow> string) \<Rightarrow> string \<Rightarrow> live_tick list \<Rightarrow> live_vars \<Rightarrow> 'st sync \<Rightarrow> goerror option outcome \<times> 'st sync" where
  "live_loop fs posToStr clientID [] lv s = (Blocked, s)"
| "live_loop fs posToStr clientID (tick # ticks) lv s =
     (case live_iter fs posToStr clientID tick lv s of
        (LiveReturns err, s) \<Rightarrow> (Returns err, s)
      | (LivePanics, s) \<Rightarrow> (Panic, s)
      | (LiveContinues lv, s) \<Rightarrow> live_loop fs posToStr clientID ticks lv s)"

section \<open>Sync\<close>

text \<open>The clock readings of a call and the order in which \<^verbatim>\<open>TakeSnapshot\<close> visits the store.\<close>

record sync_env =
  se_anonAt :: int
  se_registerAt :: int
  se_order :: "(string \<rightharpoonup> row) \<Rightarrow> string list"
  se_snapshotAt :: clock
  se_archiveAt :: int
  se_liveAt :: int
  se_ticks :: "live_tick list"

definition pos_to_str :: "source_view option \<Rightarrow> position \<Rightarrow> string" where
  "pos_to_str src p = (case src of None \<Rightarrow> [] | Some sv \<Rightarrow> if p = PosNil then [] else sv_ToString sv p)"

text \<open>The snapshot or the archive, if the mode asks for one; the flag says whether the journal was pinned.\<close>

definition sync_base ::
    "'st filtered \<Rightarrow> sync_env \<Rightarrow> string \<Rightarrow> sync_choice \<Rightarrow> 'st sync \<Rightarrow> (goerror option outcome \<times> int \<times> bool) \<times> 'st sync" where
  "sync_base fs env clientID sc s =
     (case sc_mode sc of
        SYNC_MODE_FULL_SNAPSHOT \<Rightarrow>
          (case ft_call (\<lambda>t. TakeSnapshot (se_order env (ft_store t)) (se_snapshotAt env) t) s of (snap, s) \<Rightarrow>
             let s = ft_do (PinJournal clientID (snap_Sequence snap)) s in
             case send_filtered fs (snap_ID snap) (snap_Sequence snap) (snap_Rows snap) s of
               (res, s) \<Rightarrow> ((res, snap_Sequence snap, True), s))
      | SYNC_MODE_REPLAY_ARCHIVE \<Rightarrow>
          (case sc_cold sc of
             None \<Rightarrow> ((Panic, sc_resume sc, False), s)
           | Some cold \<Rightarrow>
               let s = ft_do (PinJournal clientID (cr_resumeSeq cold)) s in
               (case streamColdReplay fs (se_archiveAt env) cold s of
                  (res, s) \<Rightarrow> ((res, cr_resumeSeq cold, True), s)))
      | _ \<Rightarrow> ((Returns None, sc_resume sc, False), s))"

definition sync_stream ::
    "'st filtered \<Rightarrow> source_view option \<Rightarrow> sync_env \<Rightarrow> string \<Rightarrow> int \<Rightarrow> 'st sync \<Rightarrow> goerror option outcome \<times> 'st sync" where
  "sync_stream fs src env clientID resumeSeq s =
     (case ft_read (JournalEntriesSince resumeSeq) s of (es, s) \<Rightarrow>
        case send_entries fs (pos_to_str src) clientID es False resumeSeq s of
          ((Returns None, _, _), s) \<Rightarrow>
            let s = ft_do (SetClientState clientID ''live'') s in
            (case ft_read JournalSequence s of (lastSeqSent, s) \<Rightarrow>
             case ft_call Fanout_Target.Draining s of (_, s) \<Rightarrow>
               live_loop fs (pos_to_str src) clientID (se_ticks env)
                 \<lparr>lv_lastSeqSent = lastSeqSent, lv_lastSent = se_liveAt env, lv_goAwaySent = False, lv_drainDeadline = 0\<rparr> s)
        | ((res, _, _), s) \<Rightarrow> (res, s))"

text \<open>The deferred calls, in reverse order.\<close>

definition sync_defers :: "string \<Rightarrow> bool \<Rightarrow> goerror option outcome \<times> 'st sync \<Rightarrow> goerror option outcome \<times> 'st sync" where
  "sync_defers clientID pinned res =
     (case res of
        (Blocked, s) \<Rightarrow> (Blocked, s)
      | (r, s) \<Rightarrow> (r, ft_do (UnregisterClient clientID) (if pinned then ft_do (UnpinJournal clientID) s else s)))"

text \<open>A registered client: the mode, the handshake and the base; the result has the sequence number to
  resume from, whether the journal is pinned, and the mode.\<close>

definition sync_open ::
    "'d Destination \<Rightarrow> 'd Reader option \<Rightarrow> source_view option \<Rightarrow> 'st filtered \<Rightarrow> sync_env \<Rightarrow> SyncRequest \<Rightarrow> string \<Rightarrow> 'st sync \<Rightarrow>
     (goerror option outcome \<times> int \<times> bool \<times> SyncMode) \<times> 'st sync" where
  "sync_open vt reader src fs env req clientID s =
     (case ft_read JournalOldestSequence s of (oldestSeq, s) \<Rightarrow>
      case ft_read JournalSequence s of (currentSeq, s) \<Rightarrow>
      case choose_mode vt reader src req oldestSeq s of
        (Returns sc, s) \<Rightarrow>
          (case ft_read Columns s of (cols, s) \<Rightarrow>
           case stream_Send (MsgHandshake \<lparr>hs_Mode = sc_mode sc, hs_ServerCurrentSequence = currentSeq, hs_JournalOldestSequence = oldestSeq,
               hs_ResumeFromSequence = sc_resume sc, hs_SnapshotId = sc_snapshotID sc, hs_Columns = columnsToProto cols\<rparr>) s of
             (Some err, s) \<Rightarrow> ((Returns (Some err), sc_resume sc, False, sc_mode sc), s)
           | (None, s) \<Rightarrow>
               (case sync_base fs env clientID sc (ft_do (SetClientState clientID ''catching_up'') s) of
                  ((res, resumeSeq, pinned), s) \<Rightarrow> ((res, resumeSeq, pinned, sc_mode sc), s)))
      | (Blocked, s) \<Rightarrow> ((Blocked, 0, False, SYNC_MODE_UNSPECIFIED), s)
      | (Panic, s) \<Rightarrow> ((Panic, 0, False, SYNC_MODE_UNSPECIFIED), s))"

definition sync_registered ::
    "'d Destination \<Rightarrow> 'd Reader option \<Rightarrow> source_view option \<Rightarrow> 'st filtered \<Rightarrow> sync_env \<Rightarrow> SyncRequest \<Rightarrow> string \<Rightarrow> 'st sync \<Rightarrow>
     goerror option outcome \<times> 'st sync" where
  "sync_registered vt reader src fs env req clientID s =
     (case sync_open vt reader src fs env req clientID s of
        ((Returns None, resumeSeq, pinned, mode), s) \<Rightarrow> sync_defers clientID pinned (sync_stream fs src env clientID resumeSeq s)
      | ((res, resumeSeq, pinned, mode), s) \<Rightarrow> sync_defers clientID pinned (res, s))"

definition connect_error :: "string \<Rightarrow> goerror \<Rightarrow> goerror" where
  "connect_error code err = Wrap code err"

text \<open>\<open>found\<close> is what \<^verbatim>\<open>findFanoutTargetAndSource\<close> returns: whether there is a target, whose state \<open>s\<close> has, and
  its source.\<close>

definition Sync ::
    "'d Destination \<Rightarrow> 'd Reader option \<Rightarrow> (string \<Rightarrow> string \<Rightarrow> rat option) \<Rightarrow> (row \<Rightarrow> 'st option) \<Rightarrow> bool \<times> source_view option \<Rightarrow> sync_env \<Rightarrow>
     SyncRequest \<Rightarrow> 'st sync \<Rightarrow> goerror option outcome \<times> 'st sync" where
  "Sync vt reader num newStruct found env req s =
     (if rq_Schema req = [] \<or> rq_Table req = []
      then (Returns (Some (connect_error ''invalid_argument'' (Err ''schema and table are required''))), s)
      else case compileSubscriptionFilter num (rq_Filters req) of
        Inl err \<Rightarrow> (Returns (Some (connect_error ''invalid_argument'' err)), s)
      | Inr f \<Rightarrow>
          if \<not> fst found
          then (Returns (Some (connect_error ''not_found'' (Err (''no fan-out target for '' @ rq_Schema req @ ''.'' @ rq_Table req)))), s)
          else
            let clientID = (if rq_ClientId req = [] then ''anon-'' @ Itoa (se_anonAt env div 1000000) else rq_ClientId req) in
            (case ft_call (RegisterClient (se_registerAt env) clientID) s of
               (False, s) \<Rightarrow> (Returns (Some (connect_error ''resource_exhausted'' (Err ''max clients reached''))), s)
             | (True, s) \<Rightarrow> sync_registered vt reader (snd found) (num, f, newStruct) env req clientID s))"

section \<open>Finding the target; the other calls\<close>

text \<open>The methods of the engine the service calls: the source ids, in the order of the runtime's map
  iteration; the targets of a source and table, where a fan-out target is a reference and any other
  target is \<open>None\<close>; the source.  \<open>heap\<close> has the fan-out targets.\<close>

record engine_view =
  ev_SourceIDs :: "string list"
  ev_Targets :: "string \<Rightarrow> TableIdentifier \<Rightarrow> nat option list"
  ev_Source :: "string \<Rightarrow> source_view option"

record 'd Service =
  svc_engine :: engine_view
  svc_archives :: "TableIdentifier \<rightharpoonup> 'd Reader"

definition WithArchive :: "string \<Rightarrow> string \<Rightarrow> 'd Reader \<Rightarrow> 'd Service \<Rightarrow> 'd Service" where
  "WithArchive sch table r s = s\<lparr>svc_archives := (svc_archives s)(Table sch table \<mapsto> r)\<rparr>"

definition svc_New :: "engine_view \<Rightarrow> ('d Service \<Rightarrow> 'd Service) list \<Rightarrow> 'd Service" where
  "svc_New engine opts = foldl (\<lambda>s opt. opt s) \<lparr>svc_engine = engine, svc_archives = Map.empty\<rparr> opts"

fun first_fanout :: "nat option list \<Rightarrow> nat option" where
  "first_fanout [] = None"
| "first_fanout (None # ts) = first_fanout ts"
| "first_fanout (Some ft # ts) = Some ft"

definition findFanoutTarget :: "engine_view \<Rightarrow> string \<Rightarrow> string \<Rightarrow> nat option" where
  "findFanoutTarget engine sch table = first_fanout (ev_Targets engine [] (Table sch table))"

fun find_by_source :: "engine_view \<Rightarrow> TableIdentifier \<Rightarrow> string list \<Rightarrow> (nat \<times> source_view option) option" where
  "find_by_source engine tid [] = None"
| "find_by_source engine tid (sid # sids) =
     (case first_fanout (ev_Targets engine sid tid) of
        Some ft \<Rightarrow> Some (ft, ev_Source engine sid)
      | None \<Rightarrow> find_by_source engine tid sids)"

definition findFanoutTargetAndSource :: "engine_view \<Rightarrow> string \<Rightarrow> string \<Rightarrow> nat option \<times> source_view option" where
  "findFanoutTargetAndSource engine sch table =
     (case find_by_source engine (Table sch table) (ev_SourceIDs engine) of
        Some (ft, src) \<Rightarrow> (Some ft, src)
      | None \<Rightarrow> (findFanoutTarget engine sch table, None))"

record ReplicationSnapshotInfo =
  rsi_SnapshotId :: string
  rsi_Sequence :: int
  rsi_RowCount :: int

definition snapshot_info :: "Snapshot \<Rightarrow> ReplicationSnapshotInfo" where
  "snapshot_info sn = \<lparr>rsi_SnapshotId = snap_ID sn, rsi_Sequence = snap_Sequence sn, rsi_RowCount = snap_RowCount sn\<rparr>"

record ConnectedClient =
  cc_ClientId :: string
  cc_CurrentSequence :: int
  cc_State :: string
  cc_BufferDepth :: "32 word"

record ReplicationStatus =
  rst_CurrentSequence :: int
  rst_JournalOldestSequence :: int
  rst_JournalEntryCount :: int
  rst_RowCount :: int
  rst_ConnectedClients :: "32 word"
  rst_Clients :: "ConnectedClient list"
  rst_LatestSnapshot :: "ReplicationSnapshotInfo option"

definition missing_table :: "string \<Rightarrow> string \<Rightarrow> goerror option" where
  "missing_table sch table =
     (if sch = [] \<or> table = [] then Some (connect_error ''invalid_argument'' (Err ''schema and table are required'')) else None)"

definition no_target :: "string \<Rightarrow> string \<Rightarrow> goerror" where
  "no_target sch table = connect_error ''not_found'' (Err (''no fan-out target for '' @ sch @ ''.'' @ table))"

definition status_of :: "string list \<Rightarrow> Target \<Rightarrow> ReplicationStatus" where
  "status_of order t =
     \<lparr>rst_CurrentSequence = JournalSequence t, rst_JournalOldestSequence = JournalOldestSequence t,
      rst_JournalEntryCount = int (JournalLen t), rst_RowCount = int (fanout_Count t),
      rst_ConnectedClients = of_nat (ConnectedClients t),
      rst_Clients = map (\<lambda>ci. \<lparr>cc_ClientId = ci_ID ci, cc_CurrentSequence = ci_CurrentSequence ci, cc_State = ci_State ci,
                               cc_BufferDepth = of_int (ci_BufferDepth ci)\<rparr>) (ClientList order t),
      rst_LatestSnapshot = map_option snapshot_info (LatestSnapshot t)\<rparr>"

definition GetReplicationStatus :: "engine_view \<Rightarrow> (nat \<Rightarrow> Target) \<Rightarrow> string list \<Rightarrow> string \<Rightarrow> string \<Rightarrow> goerror + ReplicationStatus" where
  "GetReplicationStatus engine heap order sch table =
     (case missing_table sch table of
        Some err \<Rightarrow> Inl err
      | None \<Rightarrow>
          (case first_fanout (ev_Targets engine [] (Table sch table)) of
             None \<Rightarrow> Inl (no_target sch table)
           | Some ft \<Rightarrow> Inr (status_of order (heap ft))))"

definition svc_ListSnapshots :: "engine_view \<Rightarrow> (nat \<Rightarrow> Target) \<Rightarrow> string \<Rightarrow> string \<Rightarrow> goerror + ReplicationSnapshotInfo list" where
  "svc_ListSnapshots engine heap sch table =
     (case missing_table sch table of
        Some err \<Rightarrow> Inl err
      | None \<Rightarrow>
          (case first_fanout (ev_Targets engine [] (Table sch table)) of
             None \<Rightarrow> Inl (no_target sch table)
           | Some ft \<Rightarrow> Inr (map snapshot_info (ListSnapshots (heap ft)))))"

text \<open>The loops of \<^verbatim>\<open>FetchSnapshot\<close>: the first snapshot with the id, over all sources and targets.\<close>

fun fetch_in :: "(nat \<Rightarrow> Target) \<Rightarrow> string \<Rightarrow> nat option list \<Rightarrow> Snapshot option" where
  "fetch_in heap snapshotID [] = None"
| "fetch_in heap snapshotID (None # ts) = fetch_in heap snapshotID ts"
| "fetch_in heap snapshotID (Some ft # ts) =
     (case find (\<lambda>sn. snap_ID sn = snapshotID) (ListSnapshots (heap ft)) of
        Some sn \<Rightarrow> Some sn
      | None \<Rightarrow> fetch_in heap snapshotID ts)"

fun fetch_loop :: "engine_view \<Rightarrow> (nat \<Rightarrow> Target) \<Rightarrow> string \<Rightarrow> string list \<Rightarrow> Snapshot option" where
  "fetch_loop engine heap snapshotID [] = None"
| "fetch_loop engine heap snapshotID (sid # sids) =
     (case fetch_in heap snapshotID (ev_Targets engine sid (Table [] [])) of
        Some sn \<Rightarrow> Some sn
      | None \<Rightarrow> fetch_loop engine heap snapshotID sids)"

text \<open>The chunks of the response are the three snapshot messages.\<close>

definition FetchSnapshot ::
    "engine_view \<Rightarrow> (nat \<Rightarrow> Target) \<Rightarrow> (row \<Rightarrow> 'st option) \<Rightarrow> string \<Rightarrow> 'st sync \<Rightarrow> goerror option \<times> 'st sync" where
  "FetchSnapshot engine heap newStruct snapshotID s =
     (if snapshotID = [] then (Some (connect_error ''invalid_argument'' (Err ''snapshot_id is required'')), s)
      else case fetch_loop engine heap snapshotID (ev_SourceIDs engine) of
        None \<Rightarrow> (Some (connect_error ''not_found'' (Err (''snapshot '' @ snapshotID @ '' not found''))), s)
      | Some sn \<Rightarrow>
          (case stream_Send (MsgSnapshotBegin (snap_ID sn) (snap_Sequence sn) (snap_RowCount sn)) s of
             (Some err, s) \<Rightarrow> (Some err, s)
           | (None, s) \<Rightarrow>
               (case send_rows newStruct (snap_Rows sn) s of
                  (Some err, s) \<Rightarrow> (Some err, s)
                | (None, s) \<Rightarrow> stream_Send (MsgSnapshotEnd (snap_Sequence sn) (snap_RowCount sn)) s)))"

text \<open>A call of \<^verbatim>\<open>Sync\<close> on the service: the target it finds, and what the call does to that target.\<close>

definition svc_Sync ::
    "'d Destination \<Rightarrow> 'd Service \<Rightarrow> (string \<Rightarrow> string \<Rightarrow> rat option) \<Rightarrow> (row \<Rightarrow> 'st option) \<Rightarrow> (nat \<Rightarrow> Target) \<Rightarrow>
     (Target \<Rightarrow> Target) list \<Rightarrow> goerror option list \<Rightarrow> sync_env \<Rightarrow> SyncRequest \<Rightarrow> goerror option outcome \<times> 'st SyncResponse list \<times> (nat \<Rightarrow> Target)" where
  "svc_Sync vt svc num newStruct heap calls sends env req =
     (let (ft, src) = findFanoutTargetAndSource (svc_engine svc) (rq_Schema req) (rq_Table req);
          a = (case ft of None \<Rightarrow> 0 | Some a \<Rightarrow> a);
          (res, s) = Sync vt (svc_archives svc (Table (rq_Schema req) (rq_Table req))) num newStruct (ft \<noteq> None, src) env req
            \<lparr>sy_t = heap a, sy_env = calls, sy_out = [], sy_sends = sends\<rparr>
      in (res, sy_out s, if ft = None then heap else heap(a := sy_t s)))"

end
