(* ===== verification/Fanout_Client.thy ===== *)
theory Fanout_Client
  imports Replication_Service
begin

text \<open>
  The fan-out client (\<^verbatim>\<open>client/fanout/client.go\<close>): the local replica with its secondary indexes, how
  it applies the messages of a stream, its reconnects and the hand-off from a draining server.  \<open>asMap\<close> is
  \<^verbatim>\<open>AsMap\<close> of a protobuf struct, and \<open>sortedKeys\<close> the keys of a row in the order in which Go prints a map.
  The calls of the listeners are recorded in the order in which they happen.
\<close>

section \<open>State and options\<close>

record 'st wire =
  asMap :: "'st \<Rightarrow> row"
  sortedKeys :: "row \<Rightarrow> string list"

record secondaryIndex =
  si_fields :: "string list"
  si_entries :: "string \<rightharpoonup> string list"

record indexConfig =
  ic_name :: string
  ic_fields :: "string list"

record client_config =
  cc_serverAddress :: string
  cc_schema :: string
  cc_table :: string
  cc_clientID :: string
  cc_localSnapshotPath :: string
  cc_indexes :: "indexConfig list"
  cc_filters :: "FieldPredicate list"

datatype notification = Notified "row option" "row option" | NotifiedAt "row option" "row option" string

record Client =
  cl_cfg :: client_config
  cl_store :: "string \<rightharpoonup> row"
  cl_indexes :: "string \<rightharpoonup> secondaryIndex"
  cl_ready :: bool
  cl_lastSeq :: int
  cl_lastSnapshotID :: string
  cl_lastSourcePosition :: string
  cl_lastReceived :: int
  cl_listener :: bool
  cl_posListener :: bool
  cl_columns :: "ColumnDefinition list"
  cl_notified :: "notification list"

definition ServerAddress :: "string \<Rightarrow> client_config \<Rightarrow> client_config" where
  "ServerAddress addr c = c\<lparr>cc_serverAddress := addr\<rparr>"

definition client_Table :: "string \<Rightarrow> string \<Rightarrow> client_config \<Rightarrow> client_config" where
  "client_Table sch table c = c\<lparr>cc_schema := sch, cc_table := table\<rparr>"

definition ClientID :: "string \<Rightarrow> client_config \<Rightarrow> client_config" where
  "ClientID i c = c\<lparr>cc_clientID := i\<rparr>"

definition LocalSnapshotPath :: "string \<Rightarrow> client_config \<Rightarrow> client_config" where
  "LocalSnapshotPath path c = c\<lparr>cc_localSnapshotPath := path\<rparr>"

definition WithIndex :: "string \<Rightarrow> string list \<Rightarrow> client_config \<Rightarrow> client_config" where
  "WithIndex name flds c = c\<lparr>cc_indexes := cc_indexes c @ [\<lparr>ic_name = name, ic_fields = flds\<rparr>]\<rparr>"

text \<open>\<open>newValue\<close> is \<^verbatim>\<open>structpb.NewValue\<close>, as the Go value it stands for; \<open>None\<close> is an error.\<close>

definition WithFilterEquals :: "(value \<Rightarrow> value option) \<Rightarrow> string \<Rightarrow> value \<Rightarrow> client_config \<Rightarrow> client_config" where
  "WithFilterEquals newValue field v c =
     (case newValue v of
        None \<Rightarrow> c
      | Some v \<Rightarrow> c\<lparr>cc_filters := cc_filters c @ [\<lparr>fp_Field = field, fp_Match = Some (MatchEquals v)\<rparr>]\<rparr>)"

definition WithFilterPrefix :: "string \<Rightarrow> string \<Rightarrow> client_config \<Rightarrow> client_config" where
  "WithFilterPrefix field pre c = c\<lparr>cc_filters := cc_filters c @ [\<lparr>fp_Field = field, fp_Match = Some (MatchPrefix pre)\<rparr>]\<rparr>"

text \<open>\<^verbatim>\<open>structpb.NewList\<close> fails if one of the values does.\<close>

definition WithFilterIn :: "(value \<Rightarrow> value option) \<Rightarrow> string \<Rightarrow> value list \<Rightarrow> client_config \<Rightarrow> client_config" where
  "WithFilterIn newValue field vs c =
     (if \<exists>v \<in> set vs. newValue v = None then c
      else c\<lparr>cc_filters := cc_filters c @ [\<lparr>fp_Field = field, fp_Match = Some (MatchIn (map (the \<circ> newValue) vs))\<rparr>]\<rparr>)"

definition client_New :: "(client_config \<Rightarrow> client_config) list \<Rightarrow> Client" where
  "client_New opts =
     (let cfg = foldl (\<lambda>c opt. opt c)
            \<lparr>cc_serverAddress = [], cc_schema = [], cc_table = [], cc_clientID = [], cc_localSnapshotPath = [], cc_indexes = [], cc_filters = []\<rparr> opts
      in \<lparr>cl_cfg = cfg, cl_store = Map.empty,
          cl_indexes = foldl (\<lambda>m ic. m(ic_name ic \<mapsto> \<lparr>si_fields = ic_fields ic, si_entries = Map.empty\<rparr>)) Map.empty (cc_indexes cfg),
          cl_ready = False, cl_lastSeq = 0, cl_lastSnapshotID = [], cl_lastSourcePosition = [], cl_lastReceived = 0,
          cl_listener = False, cl_posListener = False, cl_columns = [], cl_notified = []\<rparr>)"

section \<open>Keys and indexes\<close>

definition Sprint_row :: "(row \<Rightarrow> string list) \<Rightarrow> row \<Rightarrow> string" where
  "Sprint_row keys r = ''map['' @ join_space (map (\<lambda>k. k @ '':'' @ Sprint_v (row_get r k)) (keys r)) @ '']''"

definition rowKey :: "'st wire \<Rightarrow> row \<Rightarrow> string" where
  "rowKey w r = (case r ''id'' of Some v \<Rightarrow> Sprint_v v | None \<Rightarrow> Sprint_row (sortedKeys w) r)"

definition indexKey :: "value list \<Rightarrow> string" where
  "indexKey vs = (if length vs = 1 then Sprint_v (vs ! 0) else join_nul (map Sprint_v vs))"

definition row_index_key :: "secondaryIndex \<Rightarrow> row \<Rightarrow> string" where
  "row_index_key idx r = indexKey (map (row_get r) (si_fields idx))"

definition keys_at :: "secondaryIndex \<Rightarrow> string \<Rightarrow> string list" where
  "keys_at idx k = (case si_entries idx k of None \<Rightarrow> [] | Some ks \<Rightarrow> ks)"

definition add_index :: "string \<Rightarrow> row \<Rightarrow> secondaryIndex \<Rightarrow> secondaryIndex" where
  "add_index rk r idx =
     (let key = row_index_key idx r in idx\<lparr>si_entries := (si_entries idx)(key \<mapsto> keys_at idx key @ [rk])\<rparr>)"

definition remove_index :: "string \<Rightarrow> row \<Rightarrow> secondaryIndex \<Rightarrow> secondaryIndex" where
  "remove_index rk r idx =
     (let key = row_index_key idx r;
          ks = remove1 rk (keys_at idx key)
      in idx\<lparr>si_entries := (si_entries idx)(key := (if ks = [] then None else Some ks))\<rparr>)"

text \<open>The loops over the indexes treat each one on its own.\<close>

definition addToIndexes :: "string \<Rightarrow> row \<Rightarrow> Client \<Rightarrow> Client" where
  "addToIndexes rk r c = c\<lparr>cl_indexes := map_option (add_index rk r) \<circ> cl_indexes c\<rparr>"

definition removeFromIndexes :: "string \<Rightarrow> row \<Rightarrow> Client \<Rightarrow> Client" where
  "removeFromIndexes rk r c = c\<lparr>cl_indexes := map_option (remove_index rk r) \<circ> cl_indexes c\<rparr>"

definition clearIndexes :: "Client \<Rightarrow> Client" where
  "clearIndexes c = c\<lparr>cl_indexes := map_option (\<lambda>idx. idx\<lparr>si_entries := Map.empty\<rparr>) \<circ> cl_indexes c\<rparr>"

section \<open>Queries and listeners\<close>

definition client_Get :: "string \<Rightarrow> Client \<Rightarrow> row option" where
  "client_Get key c = cl_store c key"

definition client_Count :: "Client \<Rightarrow> nat" where
  "client_Count c = card (dom (cl_store c))"

definition client_Listen :: "bool \<Rightarrow> Client \<Rightarrow> Client" where
  "client_Listen fn c = c\<lparr>cl_listener := fn\<rparr>"

definition ListenWithPosition :: "bool \<Rightarrow> Client \<Rightarrow> Client" where
  "ListenWithPosition fn c = c\<lparr>cl_posListener := fn\<rparr>"

definition client_Columns :: "Client \<Rightarrow> ColumnDefinition list" where
  "client_Columns c = cl_columns c"

definition columnsFromProto :: "WireColumn list \<Rightarrow> ColumnDefinition list" where
  "columnsFromProto cols =
     map (\<lambda>c. \<lparr>Name = wc_ColumnName c, Type = wc_DataType c, Nullable = \<not> wc_NotNull c, PrimaryKey = wc_IsPrimaryKey c,
               OrdinalPosition = sint (wc_OrdinalPosition c), PrimaryKeyOrdinal = sint (wc_PrimaryKeyOrdinal c), DefaultValue = None,
               MaxLength = 0, TypeOID = 0\<rparr>) cols"

definition LastSequence :: "Client \<Rightarrow> int" where
  "LastSequence c = cl_lastSeq c"

definition LastSourcePosition :: "Client \<Rightarrow> string" where
  "LastSourcePosition c = cl_lastSourcePosition c"

definition client_Lookup :: "string list \<Rightarrow> string \<Rightarrow> value \<Rightarrow> Client \<Rightarrow> row option" where
  "client_Lookup order field v c = find (\<lambda>r. Sprint_v (row_get r field) = Sprint_v v) (values_of order (cl_store c))"

definition client_All :: "string list \<Rightarrow> Client \<Rightarrow> row list" where
  "client_All order c = values_of order (cl_store c)"

definition LookupByIndex :: "string \<Rightarrow> value list \<Rightarrow> Client \<Rightarrow> row list" where
  "LookupByIndex indexName vs c =
     (case cl_indexes c indexName of
        None \<Rightarrow> []
      | Some idx \<Rightarrow> List.map_filter (cl_store c) (keys_at idx (indexKey vs)))"

definition notify :: "row option \<Rightarrow> row option \<Rightarrow> Client \<Rightarrow> Client" where
  "notify old new c =
     c\<lparr>cl_notified := cl_notified c @ (if cl_listener c then [Notified old new] else []) @
       (if cl_posListener c then [NotifiedAt old new (cl_lastSourcePosition c)] else [])\<rparr>"

section \<open>Applying messages\<close>

definition apply_insert :: "'st wire \<Rightarrow> row \<Rightarrow> Client \<Rightarrow> Client" where
  "apply_insert w r c =
     (let key = rowKey w r; c = c\<lparr>cl_store := (cl_store c)(key \<mapsto> r)\<rparr> in notify None (Some r) (addToIndexes key r c))"

definition apply_update :: "'st wire \<Rightarrow> row \<Rightarrow> Client \<Rightarrow> Client" where
  "apply_update w r c =
     (let key = rowKey w r;
          old = cl_store c key;
          c = (case old of None \<Rightarrow> c | Some o' \<Rightarrow> removeFromIndexes key o' c);
          c = c\<lparr>cl_store := (cl_store c)(key \<mapsto> r)\<rparr>
      in notify old (Some r) (addToIndexes key r c))"

definition apply_delete :: "'st wire \<Rightarrow> row \<Rightarrow> Client \<Rightarrow> Client" where
  "apply_delete w r c =
     (let key = rowKey w r;
          old = cl_store c key;
          c = (case old of None \<Rightarrow> c | Some o' \<Rightarrow> removeFromIndexes key o' c)
      in notify old None (c\<lparr>cl_store := (cl_store c)(key := None)\<rparr>))"

definition apply_truncate :: "Client \<Rightarrow> Client" where
  "apply_truncate c = notify None None (clearIndexes (c\<lparr>cl_store := Map.empty\<rparr>))"

definition apply_action :: "'st wire \<Rightarrow> 'st WireEntry \<Rightarrow> Client \<Rightarrow> Client" where
  "apply_action w entry c =
     (if we_Action entry = ''INSERT'' then (case we_NewValues entry of None \<Rightarrow> c | Some st \<Rightarrow> apply_insert w (asMap w st) c)
      else if we_Action entry = ''UPDATE'' then (case we_NewValues entry of None \<Rightarrow> c | Some st \<Rightarrow> apply_update w (asMap w st) c)
      else if we_Action entry = ''DELETE'' then (case we_OldValues entry of None \<Rightarrow> c | Some st \<Rightarrow> apply_delete w (asMap w st) c)
      else if we_Action entry = ''TRUNCATE'' then apply_truncate c
      else c)"

definition applyJournalEntry :: "'st wire \<Rightarrow> 'st WireEntry \<Rightarrow> Client \<Rightarrow> Client" where
  "applyJournalEntry w entry c =
     (let c = c\<lparr>cl_lastSeq := we_Sequence entry\<rparr>;
          c = (if we_SourcePosition entry \<noteq> [] then c\<lparr>cl_lastSourcePosition := we_SourcePosition entry\<rparr> else c);
          c = apply_action w entry c
      in if cl_ready c then c else c\<lparr>cl_ready := True\<rparr>)"

fun applyMessage :: "'st wire \<Rightarrow> 'st SyncResponse \<Rightarrow> Client \<Rightarrow> bool \<times> Client" where
  "applyMessage w (MsgHandshake h) c =
     (False, if hs_Columns h \<noteq> [] then c\<lparr>cl_columns := columnsFromProto (hs_Columns h)\<rparr> else c)"
| "applyMessage w (MsgSnapshotBegin snapshotID seq n) c =
     (False, (clearIndexes (c\<lparr>cl_store := Map.empty\<rparr>))\<lparr>cl_lastSnapshotID := snapshotID, cl_lastSourcePosition := []\<rparr>)"
| "applyMessage w (MsgSnapshotRow None) c = (False, c)"
| "applyMessage w (MsgSnapshotRow (Some st)) c =
     (False, let r = asMap w st; key = rowKey w r in addToIndexes key r (c\<lparr>cl_store := (cl_store c)(key \<mapsto> r)\<rparr>))"
| "applyMessage w (MsgSnapshotEnd seq n) c = (False, c\<lparr>cl_ready := True, cl_lastSeq := seq\<rparr>)"
| "applyMessage w (MsgJournalEntry entry) c = (False, applyJournalEntry w entry c)"
| "applyMessage w (MsgHeartbeat seq now) c = (False, c)"
| "applyMessage w MsgSchemaChange c = (False, c)"
| "applyMessage w (MsgGoAway why deadline) c = (True, c)"

definition touch :: "int \<Rightarrow> Client \<Rightarrow> Client" where
  "touch now c = c\<lparr>cl_lastReceived := now\<rparr>"

section \<open>Streams, reconnecting and handing off\<close>

text \<open>A message together with the time at which it is received.  A stream that has ended has an
  error or not; \<open>ctxErr\<close> says whether the context has ended.\<close>

type_synonym 'st arrival = "int \<times> 'st SyncResponse"

definition client_request :: "bool \<Rightarrow> Client \<Rightarrow> SyncRequest" where
  "client_request resumeByPosition c =
     \<lparr>rq_Schema = cc_schema (cl_cfg c), rq_Table = cc_table (cl_cfg c),
      rq_LastKnownSequence = (if resumeByPosition then 0 else cl_lastSeq c), rq_LastSnapshotId = cl_lastSnapshotID c,
      rq_ClientId = cc_clientID (cl_cfg c), rq_LastKnownSourcePosition = cl_lastSourcePosition c, rq_Filters = cc_filters (cl_cfg c)\<rparr>"

definition stream_end :: "goerror option \<Rightarrow> bool \<Rightarrow> goerror option" where
  "stream_end err ctxErr =
     (case err of
        Some e \<Rightarrow> if ctxErr then Some CtxErr else Some (Wrap ''stream error'' e)
      | None \<Rightarrow> if ctxErr then Some CtxErr else None)"

fun process :: "'st wire \<Rightarrow> goerror option \<Rightarrow> bool \<Rightarrow> 'st arrival list \<Rightarrow> Client \<Rightarrow> (bool \<times> goerror option) \<times> Client" where
  "process w err ctxErr [] c = ((False, stream_end err ctxErr), c)"
| "process w err ctxErr ((now, m) # ms) c =
     (case applyMessage w m (touch now c) of
        (True, c) \<Rightarrow> ((True, None), c)
      | (False, c) \<Rightarrow> process w err ctxErr ms c)"

text \<open>The goroutine of \<^verbatim>\<open>drainInBackground\<close>, for the messages it receives.\<close>

definition drain_apply :: "'st wire \<Rightarrow> 'st arrival list \<Rightarrow> Client \<Rightarrow> Client" where
  "drain_apply w ms c = foldl (\<lambda>c (now, m). snd (applyMessage w m (touch now c))) c ms"

text \<open>One iteration of \<^verbatim>\<open>catchUp\<close>: what the goroutine of the old stream applies before the message of
  the new stream, and between that message and the comparison of the sequence numbers.\<close>

record 'st catch_iter =
  ci_before :: "'st arrival list"
  ci_arrival :: "'st arrival"
  ci_between :: "'st arrival list"

fun catchUp :: "'st wire \<Rightarrow> goerror option \<Rightarrow> bool \<Rightarrow> 'st catch_iter list \<Rightarrow> int option \<Rightarrow> Client \<Rightarrow> (bool \<times> goerror option) \<times> Client" where
  "catchUp w err ctxErr [] target c = ((False, stream_end err ctxErr), c)"
| "catchUp w err ctxErr (it # its) target c =
     (case ci_arrival it of (now, m) \<Rightarrow>
        let target = (case m of MsgHandshake h \<Rightarrow> Some (hs_ServerCurrentSequence h) | _ \<Rightarrow> target)
        in case applyMessage w m (touch now (drain_apply w (ci_before it) c)) of
             (True, c) \<Rightarrow> ((True, None), c)
           | (False, c) \<Rightarrow>
               (case target of
                  None \<Rightarrow> catchUp w err ctxErr its target (drain_apply w (ci_between it) c)
                | Some n \<Rightarrow>
                    let c = drain_apply w (ci_between it) c in
                    if n \<le> cl_lastSeq c then ((False, None), c) else catchUp w err ctxErr its target c))"

text \<open>One round of the loop of \<^verbatim>\<open>run\<close>: the messages of the primary stream and how it ends, the error of the
  second dial, what the old stream brings before that and after the catch-up, and the catch-up itself.\<close>

record 'st round =
  rd_msgs :: "'st arrival list"
  rd_err :: "goerror option"
  rd_ctxErr :: bool
  rd_oldFirst :: "'st arrival list"
  rd_dial :: "goerror option"
  rd_catch :: "'st catch_iter list"
  rd_newErr :: "goerror option"
  rd_newCtxErr :: bool
  rd_oldLast :: "'st arrival list"

definition run_handoff :: "'st wire \<Rightarrow> 'st round \<Rightarrow> Client \<Rightarrow> (goerror + bool) \<times> SyncRequest \<times> Client" where
  "run_handoff w rd c =
     (let c = drain_apply w (rd_oldFirst rd) c; req = client_request True c in
      case rd_dial rd of
        Some err \<Rightarrow> (Inl (Wrap ''sync'' err), req, drain_apply w (rd_oldLast rd) c)
      | None \<Rightarrow>
          (case catchUp w (rd_newErr rd) (rd_newCtxErr rd) (rd_catch rd) None c of
             ((sawGoAway, cerr), c) \<Rightarrow>
               (case cerr of Some err \<Rightarrow> Inl err | None \<Rightarrow> Inr sawGoAway, req, drain_apply w (rd_oldLast rd) c)))"

fun run_loop :: "'st wire \<Rightarrow> bool \<Rightarrow> 'st round list \<Rightarrow> Client \<Rightarrow> goerror option outcome \<times> Client" where
  "run_loop w pendingGoAway [] c = (Blocked, c)"
| "run_loop w pendingGoAway (rd # rds) c =
     (case (if pendingGoAway then ((True, None), c) else process w (rd_err rd) (rd_ctxErr rd) (rd_msgs rd) c) of
        ((goAway, perr), c) \<Rightarrow>
          if perr \<noteq> None \<or> \<not> goAway then (Returns perr, c)
          else case run_handoff w rd c of
                 (Inl err, _, c) \<Rightarrow> (Returns (Some err), c)
               | (Inr sawGoAway, _, c) \<Rightarrow> run_loop w sawGoAway rds c)"

definition client_run :: "'st wire \<Rightarrow> goerror option \<Rightarrow> 'st round list \<Rightarrow> Client \<Rightarrow> goerror option outcome \<times> Client" where
  "client_run w dialErr rds c =
     (case dialErr of
        Some err \<Rightarrow> (Returns (Some (Wrap ''sync'' err)), c)
      | None \<Rightarrow> run_loop w False rds c)"

text \<open>An attempt of \<^verbatim>\<open>runWithReconnect\<close>: the run, and whether the context has ended after it or during the
  wait.  The result has the waits, in nanoseconds.\<close>

record 'st attempt =
  at_dial :: "goerror option"
  at_rounds :: "'st round list"
  at_ctxErr :: bool
  at_cancelled :: bool

definition maxBackoff :: int where
  "maxBackoff = 30000000000"

fun reconnect_loop :: "'st wire \<Rightarrow> int \<Rightarrow> 'st attempt list \<Rightarrow> Client \<Rightarrow> (unit outcome \<times> int list) \<times> Client" where
  "reconnect_loop w backoff [] c = ((Blocked, []), c)"
| "reconnect_loop w backoff (a # as) c =
     (case client_run w (at_dial a) (at_rounds a) c of
        (Blocked, c) \<Rightarrow> ((Blocked, []), c)
      | (Panic, c) \<Rightarrow> ((Panic, []), c)
      | (Returns err, c) \<Rightarrow>
          if at_ctxErr a \<or> err = None then ((Returns (), []), c)
          else if at_cancelled a then ((Returns (), [backoff]), c)
          else case reconnect_loop w (min (backoff * 2) maxBackoff) as c of
                 ((res, waits), c) \<Rightarrow> ((res, backoff # waits), c))"

definition runWithReconnect :: "'st wire \<Rightarrow> 'st attempt list \<Rightarrow> Client \<Rightarrow> (unit outcome \<times> int list) \<times> Client" where
  "runWithReconnect w as c = reconnect_loop w 1000000000 as c"

section \<open>The local snapshot\<close>

text \<open>The file holds the JSON text of this record, or something that does not parse (\<open>Corrupted\<close>).  JSON
  has no text for infinities and not-a-number, so a snapshot with such a number is not written.\<close>

record localSnapshot =
  ls_LastSeq :: int
  ls_SnapshotID :: string
  ls_LastSourcePosition :: string
  ls_Rows :: "string \<rightharpoonup> row"

datatype snapshot_file = NoFile | Corrupted | Saved localSnapshot

definition json_number :: "value \<Rightarrow> bool" where
  "json_number v = (case v of VFloat64 FNaN \<Rightarrow> False | VFloat64 (FInf _) \<Rightarrow> False | _ \<Rightarrow> True)"

definition client_snapshot :: "Client \<Rightarrow> localSnapshot" where
  "client_snapshot c =
     \<lparr>ls_LastSeq = cl_lastSeq c, ls_SnapshotID = cl_lastSnapshotID c, ls_LastSourcePosition = cl_lastSourcePosition c, ls_Rows = cl_store c\<rparr>"

text \<open>\<open>written\<close> is whether \<^verbatim>\<open>os.WriteFile\<close> succeeds; \<open>failed\<close> is the file after it did not.\<close>

definition saveSnapshot :: "bool \<Rightarrow> snapshot_file \<Rightarrow> Client \<Rightarrow> snapshot_file \<Rightarrow> snapshot_file" where
  "saveSnapshot written failed c file =
     (if \<exists>r \<in> ran (cl_store c). \<exists>v \<in> ran r. \<not> json_number v then file
      else if written then Saved (client_snapshot c) else failed)"

definition loadSnapshot :: "snapshot_file \<Rightarrow> Client \<Rightarrow> Client" where
  "loadSnapshot file c =
     (case file of
        Saved snap \<Rightarrow>
          c\<lparr>cl_store := ls_Rows snap, cl_lastSeq := ls_LastSeq snap, cl_lastSnapshotID := ls_SnapshotID snap,
            cl_lastSourcePosition := ls_LastSourcePosition snap\<rparr>
      | _ \<Rightarrow> c)"

definition client_Start :: "snapshot_file \<Rightarrow> Client \<Rightarrow> Client" where
  "client_Start file c = (if cc_localSnapshotPath (cl_cfg c) \<noteq> [] then loadSnapshot file c else c)"

text \<open>\<^verbatim>\<open>Stop\<close>, once the goroutine has ended.\<close>

definition client_Stop :: "bool \<Rightarrow> snapshot_file \<Rightarrow> Client \<Rightarrow> snapshot_file \<Rightarrow> snapshot_file" where
  "client_Stop written failed c file =
     (if cc_localSnapshotPath (cl_cfg c) \<noteq> [] then saveSnapshot written failed c file else file)"

text \<open>\<^verbatim>\<open>AwaitReady\<close>: what it sees at each poll before the deadline.\<close>

fun client_AwaitReady :: "Client list \<Rightarrow> bool" where
  "client_AwaitReady [] = False"
| "client_AwaitReady (c # cs) = (cl_ready c \<or> client_AwaitReady cs)"

end
