(* ===== verification/Spec2Isabelle.thy ===== *)
theory Spec2Isabelle
  imports Ack_Tracker Readiness_Tracker Change_Buffer Filters_Transforms Indexed_Target Compiled_Target Fanout_Target
    Engine_Config Engine_Recovery Archive_Properties Fanout_Client
begin

text \<open>header\<close>

end
